(* ===== verification/Py_Prelude.thy ===== *)
theory Py_Prelude
  imports Complex_Main "HOL-Library.AList"
begin

text \<open>
  The Python fragment every component uses: floats with their special values, dynamic
  values, exceptions, insertion-ordered dictionaries, and clocks read one reading at a time.

  \<^item> A float is \<open>Fin x\<close>, an infinity or NaN. Comparisons and arithmetic follow IEEE 754 on
    the special values (NaN compares false with everything, infinity minus infinity is NaN).
    Arithmetic on finite values is exact: rounding, overflow of an arithmetic result and the
    sign of zero are not represented. The one range check kept is that of an integer turned
    into a float, which raises OverflowError in Python.
  \<^item> A dictionary is an association list in insertion order: \<open>AList.update\<close> replaces a value in
    place or appends a new key at the end, as \<open>d[k] = v\<close> does.
  \<^item> A string is a list of characters, each a code point below 256.
\<close>

named_theorems flt_simps "facts about comparisons and arithmetic of Python floats"
named_theorems dict_simps "facts about insertion-ordered dictionaries"

subsection \<open>Floats\<close>

datatype pyfloat = Fin real | PInf | NInf | NaN

fun fle :: "pyfloat \<Rightarrow> pyfloat \<Rightarrow> bool" where
  "fle NaN _ = False"
| "fle _ NaN = False"
| "fle (Fin x) (Fin y) = (x \<le> y)"
| "fle NInf _ = True"
| "fle _ PInf = True"
| "fle _ _ = False"

fun flt :: "pyfloat \<Rightarrow> pyfloat \<Rightarrow> bool" where
  "flt NaN _ = False"
| "flt _ NaN = False"
| "flt (Fin x) (Fin y) = (x < y)"
| "flt NInf b = (b \<noteq> NInf)"
| "flt a PInf = (a \<noteq> PInf)"
| "flt _ _ = False"

definition feq :: "pyfloat \<Rightarrow> pyfloat \<Rightarrow> bool" where
  "feq a b = (a = b \<and> a \<noteq> NaN)"

abbreviation fge :: "pyfloat \<Rightarrow> pyfloat \<Rightarrow> bool" where "fge a b \<equiv> fle b a"
abbreviation fgt :: "pyfloat \<Rightarrow> pyfloat \<Rightarrow> bool" where "fgt a b \<equiv> flt b a"

fun isfinite :: "pyfloat \<Rightarrow> bool" where
  "isfinite (Fin _) = True"
| "isfinite _ = False"

fun fneg :: "pyfloat \<Rightarrow> pyfloat" where
  "fneg (Fin x) = Fin (- x)"
| "fneg PInf = NInf"
| "fneg NInf = PInf"
| "fneg NaN = NaN"

fun fadd :: "pyfloat \<Rightarrow> pyfloat \<Rightarrow> pyfloat" where
  "fadd NaN _ = NaN"
| "fadd _ NaN = NaN"
| "fadd (Fin x) (Fin y) = Fin (x + y)"
| "fadd PInf NInf = NaN"
| "fadd NInf PInf = NaN"
| "fadd PInf _ = PInf"
| "fadd NInf _ = NInf"
| "fadd (Fin _) b = b"

definition fsub :: "pyfloat \<Rightarrow> pyfloat \<Rightarrow> pyfloat" where
  "fsub a b = fadd a (fneg b)"

definition inf_sgn :: "real \<Rightarrow> pyfloat" where
  "inf_sgn s = (if s = 0 then NaN else if 0 < s then PInf else NInf)"

fun fmul :: "pyfloat \<Rightarrow> pyfloat \<Rightarrow> pyfloat" where
  "fmul NaN _ = NaN"
| "fmul _ NaN = NaN"
| "fmul (Fin x) (Fin y) = Fin (x * y)"
| "fmul (Fin x) PInf = inf_sgn x"
| "fmul (Fin x) NInf = inf_sgn (- x)"
| "fmul PInf (Fin y) = inf_sgn y"
| "fmul NInf (Fin y) = inf_sgn (- y)"
| "fmul PInf PInf = PInf"
| "fmul NInf NInf = PInf"
| "fmul _ _ = NInf"

text \<open>
  Division. Python raises ZeroDivisionError for a zero divisor; every division of the
  modelled code stands behind a guard that excludes it, and the model uses NaN there.
\<close>

fun fdiv :: "pyfloat \<Rightarrow> pyfloat \<Rightarrow> pyfloat" where
  "fdiv NaN _ = NaN"
| "fdiv _ NaN = NaN"
| "fdiv (Fin x) (Fin y) = (if y = 0 then NaN else Fin (x / y))"
| "fdiv (Fin _) _ = Fin 0"
| "fdiv PInf (Fin y) = (if y < 0 then NInf else if y = 0 then NaN else PInf)"
| "fdiv NInf (Fin y) = (if y < 0 then PInf else if y = 0 then NaN else NInf)"
| "fdiv _ _ = NaN"

text \<open>Python's two-argument \<open>max\<close> and \<open>min\<close> keep the first argument unless the second beats it.\<close>

definition fmax :: "pyfloat \<Rightarrow> pyfloat \<Rightarrow> pyfloat" where
  "fmax a b = (if fgt b a then b else a)"

definition fmin :: "pyfloat \<Rightarrow> pyfloat \<Rightarrow> pyfloat" where
  "fmin a b = (if flt b a then b else a)"

abbreviation f0 :: pyfloat where "f0 \<equiv> Fin 0"

subsection \<open>Laws of the comparisons\<close>

lemma fle_trans: "fle a b \<Longrightarrow> fle b c \<Longrightarrow> fle a c"
  by (cases a; cases b; cases c) auto

lemma fle_refl: "a \<noteq> NaN \<Longrightarrow> fle a a"
  by (cases a) auto

lemma flt_imp_fle: "flt a b \<Longrightarrow> fle a b"
  by (cases a; cases b) auto

lemma not_fle_iff: "a \<noteq> NaN \<Longrightarrow> b \<noteq> NaN \<Longrightarrow> \<not> fle a b \<longleftrightarrow> flt b a"
  by (cases a; cases b) auto

lemma flt_fle_trans: "flt a b \<Longrightarrow> fle b c \<Longrightarrow> flt a c"
  by (cases a; cases b; cases c) auto

lemma fle_flt_trans: "fle a b \<Longrightarrow> flt b c \<Longrightarrow> flt a c"
  by (cases a; cases b; cases c) auto

lemma flt_irrefl [simp]: "\<not> flt a a"
  by (cases a) auto

lemma flt_not_fle: "flt a b \<Longrightarrow> \<not> fle b a"
  by (cases a; cases b) auto

lemma fle_NaN [simp]: "\<not> fle a NaN" "\<not> flt a NaN"
  by (cases a; simp)+

lemma fle_PInf: "a \<noteq> NaN \<Longrightarrow> fle a PInf"
  by (cases a) auto

lemma fin_cases: "isfinite a \<Longrightarrow> (\<And>x. a = Fin x \<Longrightarrow> P) \<Longrightarrow> P"
  by (cases a) auto

lemma fsub_Fin [simp]: "fsub (Fin x) (Fin y) = Fin (x - y)"
  by (simp add: fsub_def)

lemma fmax_Fin [simp]: "fmax (Fin x) (Fin y) = Fin (max x y)"
  by (simp add: fmax_def max_def)

lemma fmin_Fin [simp]: "fmin (Fin x) (Fin y) = Fin (min x y)"
  by (simp add: fmin_def min_def)

lemma fmin_le: "a \<noteq> NaN \<Longrightarrow> b \<noteq> NaN \<Longrightarrow> fle (fmin a b) a \<and> fle (fmin a b) b"
  by (cases a; cases b) (auto simp: fmin_def)

lemma fmax_ge: "a \<noteq> NaN \<Longrightarrow> b \<noteq> NaN \<Longrightarrow> fle a (fmax a b) \<and> fle b (fmax a b)"
  by (cases a; cases b) (auto simp: fmax_def)

text \<open>Subtracting or adding a non-negative finite margin moves a value down or up.\<close>

lemma fsub_margin_le: "fle f0 m \<Longrightarrow> isfinite m \<Longrightarrow> e \<noteq> NaN \<Longrightarrow> fle (fsub e m) e"
  by (cases e; cases m) (auto simp: fsub_def)

lemma fadd_margin_ge: "fle f0 m \<Longrightarrow> isfinite m \<Longrightarrow> e \<noteq> NaN \<Longrightarrow> fle e (fadd e m)"
  by (cases e; cases m) auto

lemmas fle_lemmas [flt_simps] = fle_refl flt_imp_fle not_fle_iff fle_PInf fsub_margin_le fadd_margin_ge

subsection \<open>A linear order for sorting\<close>

text \<open>
  Python sorts floats with \<open><\<close>, which is a linear order as long as no NaN is present. The
  library's sorting functions want one on the whole type, so NaN is put on top; on the other
  values the order is the comparison \<open>fle\<close>.
\<close>

instantiation pyfloat :: linorder
begin

definition less_eq_pyfloat :: "pyfloat \<Rightarrow> pyfloat \<Rightarrow> bool" where
  "less_eq_pyfloat a b = (b = NaN \<or> fle a b)"

definition less_pyfloat :: "pyfloat \<Rightarrow> pyfloat \<Rightarrow> bool" where
  "less_pyfloat a b = (a \<noteq> NaN \<and> (b = NaN \<or> flt a b))"

instance
proof
  fix a b c :: pyfloat
  show "(a < b) = (a \<le> b \<and> \<not> b \<le> a)"
    by (cases a; cases b) (auto simp: less_eq_pyfloat_def less_pyfloat_def)
  show "a \<le> a"
    by (cases a) (auto simp: less_eq_pyfloat_def)
  show "a \<le> b \<Longrightarrow> b \<le> c \<Longrightarrow> a \<le> c"
    by (cases a; cases b; cases c) (auto simp: less_eq_pyfloat_def)
  show "a \<le> b \<Longrightarrow> b \<le> a \<Longrightarrow> a = b"
    by (cases a; cases b) (auto simp: less_eq_pyfloat_def)
  show "a \<le> b \<or> b \<le> a"
    by (cases a; cases b) (auto simp: less_eq_pyfloat_def)
qed

end

lemma le_pyfloat_fle: "a \<noteq> NaN \<Longrightarrow> b \<noteq> NaN \<Longrightarrow> a \<le> b \<longleftrightarrow> fle a b"
  by (simp add: less_eq_pyfloat_def)

lemma Fin_le_Fin [simp]: "Fin x \<le> Fin y \<longleftrightarrow> x \<le> y"
  by (simp add: less_eq_pyfloat_def)

lemma mono_Fin: "mono Fin"
  by (rule monoI) simp

subsection \<open>Numbers, dynamic values, exceptions\<close>

datatype pynum = NInt int | NFlt pyfloat

datatype pyval =
    PNone
  | PBool bool
  | PNum pynum
  | PStr string
  | PList "pyval list"
  | PDict "(string \<times> pyval) list"

abbreviation PInt :: "int \<Rightarrow> pyval" where "PInt i \<equiv> PNum (NInt i)"
abbreviation PFloat :: "pyfloat \<Rightarrow> pyval" where "PFloat f \<equiv> PNum (NFlt f)"

text \<open>Python compares an int and a float by their exact values.\<close>

fun num_val :: "pynum \<Rightarrow> pyfloat" where
  "num_val (NInt i) = Fin (real_of_int i)"
| "num_val (NFlt f) = f"

definition num_eq :: "pynum \<Rightarrow> pynum \<Rightarrow> bool" where
  "num_eq a b = feq (num_val a) (num_val b)"

definition num_max :: "pynum \<Rightarrow> pynum \<Rightarrow> pynum" where
  "num_max a b = (if flt (num_val a) (num_val b) then b else a)"

datatype py_exc =
    ValueError string
  | TypeError string
  | OverflowError
  | KeyError string
  | IndexError
  | OSError string
  | ZmqError string
  | OtherError string

type_synonym 'a result = "py_exc + 'a"

text \<open>\<open>math.sqrt\<close> raises ValueError below zero.\<close>

fun fsqrt :: "pyfloat \<Rightarrow> pyfloat result" where
  "fsqrt (Fin x) = (if x < 0 then Inl (ValueError ''math domain error'') else Inr (Fin (sqrt x)))"
| "fsqrt PInf = Inr PInf"
| "fsqrt NInf = Inl (ValueError ''math domain error'')"
| "fsqrt NaN = Inr NaN"

definition bindE :: "'a result \<Rightarrow> ('a \<Rightarrow> 'b result) \<Rightarrow> 'b result" where
  "bindE r f = (case r of Inl e \<Rightarrow> Inl e | Inr x \<Rightarrow> f x)"

lemma bindE_simps [simp]: "bindE (Inl e) f = Inl e" "bindE (Inr x) f = f x"
  by (simp_all add: bindE_def)

lemma bindE_Inr_iff: "bindE r f = Inr y \<longleftrightarrow> (\<exists>x. r = Inr x \<and> f x = Inr y)"
  by (cases r) auto

lemma bindE_Inl_iff: "bindE r f = Inl e \<longleftrightarrow> r = Inl e \<or> (\<exists>x. r = Inr x \<and> f x = Inl e)"
  by (cases r) auto

text \<open>A check that raises unless its condition holds.\<close>

definition require :: "bool \<Rightarrow> py_exc \<Rightarrow> unit result" where
  "require b e = (if b then Inr () else Inl e)"

lemma require_simps [simp]:
  "require True e = Inr ()" "require False e = Inl e"
  "require b e = Inr u \<longleftrightarrow> b" "require b e = Inl e' \<longleftrightarrow> \<not> b \<and> e' = e"
  by (auto simp: require_def)

fun mapE :: "('a \<Rightarrow> 'b result) \<Rightarrow> 'a list \<Rightarrow> 'b list result" where
  "mapE f [] = Inr []"
| "mapE f (x # xs) = bindE (f x) (\<lambda>y. bindE (mapE f xs) (\<lambda>ys. Inr (y # ys)))"

lemma mapE_Inr_iff: "mapE f xs = Inr ys \<longleftrightarrow> list_all2 (\<lambda>x y. f x = Inr y) xs ys"
  by (induction xs arbitrary: ys) (auto simp: bindE_Inr_iff list_all2_Cons1)

lemma mapE_map: "(\<And>x. x \<in> set xs \<Longrightarrow> f x = Inr (g x)) \<Longrightarrow> mapE f xs = Inr (map g xs)"
  by (induction xs) auto

text \<open>
  \<open>float(i)\<close> of an integer raises OverflowError when the integer rounds to a value of at
  least \<open>2^1024\<close>, that is from \<open>2^1024 - 2^970\<close> on.
\<close>

definition float_bound :: int where
  "float_bound = 2 ^ 1024 - 2 ^ 970"

definition float_of_int :: "int \<Rightarrow> pyfloat result" where
  "float_of_int i = (if \<bar>i\<bar> < float_bound then Inr (Fin (real_of_int i)) else Inl OverflowError)"

subsection \<open>Dictionaries\<close>

type_synonym ('k, 'v) dict = "('k \<times> 'v) list"

abbreviation dict_set :: "'k \<Rightarrow> 'v \<Rightarrow> ('k, 'v) dict \<Rightarrow> ('k, 'v) dict" where
  "dict_set k v d \<equiv> AList.update k v d"

abbreviation dict_get :: "('k, 'v) dict \<Rightarrow> 'k \<Rightarrow> 'v option" where
  "dict_get d k \<equiv> map_of d k"

abbreviation keys :: "('k, 'v) dict \<Rightarrow> 'k list" where
  "keys d \<equiv> map fst d"

text \<open>A dictionary has each key once.\<close>

definition wf_dict :: "('k, 'v) dict \<Rightarrow> bool" where
  "wf_dict d = distinct (keys d)"

definition dict_get_or :: "('k, 'v) dict \<Rightarrow> 'k \<Rightarrow> 'v \<Rightarrow> 'v" where
  "dict_get_or d k x = (case dict_get d k of None \<Rightarrow> x | Some v \<Rightarrow> v)"

text \<open>\<open>d.update(e)\<close> and the merging display \<open>{**d, **e}\<close>.\<close>

definition dict_update :: "('k, 'v) dict \<Rightarrow> ('k, 'v) dict \<Rightarrow> ('k, 'v) dict" where
  "dict_update d e = foldl (\<lambda>acc (k, v). dict_set k v acc) d e"

text \<open>A dictionary display: later entries of a repeated key win, at the first one's place.\<close>

definition dict_of :: "('k \<times> 'v) list \<Rightarrow> ('k, 'v) dict" where
  "dict_of kvs = dict_update [] kvs"

lemma dict_get_set [simp, dict_simps]: "dict_get (dict_set k v d) = (dict_get d)(k \<mapsto> v)"
  by (rule update_conv')

lemma set_keys_dict_set [simp, dict_simps]: "fst ` set (dict_set k v d) = insert k (fst ` set d)"
  by (simp add: dom_update)

lemma wf_dict_set [simp, dict_simps, intro]: "wf_dict d \<Longrightarrow> wf_dict (dict_set k v d)"
  by (simp add: wf_dict_def distinct_update)

lemma wf_dict_Nil [simp]: "wf_dict []"
  by (simp add: wf_dict_def)

lemma keys_dict_set: "k \<in> fst ` set d \<Longrightarrow> keys (dict_set k v d) = keys d"
  by (induction d) auto

lemma keys_dict_set_new: "k \<notin> fst ` set d \<Longrightarrow> keys (dict_set k v d) = keys d @ [k]"
  by (induction d) auto

lemma keys_dict_set_eq: "keys (dict_set k v d) = (if k \<in> set (keys d) then keys d else keys d @ [k])"
  by (auto simp: keys_dict_set keys_dict_set_new)

lemma dict_get_None_iff: "dict_get d k = None \<longleftrightarrow> k \<notin> fst ` set d"
  by (induction d) auto

lemma dict_get_Some_iff: "(\<exists>v. dict_get d k = Some v) \<longleftrightarrow> k \<in> fst ` set d"
  by (induction d) auto

lemma wf_dict_get: "wf_dict d \<Longrightarrow> (k, v) \<in> set d \<longleftrightarrow> dict_get d k = Some v"
  unfolding wf_dict_def by (metis map_of_is_SomeI map_of_SomeD)

lemma wf_dict_update [simp, intro]: "wf_dict d \<Longrightarrow> wf_dict (dict_update d e)"
  unfolding dict_update_def by (induction e arbitrary: d) auto

lemma wf_dict_of [simp, intro]: "wf_dict (dict_of kvs)"
  by (simp add: dict_of_def)

lemma dict_update_Nil [simp]: "dict_update d [] = d"
  by (simp add: dict_update_def)

lemma dict_update_Cons [simp]: "dict_update d ((k, v) # e) = dict_update (dict_set k v d) e"
  by (simp add: dict_update_def)

lemma keys_dict_update: "fst ` set (dict_update d e) = fst ` set d \<union> fst ` set e"
proof (induction e arbitrary: d)
  case (Cons kv e)
  then show ?case by (cases kv) (simp del: set_map)
qed simp

lemma vals_dict_set: "set (map snd (dict_set k v d)) \<subseteq> insert v (set (map snd d))"
  by (induction d) auto

lemma vals_dict_update: "set (map snd (dict_update d e)) \<subseteq> set (map snd d) \<union> set (map snd e)"
proof (induction e arbitrary: d)
  case (Cons kv e)
  obtain k v where kv: "kv = (k, v)" by fastforce
  show ?case using Cons.IH [of "dict_set k v d"] vals_dict_set [of k v d] by (auto simp: kv)
qed simp

lemma dict_get_update_distinct:
  "distinct (map fst e) \<Longrightarrow> dict_get (dict_update d e) k =
     (case dict_get e k of Some v \<Rightarrow> Some v | None \<Rightarrow> dict_get d k)"
proof (induction e arbitrary: d)
  case (Cons kv e)
  obtain k' v where kv: "kv = (k', v)" by fastforce
  have "k' \<notin> fst ` set e" using Cons.prems by (simp add: kv)
  then have "dict_get e k' = None" by (simp add: dict_get_None_iff)
  then show ?case using Cons by (auto simp: kv split: option.splits)
qed simp

lemma dict_set_fresh: "k \<notin> fst ` set d \<Longrightarrow> dict_set k v d = d @ [(k, v)]"
  by (induction d) auto

lemma dict_update_fresh:
  "distinct (map fst (d @ e)) \<Longrightarrow> dict_update d e = d @ e"
proof (induction e arbitrary: d)
  case (Cons kv e)
  obtain k v where kv: "kv = (k, v)" by fastforce
  have "k \<notin> fst ` set d" using Cons.prems by (auto simp: kv)
  then show ?case using Cons.IH [of "d @ [(k, v)]"] Cons.prems by (simp add: kv dict_set_fresh)
qed simp

lemma dict_of_distinct: "distinct (map fst kvs) \<Longrightarrow> dict_of kvs = kvs"
  using dict_update_fresh [of "[]" kvs] by (simp add: dict_of_def)

subsection \<open>Clocks\<close>

text \<open>
  A clock function (\<open>time.time\<close>, \<open>time.monotonic\<close>) is read many times; the model gives it as the
  sequence of its readings, and a component that reads it keeps the number of readings taken.
\<close>

type_synonym clock = "nat \<Rightarrow> pyfloat"

end
