(* ===== verification/Py_Text.thy ===== *)
theory Py_Text
  imports Py_Prelude "HOL-Library.Char_ord" "HOL-Library.List_Lexorder"
begin

text \<open>
  The string operations of Python the program uses, as executable functions: stripping,
  splitting, joining, case mapping (of ASCII letters), reading and printing numbers, the
  fixed-point format \<open>:.nf\<close>, and the conversions \<open>float()\<close>, \<open>int()\<close>, \<open>str()\<close> and \<open>bool()\<close> of a
  dynamic value. Strings are ordered by code points (\<open>List_Lexorder\<close> over \<open>Char_ord\<close>), the order
  \<open>sorted\<close> uses. The lemmas give the round trips the components rest on.
\<close>

subsection \<open>Characters, stripping, splitting\<close>

definition code_pt :: "char \<Rightarrow> nat" where
  "code_pt c = of_char c"

definition is_space :: "char \<Rightarrow> bool" where
  "is_space c = (let n = code_pt c in (9 \<le> n \<and> n \<le> 13) \<or> (28 \<le> n \<and> n \<le> 32) \<or> n = 133 \<or> n = 160)"

definition is_digit :: "char \<Rightarrow> bool" where
  "is_digit c = (48 \<le> code_pt c \<and> code_pt c \<le> 57)"

definition strip_by :: "(char \<Rightarrow> bool) \<Rightarrow> string \<Rightarrow> string" where
  "strip_by P s = rev (dropWhile P (rev (dropWhile P s)))"

definition strip :: "string \<Rightarrow> string" where
  "strip s = strip_by is_space s"

definition strip_chars :: "string \<Rightarrow> string \<Rightarrow> string" where
  "strip_chars cs s = strip_by (\<lambda>c. c \<in> set cs) s"

fun split_on :: "char \<Rightarrow> string \<Rightarrow> string list" where
  "split_on d [] = [[]]"
| "split_on d (c # cs) =
     (if c = d then [] # split_on d cs
      else (case split_on d cs of [] \<Rightarrow> [[c]] | p # ps \<Rightarrow> (c # p) # ps))"

fun join :: "string \<Rightarrow> string list \<Rightarrow> string" where
  "join sep [] = []"
| "join sep [p] = p"
| "join sep (p # q # ps) = p @ sep @ join sep (q # ps)"

text \<open>\<open>s.split(maxsplit=n)\<close> and \<open>s.split()\<close> on runs of white space.\<close>

fun split_ws_max :: "nat \<Rightarrow> string \<Rightarrow> string list" where
  "split_ws_max n s =
     (case dropWhile is_space s of
        [] \<Rightarrow> []
      | c # cs \<Rightarrow>
          (case n of
             0 \<Rightarrow> [c # cs]
           | Suc m \<Rightarrow> takeWhile (\<lambda>x. \<not> is_space x) (c # cs) #
                      split_ws_max m (dropWhile (\<lambda>x. \<not> is_space x) (c # cs))))"

declare split_ws_max.simps [simp del]

definition split_ws :: "string \<Rightarrow> string list" where
  "split_ws s = split_ws_max (length s) s"

definition is_line_break :: "char \<Rightarrow> bool" where
  "is_line_break c = (let n = code_pt c in (10 \<le> n \<and> n \<le> 13) \<or> (28 \<le> n \<and> n \<le> 30) \<or> n = 133)"

text \<open>\<open>s.splitlines()\<close>: no empty last line, and a carriage return with its newline is one break.\<close>

fun splitlines_aux :: "string \<Rightarrow> string \<Rightarrow> string list" where
  "splitlines_aux cur [] = (if cur = [] then [] else [rev cur])"
| "splitlines_aux cur [c] = (if is_line_break c then [rev cur] else [rev (c # cur)])"
| "splitlines_aux cur (c # d # s) =
     (if code_pt c = 13 \<and> code_pt d = 10 then rev cur # splitlines_aux [] s
      else if is_line_break c then rev cur # splitlines_aux [] (d # s)
      else splitlines_aux (c # cur) (d # s))"

definition splitlines :: "string \<Rightarrow> string list" where
  "splitlines s = splitlines_aux [] s"

definition to_upper :: "char \<Rightarrow> char" where
  "to_upper c = (if 97 \<le> code_pt c \<and> code_pt c \<le> 122 then char_of (code_pt c - 32) else c)"

definition to_lower :: "char \<Rightarrow> char" where
  "to_lower c = (if 65 \<le> code_pt c \<and> code_pt c \<le> 90 then char_of (code_pt c + 32) else c)"

abbreviation upper :: "string \<Rightarrow> string" where "upper s \<equiv> map to_upper s"
abbreviation lower :: "string \<Rightarrow> string" where "lower s \<equiv> map to_lower s"

definition starts_with :: "string \<Rightarrow> string \<Rightarrow> bool" where
  "starts_with p s = (take (length p) s = p)"

definition ends_with :: "string \<Rightarrow> string \<Rightarrow> bool" where
  "ends_with p s = starts_with (rev p) (rev s)"

text \<open>\<open>p in s\<close> for strings.\<close>

fun contains :: "string \<Rightarrow> string \<Rightarrow> bool" where
  "contains p [] = (p = [])"
| "contains p (c # s) = (starts_with p (c # s) \<or> contains p s)"

subsection \<open>Numbers as text\<close>

definition digit_char :: "nat \<Rightarrow> char" where
  "digit_char d = char_of (48 + d)"

definition digit_val :: "char \<Rightarrow> nat" where
  "digit_val c = code_pt c - 48"

fun show_nat :: "nat \<Rightarrow> string" where
  "show_nat n = (if n < 10 then [digit_char n] else show_nat (n div 10) @ [digit_char (n mod 10)])"

declare show_nat.simps [simp del]

definition show_int :: "int \<Rightarrow> string" where
  "show_int i = (if i < 0 then CHR ''-'' # show_nat (nat (- i)) else show_nat (nat i))"

definition digits_val :: "string \<Rightarrow> nat" where
  "digits_val s = foldl (\<lambda>a c. 10 * a + digit_val c) 0 s"

text \<open>Digits with single underscores between them, as \<open>int()\<close> and \<open>float()\<close> accept.\<close>

fun ok_digits :: "string \<Rightarrow> bool" where
  "ok_digits [] = False"
| "ok_digits [c] = is_digit c"
| "ok_digits (c # d # s) = (is_digit c \<and> (if d = CHR ''_'' then ok_digits s else ok_digits (d # s)))"

definition us_digits_val :: "string \<Rightarrow> nat" where
  "us_digits_val s = digits_val (filter (\<lambda>c. c \<noteq> CHR ''_'') s)"

definition split_sign :: "string \<Rightarrow> bool \<times> string" where
  "split_sign s = (case s of
      [] \<Rightarrow> (False, [])
    | c # r \<Rightarrow> if c = CHR ''-'' then (True, r) else if c = CHR ''+'' then (False, r) else (False, s))"

definition parse_int :: "string \<Rightarrow> int option" where
  "parse_int s = (let (neg, r) = split_sign (strip s) in
     if ok_digits r then Some (if neg then - int (us_digits_val r) else int (us_digits_val r)) else None)"

definition pow10 :: "int \<Rightarrow> real" where
  "pow10 e = (if 0 \<le> e then 10 ^ nat e else 1 / 10 ^ nat (- e))"

definition to_pyfloat :: "real \<Rightarrow> pyfloat" where
  "to_pyfloat x = (if \<bar>x\<bar> < real_of_int float_bound then Fin x else if 0 < x then PInf else NInf)"

definition is_num_char :: "char \<Rightarrow> bool" where
  "is_num_char c = (is_digit c \<or> c = CHR ''_'')"

definition opt_digits :: "string \<Rightarrow> bool" where
  "opt_digits s = (s = [] \<or> ok_digits s)"

definition parse_exponent :: "string \<Rightarrow> int option" where
  "parse_exponent s = (case s of
      [] \<Rightarrow> Some 0
    | c # r \<Rightarrow>
        if c = CHR ''e'' \<or> c = CHR ''E'' then
          (let (neg, ds) = split_sign r in
             if ok_digits ds then Some (if neg then - int (us_digits_val ds) else int (us_digits_val ds))
             else None)
        else None)"

definition parse_decimal :: "string \<Rightarrow> real option" where
  "parse_decimal s =
     (let ip = takeWhile is_num_char s; r1 = dropWhile is_num_char s;
          dot = (r1 \<noteq> [] \<and> hd r1 = CHR ''.'');
          r2 = (if dot then tl r1 else r1);
          fp = (if dot then takeWhile is_num_char r2 else []);
          r3 = (if dot then dropWhile is_num_char r2 else r1);
          fds = filter (\<lambda>c. c \<noteq> CHR ''_'') fp
      in if opt_digits ip \<and> opt_digits fp \<and> (ip \<noteq> [] \<or> fp \<noteq> []) then
           (case parse_exponent r3 of
              None \<Rightarrow> None
            | Some e \<Rightarrow> Some (real (us_digits_val (ip @ fp)) * pow10 (e - int (length fds))))
         else None)"

definition parse_float :: "string \<Rightarrow> pyfloat option" where
  "parse_float s =
     (let (neg, r) = split_sign (strip s); w = lower r in
      if w = ''inf'' \<or> w = ''infinity'' then Some (if neg then NInf else PInf)
      else if w = ''nan'' then Some NaN
      else (case parse_decimal r of
              None \<Rightarrow> None
            | Some x \<Rightarrow> Some (to_pyfloat (if neg then - x else x))))"

text \<open>The format \<open>:.df\<close>: the exact decimal expansion, rounded half to even.\<close>

definition round_even :: "real \<Rightarrow> nat" where
  "round_even y = (let f = nat \<lfloor>y\<rfloor>; r = y - real f in
     if r < 1 / 2 then f else if 1 / 2 < r then f + 1 else if even f then f else f + 1)"

definition pad_zeros :: "nat \<Rightarrow> string \<Rightarrow> string" where
  "pad_zeros n s = replicate (n - length s) (CHR ''0'') @ s"

fun fmt_fixed :: "nat \<Rightarrow> pyfloat \<Rightarrow> string" where
  "fmt_fixed d (Fin x) =
     (let s = pad_zeros (d + 1) (show_nat (round_even (\<bar>x\<bar> * 10 ^ d))); k = length s - d in
      (if x < 0 then ''-'' else []) @ take k s @ (if d = 0 then [] else CHR ''.'' # drop k s))"
| "fmt_fixed d PInf = ''inf''"
| "fmt_fixed d NInf = ''-inf''"
| "fmt_fixed d NaN = ''nan''"

subsection \<open>Conversions of dynamic values\<close>

fun py_float :: "pyval \<Rightarrow> pyfloat result" where
  "py_float PNone = Inl (TypeError ''float()'')"
| "py_float (PBool b) = Inr (Fin (if b then 1 else 0))"
| "py_float (PNum (NInt i)) = float_of_int i"
| "py_float (PNum (NFlt f)) = Inr f"
| "py_float (PStr s) =
     (case parse_float s of Some f \<Rightarrow> Inr f | None \<Rightarrow> Inl (ValueError ''could not convert string to float''))"
| "py_float (PList _) = Inl (TypeError ''float()'')"
| "py_float (PDict _) = Inl (TypeError ''float()'')"

definition trunc_int :: "real \<Rightarrow> int" where
  "trunc_int x = (if x < 0 then \<lceil>x\<rceil> else \<lfloor>x\<rfloor>)"

fun int_of_float :: "pyfloat \<Rightarrow> int result" where
  "int_of_float (Fin x) = Inr (trunc_int x)"
| "int_of_float NaN = Inl (ValueError ''cannot convert float NaN to integer'')"
| "int_of_float _ = Inl OverflowError"

fun py_int :: "pyval \<Rightarrow> int result" where
  "py_int PNone = Inl (TypeError ''int()'')"
| "py_int (PBool b) = Inr (if b then 1 else 0)"
| "py_int (PNum (NInt i)) = Inr i"
| "py_int (PNum (NFlt f)) = int_of_float f"
| "py_int (PStr s) = (case parse_int s of Some i \<Rightarrow> Inr i | None \<Rightarrow> Inl (ValueError ''invalid literal for int()''))"
| "py_int (PList _) = Inl (TypeError ''int()'')"
| "py_int (PDict _) = Inl (TypeError ''int()'')"

text \<open>
  \<open>str()\<close>. The shortest decimal of a float and the display of a list or a dictionary are the
  parameter \<open>other\<close>.
\<close>

fun py_str :: "(pyval \<Rightarrow> string) \<Rightarrow> pyval \<Rightarrow> string" where
  "py_str other PNone = ''None''"
| "py_str other (PBool b) = (if b then ''True'' else ''False'')"
| "py_str other (PNum (NInt i)) = show_int i"
| "py_str other (PStr s) = s"
| "py_str other v = other v"

fun py_truth :: "pyval \<Rightarrow> bool" where
  "py_truth PNone = False"
| "py_truth (PBool b) = b"
| "py_truth (PNum n) = (\<not> num_eq n (NInt 0))"
| "py_truth (PStr s) = (s \<noteq> [])"
| "py_truth (PList vs) = (vs \<noteq> [])"
| "py_truth (PDict kvs) = (kvs \<noteq> [])"

subsection \<open>Round trips\<close>

lemma code_pt_char_of: "n < 256 \<Longrightarrow> code_pt (char_of n) = n"
  by (simp add: code_pt_def)

lemma digit_val_digit_char [simp]: "d < 10 \<Longrightarrow> digit_val (digit_char d) = d"
  by (simp add: digit_val_def digit_char_def code_pt_char_of)

lemma is_digit_digit_char [simp]: "d < 10 \<Longrightarrow> is_digit (digit_char d)"
  by (simp add: is_digit_def digit_char_def code_pt_char_of)

lemma show_nat_digits: "c \<in> set (show_nat n) \<Longrightarrow> is_digit c"
proof (induction n rule: show_nat.induct)
  case (1 n)
  then show ?case by (cases "n < 10") (auto simp: show_nat.simps [of n])
qed

lemma show_nat_nonempty [simp]: "show_nat n \<noteq> []"
  by (subst show_nat.simps) simp

lemma digits_val_snoc: "digits_val (s @ [c]) = 10 * digits_val s + digit_val c"
  by (simp add: digits_val_def)

lemma digits_val_show_nat [simp]: "digits_val (show_nat n) = n"
proof (induction n rule: show_nat.induct)
  case (1 n)
  show ?case
  proof (cases "n < 10")
    case True
    then show ?thesis by (simp add: show_nat.simps [of n] digits_val_def)
  next
    case False
    with 1 have "digits_val (show_nat (n div 10)) = n div 10" by simp
    with False show ?thesis by (simp add: show_nat.simps [of n] digits_val_snoc)
  qed
qed

lemma digit_not_underscore: "is_digit c \<Longrightarrow> c \<noteq> CHR ''_''"
  by (auto simp: is_digit_def code_pt_def)

lemma digit_not_sign: "is_digit c \<Longrightarrow> c \<noteq> CHR ''-'' \<and> c \<noteq> CHR ''+''"
  by (auto simp: is_digit_def code_pt_def)

lemma digit_not_space: "is_digit c \<Longrightarrow> \<not> is_space c"
  by (auto simp: is_digit_def is_space_def Let_def)

lemma minus_not_space [simp]: "\<not> is_space (CHR ''-'')"
  by (simp add: is_space_def code_pt_def)

lemma ok_digits_all: "s \<noteq> [] \<Longrightarrow> (\<And>c. c \<in> set s \<Longrightarrow> is_digit c) \<Longrightarrow> ok_digits s"
proof (induction s rule: ok_digits.induct)
  case (3 c d s)
  have "d \<noteq> CHR ''_''" using 3(4) by (auto dest: digit_not_underscore)
  with 3 show ?case by auto
qed auto

lemma dropWhile_keep: "s \<noteq> [] \<Longrightarrow> \<not> P (hd s) \<Longrightarrow> dropWhile P s = s"
  by (cases s) auto

lemma strip_by_id: "s \<noteq> [] \<Longrightarrow> \<not> P (hd s) \<Longrightarrow> \<not> P (last s) \<Longrightarrow> strip_by P s = s"
  by (simp add: strip_by_def dropWhile_keep hd_rev)

lemma strip_by_Nil [simp]: "strip_by P [] = []"
  by (simp add: strip_by_def)

lemma strip_by_none: "(\<And>c. c \<in> set s \<Longrightarrow> \<not> P c) \<Longrightarrow> strip_by P s = s"
  by (cases "s = []") (auto intro!: strip_by_id)

lemma strip_by_ends:
  assumes "strip_by P s \<noteq> []"
  shows "\<not> P (hd (strip_by P s))" and "\<not> P (last (strip_by P s))"
proof -
  let ?r = "dropWhile P s" and ?t = "dropWhile P (rev (dropWhile P s))"
  have ne: "?t \<noteq> []" using assms by (simp add: strip_by_def)
  then have "\<not> P (hd ?t)" by (metis hd_dropWhile)
  with ne show "\<not> P (last (strip_by P s))" by (simp add: strip_by_def last_rev)
  have rne: "?r \<noteq> []" using ne by (metis dropWhile.simps(1) rev.simps(1))
  then have h: "\<not> P (hd ?r)" by (metis hd_dropWhile)
  have "rev ?r = takeWhile P (rev ?r) @ ?t" by simp
  then have "?r = rev ?t @ rev (takeWhile P (rev ?r))" by (metis rev_append rev_rev_ident)
  then have "hd ?r = hd (rev ?t)" using ne by (metis hd_append2 rev_is_Nil_conv)
  with h show "\<not> P (hd (strip_by P s))" by (simp add: strip_by_def)
qed

lemma strip_by_idem: "strip_by P (strip_by P s) = strip_by P s"
  by (cases "strip_by P s = []") (auto intro!: strip_by_id dest: strip_by_ends)

lemma set_strip_by: "set (strip_by P s) \<subseteq> set s"
  by (auto simp: strip_by_def dest!: set_dropWhileD)

lemma show_int_chars: "c \<in> set (show_int i) \<Longrightarrow> is_digit c \<or> c = CHR ''-''"
  by (auto simp: show_int_def dest: show_nat_digits split: if_splits)

lemma strip_show_int [simp]: "strip (show_int i) = show_int i"
  unfolding strip_def by (rule strip_by_none) (auto dest!: show_int_chars digit_not_space)

lemma us_digits_val_show_nat [simp]: "us_digits_val (show_nat n) = n"
proof -
  have "filter (\<lambda>c. c \<noteq> CHR ''_'') (show_nat n) = show_nat n"
    by (rule filter_True) (auto dest: show_nat_digits digit_not_underscore)
  then show ?thesis by (simp add: us_digits_val_def)
qed

lemma ok_digits_show_nat [simp]: "ok_digits (show_nat n)"
  by (rule ok_digits_all) (auto dest: show_nat_digits)

lemma split_sign_show_nat [simp]: "split_sign (show_nat n) = (False, show_nat n)"
proof (cases "show_nat n")
  case (Cons c r)
  then have "is_digit c" using show_nat_digits [of c n] by simp
  then show ?thesis using Cons by (auto simp: split_sign_def dest: digit_not_sign)
qed simp

text \<open>Reading back a printed integer gives the integer.\<close>

lemma parse_int_show_int [simp]: "parse_int (show_int i) = Some i"
proof (cases "i < 0")
  case True
  then have "split_sign (show_int i) = (True, show_nat (nat (- i)))"
    by (simp add: show_int_def split_sign_def)
  with True show ?thesis by (simp add: parse_int_def)
next
  case False
  then have "split_sign (show_int i) = (False, show_nat (nat i))"
    by (simp add: show_int_def)
  with False show ?thesis by (simp add: parse_int_def)
qed

lemma show_int_inj: "show_int i = show_int j \<longleftrightarrow> i = j"
  by (metis option.inject parse_int_show_int)

text \<open>Splitting at a separator and joining again.\<close>

lemma split_on_nonempty [simp]: "split_on d s \<noteq> []"
  by (cases s) (auto split: list.splits)

lemma join_Cons_ne: "ps \<noteq> [] \<Longrightarrow> join sep (p # ps) = p @ sep @ join sep ps"
  by (cases ps) auto

lemma join_split_on [simp]: "join [d] (split_on d s) = s"
proof (induction s)
  case (Cons c cs)
  obtain p ps where sp: "split_on d cs = p # ps" by (cases "split_on d cs") auto
  have "join [d] ((c # p) # ps) = c # join [d] (p # ps)" by (cases ps) auto
  with Cons show ?case by (auto simp: sp join_Cons_ne)
qed simp

lemma split_on_no_sep: "p \<in> set (split_on d s) \<Longrightarrow> d \<notin> set p"
  by (induction s arbitrary: p) (auto split: list.splits if_splits)

lemma split_on_id: "d \<notin> set s \<Longrightarrow> split_on d s = [s]"
  by (induction s) auto

lemma split_on_append_sep: "d \<notin> set p \<Longrightarrow> split_on d (p @ d # s) = p # split_on d s"
  by (induction p) auto

lemma split_on_join: "ps \<noteq> [] \<Longrightarrow> (\<And>p. p \<in> set ps \<Longrightarrow> d \<notin> set p) \<Longrightarrow> split_on d (join [d] ps) = ps"
proof (induction ps)
  case (Cons p ps)
  then show ?case
    by (cases ps) (auto simp: split_on_id split_on_append_sep)
qed simp

lemma set_join: "set (join sep ps) \<subseteq> set sep \<union> \<Union> (set ` set ps)"
  by (induction sep ps rule: join.induct) auto

lemma py_str_PStr_PInt: "py_str other (PStr s) = s" "py_str other (PInt i) = show_int i"
  by simp_all

lemma float_of_int_small: "\<bar>i\<bar> < 2 ^ 1023 \<Longrightarrow> float_of_int i = Inr (Fin (real_of_int i))"
proof -
  assume "\<bar>i\<bar> < 2 ^ 1023"
  moreover have "(2::int) ^ 1023 < float_bound" by (simp add: float_bound_def)
  ultimately show ?thesis by (simp add: float_of_int_def)
qed

end
