(* ===== verification/Stats.thy ===== *)
theory Stats
  imports Py_Text "HOL-Library.Multiset"
begin

text \<open>
  \<^verbatim>\<open>stats_accumulator.py\<close>: the accumulator a publisher flushes at a low rate. \<open>acc_update\<close> is
  Welford's recurrence plus a ring buffer of the newest samples, \<open>acc_flush\<close> turns it into a
  \<open>Stats\<close> record and resets it. The lemmas show that the recurrence computes the arithmetic
  mean and the sample standard deviation (in exact arithmetic), that the ring buffer holds
  exactly the newest samples, that no index leaves the buffer and that a flush starts afresh.
\<close>

record Stats =
  st_mean :: pyfloat
  st_std_dev :: pyfloat
  st_min :: pyfloat
  st_max :: pyfloat
  st_p05 :: pyfloat
  st_p50 :: pyfloat
  st_p95 :: pyfloat
  st_count :: int

definition Stats_default :: Stats where
  "Stats_default = \<lparr>st_mean = f0, st_std_dev = f0, st_min = f0, st_max = f0,
     st_p05 = f0, st_p50 = f0, st_p95 = f0, st_count = 0\<rparr>"

record StatAccumulator =
  acc_cap :: int
  acc_buf :: "pyfloat list"
  acc_n :: nat
  acc_mean :: pyfloat
  acc_M2 :: pyfloat
  acc_min :: pyfloat
  acc_max :: pyfloat
  acc_write_idx :: nat

definition acc_reset :: "StatAccumulator \<Rightarrow> StatAccumulator" where
  "acc_reset a = a\<lparr>acc_n := 0, acc_mean := f0, acc_M2 := f0, acc_min := PInf, acc_max := NInf,
     acc_write_idx := 0\<rparr>"

definition acc_init :: "int \<Rightarrow> StatAccumulator" where
  "acc_init percentile_capacity = acc_reset
     \<lparr>acc_cap = percentile_capacity,
      acc_buf = (if percentile_capacity > 0 then replicate (nat percentile_capacity) f0 else []),
      acc_n = 0, acc_mean = f0, acc_M2 = f0, acc_min = PInf, acc_max = NInf, acc_write_idx = 0\<rparr>"

definition welford_step :: "pyfloat \<Rightarrow> StatAccumulator \<Rightarrow> StatAccumulator" where
  "welford_step x a =
     (let n = acc_n a + 1;
          delta = fsub x (acc_mean a);
          mean = fadd (acc_mean a) (fdiv delta (Fin (real n)));
          M2 = fadd (acc_M2 a) (fmul delta (fsub x mean))
      in a\<lparr>acc_n := n, acc_mean := mean, acc_M2 := M2\<rparr>)"

definition minmax_step :: "pyfloat \<Rightarrow> StatAccumulator \<Rightarrow> StatAccumulator" where
  "minmax_step x a =
     (let a1 = (if flt x (acc_min a) then a\<lparr>acc_min := x\<rparr> else a)
      in (if fgt x (acc_max a1) then a1\<lparr>acc_max := x\<rparr> else a1))"

definition ring_step :: "pyfloat \<Rightarrow> StatAccumulator \<Rightarrow> StatAccumulator" where
  "ring_step x a =
     (if acc_cap a > 0 then
        a\<lparr>acc_buf := (acc_buf a)[acc_write_idx a mod nat (acc_cap a) := x],
          acc_write_idx := acc_write_idx a + 1\<rparr>
      else a)"

definition acc_update :: "pyfloat \<Rightarrow> StatAccumulator \<Rightarrow> StatAccumulator" where
  "acc_update x a = ring_step x (minmax_step x (welford_step x a))"

definition acc_updates :: "pyfloat list \<Rightarrow> StatAccumulator \<Rightarrow> StatAccumulator" where
  "acc_updates xs a = foldl (\<lambda>b x. acc_update x b) a xs"

text \<open>
  \<open>flush\<close>. An index outside the sorted window raises IndexError (Python's negative indices
  cannot occur, the index is not negative); a raised exception leaves the accumulator as it was.
\<close>

definition pct :: "pyfloat list \<Rightarrow> nat \<Rightarrow> real \<Rightarrow> pyfloat result" where
  "pct tmp n q = (let i = nat (trunc_int (q * real (n - 1))) in
     if i < length tmp then Inr (tmp ! i) else Inl IndexError)"

definition std_of :: "StatAccumulator \<Rightarrow> pyfloat result" where
  "std_of a = (if acc_n a > 1 then fsqrt (fdiv (acc_M2 a) (Fin (real (acc_n a - 1)))) else Inr f0)"

definition flush_moments :: "StatAccumulator \<Rightarrow> Stats result" where
  "flush_moments a =
     (let s = Stats_default\<lparr>st_count := int (acc_n a)\<rparr> in
      if acc_n a > 0 then
        bindE (std_of a) (\<lambda>sd.
          Inr (s\<lparr>st_mean := acc_mean a, st_std_dev := sd, st_min := acc_min a, st_max := acc_max a\<rparr>))
      else Inr s)"

definition flush_percentiles :: "StatAccumulator \<Rightarrow> Stats \<Rightarrow> Stats result" where
  "flush_percentiles a s =
     (if acc_cap a > 0 \<and> acc_write_idx a > 0 then
        (let n = min (acc_write_idx a) (nat (acc_cap a));
             tmp = sort (take n (acc_buf a))
         in bindE (pct tmp n (5 / 100)) (\<lambda>a05.
            bindE (pct tmp n (50 / 100)) (\<lambda>a50.
            bindE (pct tmp n (95 / 100)) (\<lambda>a95.
              Inr (s\<lparr>st_p05 := a05, st_p50 := a50, st_p95 := a95\<rparr>)))))
      else Inr s)"

definition acc_flush :: "StatAccumulator \<Rightarrow> StatAccumulator \<times> Stats result" where
  "acc_flush a =
     (case bindE (flush_moments a) (flush_percentiles a) of
        Inl e \<Rightarrow> (a, Inl e)
      | Inr s \<Rightarrow> (acc_reset a, Inr s))"

subsection \<open>The accumulator after a sequence of samples\<close>

lemma acc_updates_Nil [simp]: "acc_updates [] a = a"
  by (simp add: acc_updates_def)

lemma acc_updates_snoc [simp]: "acc_updates (xs @ [x]) a = acc_update x (acc_updates xs a)"
  by (simp add: acc_updates_def)

lemmas acc_defs = acc_update_def welford_step_def minmax_step_def ring_step_def Let_def

lemma acc_update_frame [simp]:
  "acc_cap (acc_update x a) = acc_cap a"
  "acc_n (acc_update x a) = acc_n a + 1"
  "length (acc_buf (acc_update x a)) = length (acc_buf a)"
  by (simp_all add: acc_defs)

lemma acc_updates_frame [simp]:
  "acc_cap (acc_updates xs a) = acc_cap a"
  "acc_n (acc_updates xs a) = acc_n a + length xs"
  "length (acc_buf (acc_updates xs a)) = length (acc_buf a)"
  by (induction xs rule: rev_induct) auto

lemma acc_reset_frame [simp]:
  "acc_cap (acc_reset a) = acc_cap a" "acc_buf (acc_reset a) = acc_buf a"
  "acc_n (acc_reset a) = 0" "acc_write_idx (acc_reset a) = 0"
  "acc_mean (acc_reset a) = f0" "acc_M2 (acc_reset a) = f0"
  "acc_min (acc_reset a) = PInf" "acc_max (acc_reset a) = NInf"
  by (simp_all add: acc_reset_def)

lemma acc_update_moments:
  "acc_mean (acc_update x a) = fadd (acc_mean a) (fdiv (fsub x (acc_mean a)) (Fin (real (acc_n a + 1))))"
  "acc_M2 (acc_update x a) = fadd (acc_M2 a) (fmul (fsub x (acc_mean a)) (fsub x (acc_mean (acc_update x a))))"
  "acc_min (acc_update x a) = (if flt x (acc_min a) then x else acc_min a)"
  "acc_max (acc_update x a) = (if fgt x (acc_max a) then x else acc_max a)"
  by (simp_all add: acc_defs)

definition sq_sum :: "real list \<Rightarrow> real" where
  "sq_sum xs = sum_list (map (\<lambda>x. x\<^sup>2) xs)"

definition sq_dev :: "real list \<Rightarrow> real" where
  "sq_dev xs = sum_list (map (\<lambda>x. (x - sum_list xs / real (length xs))\<^sup>2) xs)"

lemma welford_mean:
  fixes S x :: real and n :: nat
  assumes "n = 0 \<Longrightarrow> S = 0"
  shows "S / real n + (x - S / real n) / real (n + 1) = (S + x) / real (n + 1)"
  using assms by (cases "n = 0") (auto simp: divide_simps, algebra)

lemma welford_M2:
  fixes S Q x :: real and n :: nat
  assumes "n = 0 \<Longrightarrow> S = 0"
  shows "(Q - S\<^sup>2 / real n) + (x - S / real n) * (x - (S + x) / real (n + 1)) =
         (Q + x\<^sup>2) - (S + x)\<^sup>2 / real (n + 1)"
proof (cases "n = 0")
  case True
  with assms show ?thesis by (simp add: power2_eq_square)
next
  case False
  then have "real n > 0" by simp
  define r where "r = real n"
  have "r > 0" using \<open>real n > 0\<close> by (simp add: r_def)
  then have "r \<noteq> 0" "r + 1 \<noteq> 0" by auto
  have "(Q - S\<^sup>2 / r) + (x - S / r) * (x - (S + x) / (r + 1)) = (Q + x\<^sup>2) - (S + x)\<^sup>2 / (r + 1)"
    using \<open>r \<noteq> 0\<close> \<open>r + 1 \<noteq> 0\<close> by (simp add: divide_simps power2_eq_square) algebra
  then show ?thesis by (simp add: r_def add.commute)
qed

lemma acc_updates_moments:
  assumes "acc_n a = 0" and "acc_mean a = f0" and "acc_M2 a = f0"
  shows "acc_mean (acc_updates (map Fin xs) a) = Fin (sum_list xs / real (length xs))"
    and "acc_M2 (acc_updates (map Fin xs) a) = Fin (sq_sum xs - (sum_list xs)\<^sup>2 / real (length xs))"
proof (induction xs rule: rev_induct)
  case Nil
  show "acc_mean (acc_updates (map Fin []) a) = Fin (sum_list [] / real (length []))"
    and "acc_M2 (acc_updates (map Fin []) a) = Fin (sq_sum [] - (sum_list [])\<^sup>2 / real (length []))"
    using assms by (simp_all add: sq_sum_def)
next
  case (snoc x xs)
  let ?b = "acc_updates (map Fin xs) a" and ?S = "sum_list xs" and ?n = "length xs"
  have n: "acc_n ?b = ?n" using assms by simp
  have S0: "?n = 0 \<Longrightarrow> ?S = 0" by simp
  show mean: "acc_mean (acc_updates (map Fin (xs @ [x])) a) = Fin (sum_list (xs @ [x]) / real (length (xs @ [x])))"
    using welford_mean [where n = "length xs" and x = x, OF S0] by (simp add: acc_update_moments(1) snoc.IH(1) assms(1) add.commute)
  show "acc_M2 (acc_updates (map Fin (xs @ [x])) a) =
      Fin (sq_sum (xs @ [x]) - (sum_list (xs @ [x]))\<^sup>2 / real (length (xs @ [x])))"
    using welford_M2 [where n = "length xs" and Q = "sq_sum xs" and x = x, OF S0] mean
    by (simp add: acc_update_moments(2) snoc.IH assms(1) sq_sum_def add.commute)
qed

lemma sum_list_sq_dev:
  fixes m :: real
  shows "sum_list (map (\<lambda>x. (x - m)\<^sup>2) xs) = sq_sum xs - 2 * m * sum_list xs + real (length xs) * m\<^sup>2"
  by (induction xs) (auto simp: sq_sum_def power2_eq_square algebra_simps)

lemma sq_dev_eq: "sq_dev xs = sq_sum xs - (sum_list xs)\<^sup>2 / real (length xs)"
proof (cases "xs = []")
  case False
  then have "real (length xs) \<noteq> 0" by simp
  moreover have "sq_dev xs = sq_sum xs - 2 * (sum_list xs / real (length xs)) * sum_list xs
      + real (length xs) * (sum_list xs / real (length xs))\<^sup>2"
    by (simp only: sq_dev_def sum_list_sq_dev)
  ultimately show ?thesis
    by (simp add: field_simps power2_eq_square)
qed (simp add: sq_dev_def sq_sum_def)

lemma sq_dev_nonneg: "0 \<le> sq_dev xs"
  unfolding sq_dev_def by (rule sum_list_nonneg) auto

lemma acc_updates_minmax:
  assumes "acc_min a = PInf" and "acc_max a = NInf" and "xs \<noteq> []"
  shows "acc_min (acc_updates (map Fin xs) a) = Fin (Min (set xs)) \<and>
         acc_max (acc_updates (map Fin xs) a) = Fin (Max (set xs))"
  using assms(3)
proof (induction xs rule: rev_nonempty_induct)
  case (single x)
  show ?case using assms acc_updates_snoc [of "[]" "Fin x" a] by (simp add: acc_update_moments)
next
  case (snoc x xs)
  obtain lo hi where m: "Min (set xs) = lo" "Max (set xs) = hi" by blast
  have "Min (insert x (set xs)) = min x lo" "Max (insert x (set xs)) = max x hi"
    using snoc.hyps m by simp_all
  then show ?case using snoc.IH m by (simp add: acc_update_moments min_def max_def)
qed

subsection \<open>The ring buffer\<close>

text \<open>
  With capacity \<open>c\<close> and the samples \<open>xs\<close> written since the last reset, slot \<open>k mod c\<close> holds
  sample \<open>k\<close> for each of the newest \<open>c\<close> samples.
\<close>

definition ring_inv :: "pyfloat list \<Rightarrow> StatAccumulator \<Rightarrow> bool" where
  "ring_inv xs a =
     (acc_cap a > 0 \<and> length (acc_buf a) = nat (acc_cap a) \<and> acc_write_idx a = length xs \<and>
      (\<forall>k < length xs. length xs \<le> k + nat (acc_cap a) \<longrightarrow> acc_buf a ! (k mod nat (acc_cap a)) = xs ! k))"

lemma ring_inv_reset: "acc_cap a > 0 \<Longrightarrow> length (acc_buf a) = nat (acc_cap a) \<Longrightarrow> ring_inv [] (acc_reset a)"
  by (simp add: ring_inv_def)

lemma acc_update_ring:
  "acc_cap a > 0 \<Longrightarrow> acc_buf (acc_update x a) = (acc_buf a)[acc_write_idx a mod nat (acc_cap a) := x]"
  "acc_cap a > 0 \<Longrightarrow> acc_write_idx (acc_update x a) = acc_write_idx a + 1"
  by (simp_all add: acc_defs)

lemma mod_neq_window:
  assumes "k < (w::nat)" and "w < k + c"
  shows "k mod c \<noteq> w mod c"
proof
  assume "k mod c = w mod c"
  then have "c dvd w - k" using assms(1) by (metis mod_eq_dvd_iff_nat order_less_imp_le)
  moreover have "0 < w - k" "w - k < c" using assms by auto
  ultimately show False by (metis nat_dvd_not_less)
qed

lemma ring_inv_update:
  assumes "ring_inv xs a"
  shows "ring_inv (xs @ [x]) (acc_update x a)"
proof -
  let ?c = "nat (acc_cap a)"
  have c: "acc_cap a > 0" "length (acc_buf a) = ?c" "acc_write_idx a = length xs" "0 < ?c"
    using assms by (auto simp: ring_inv_def)
  have "(acc_buf a)[length xs mod ?c := x] ! (k mod ?c) = (xs @ [x]) ! k"
    if "k < Suc (length xs)" "Suc (length xs) \<le> k + ?c" for k
  proof (cases "k = length xs")
    case True
    with c show ?thesis by simp
  next
    case False
    with that have "k < length xs" "length xs < k + ?c" by auto
    then show ?thesis using assms mod_neq_window [of k "length xs" ?c]
      by (simp add: ring_inv_def nth_append)
  qed
  with c show ?thesis by (simp add: ring_inv_def acc_update_ring)
qed

lemma ring_inv_updates:
  "acc_cap a > 0 \<Longrightarrow> length (acc_buf a) = nat (acc_cap a) \<Longrightarrow> ring_inv xs (acc_updates xs (acc_reset a))"
  by (induction xs rule: rev_induct) (auto simp: ring_inv_reset ring_inv_update)

text \<open>The newest samples, oldest first.\<close>

definition newest :: "nat \<Rightarrow> 'a list \<Rightarrow> 'a list" where
  "newest c xs = drop (length xs - c) xs"

lemma mset_nth: "mset xs = image_mset ((!) xs) (mset_set {0..<length xs})"
  by (metis map_nth mset_map mset_upt)

lemma window_bij:
  assumes "0 < (c::nat)"
  shows "bij_betw (\<lambda>k. k mod c) {w - c..<w} {0..<min w c}"
proof (rule bij_betw_imageI)
  show inj: "inj_on (\<lambda>k. k mod c) {w - c..<w}"
  proof (rule linorder_inj_onI)
    fix i j assume "i < j" "i \<in> {w - c..<w}" "j \<in> {w - c..<w}"
    then show "i mod c \<noteq> j mod c" by (intro mod_neq_window) auto
  qed auto
  have "(\<lambda>k. k mod c) ` {w - c..<w} \<subseteq> {0..<min w c}"
    using assms by (auto intro: le_less_trans [OF mod_less_eq_dividend])
  moreover have "card ((\<lambda>k. k mod c) ` {w - c..<w}) = card {0..<min w c}"
    using inj by (simp add: card_image)
  ultimately show "(\<lambda>k. k mod c) ` {w - c..<w} = {0..<min w c}"
    by (intro card_subset_eq) auto
qed

lemma ring_inv_window:
  assumes "ring_inv xs a"
  shows "mset (take (min (acc_write_idx a) (nat (acc_cap a))) (acc_buf a)) = mset (newest (nat (acc_cap a)) xs)"
proof -
  let ?c = "nat (acc_cap a)" and ?w = "length xs" and ?b = "acc_buf a"
  have c: "0 < ?c" "length ?b = ?c" "acc_write_idx a = ?w"
    and slot: "\<And>k. k < ?w \<Longrightarrow> ?w \<le> k + ?c \<Longrightarrow> ?b ! (k mod ?c) = xs ! k"
    using assms by (auto simp: ring_inv_def)
  have "mset (take (min ?w ?c) ?b) = image_mset ((!) ?b) (mset_set {0..<min ?w ?c})"
    unfolding mset_nth [of "take _ _"] using c by (simp add: min.commute) (auto intro!: image_mset_cong)
  also have "mset_set {0..<min ?w ?c} = image_mset (\<lambda>k. k mod ?c) (mset_set {?w - ?c..<?w})"
    using window_bij [OF c(1), of ?w] by (simp add: bij_betw_def image_mset_mset_set)
  also have "image_mset ((!) ?b) \<dots> = image_mset ((!) xs) (mset_set {?w - ?c..<?w})"
    using slot by (auto simp: multiset.map_comp intro!: image_mset_cong)
  also have "\<dots> = mset (newest ?c xs)"
    by (metis atLeastLessThan_upt drop_map drop_upt map_nth mset_map mset_upt newest_def add_0)
  finally show ?thesis using c by simp
qed

subsection \<open>What a flush returns\<close>

definition acc_wf :: "StatAccumulator \<Rightarrow> bool" where
  "acc_wf a = (length (acc_buf a) = nat (acc_cap a))"

lemma acc_wf_init [simp]: "acc_wf (acc_init c)"
  by (simp add: acc_wf_def acc_init_def)

lemma acc_wf_pres [simp]: "acc_wf a \<Longrightarrow> acc_wf (acc_update x a)" "acc_wf a \<Longrightarrow> acc_wf (acc_reset a)"
  "acc_wf a \<Longrightarrow> acc_wf (acc_updates xs a)"
  by (simp_all add: acc_wf_def)

lemma acc_wf_flush: "acc_wf a \<Longrightarrow> acc_wf (fst (acc_flush a))"
  by (auto simp: acc_flush_def split: sum.splits)

definition pct_idx :: "nat \<Rightarrow> real \<Rightarrow> nat" where
  "pct_idx n q = nat \<lfloor>q * real (n - 1)\<rfloor>"

lemma pct_idx_less: "0 < n \<Longrightarrow> 0 \<le> q \<Longrightarrow> q \<le> 1 \<Longrightarrow> pct_idx n q < n"
proof -
  assume a: "0 < n" "0 \<le> q" "q \<le> 1"
  then have "q * real (n - 1) \<le> real (n - 1)" by (simp add: mult_left_le_one_le)
  then have "\<lfloor>q * real (n - 1)\<rfloor> \<le> int (n - 1)" by (metis floor_mono floor_of_nat)
  with a show ?thesis by (simp add: pct_idx_def)
qed

lemma pct_idx_mono: "0 \<le> p \<Longrightarrow> p \<le> q \<Longrightarrow> pct_idx n p \<le> pct_idx n q"
  by (auto simp: pct_idx_def intro!: nat_mono floor_mono mult_right_mono)

lemma pct_ok: "length tmp = n \<Longrightarrow> 0 < n \<Longrightarrow> 0 \<le> q \<Longrightarrow> q \<le> 1 \<Longrightarrow> pct tmp n q = Inr (tmp ! pct_idx n q)"
  using pct_idx_less [of n q] by (simp add: pct_def pct_idx_def trunc_int_def mult_less_0_iff)

text \<open>The percentiles of a window, by the index rule of the code.\<close>

definition pct_of :: "pyfloat list \<Rightarrow> real \<Rightarrow> pyfloat" where
  "pct_of ws q = sort ws ! pct_idx (length ws) q"

lemma pct_of_in: "ws \<noteq> [] \<Longrightarrow> 0 \<le> q \<Longrightarrow> q \<le> 1 \<Longrightarrow> pct_of ws q \<in> set ws"
  unfolding pct_of_def by (metis length_greater_0_conv length_sort nth_mem pct_idx_less set_sort)

lemma pct_of_mono: "ws \<noteq> [] \<Longrightarrow> 0 \<le> p \<Longrightarrow> p \<le> q \<Longrightarrow> q \<le> 1 \<Longrightarrow> pct_of ws p \<le> pct_of ws q"
  unfolding pct_of_def by (intro sorted_nth_mono) (auto simp: pct_idx_mono pct_idx_less)

lemma length_newest [simp]: "length (newest c xs) = min (length xs) c"
  by (simp add: newest_def)

lemma flush_percentiles_window:
  assumes "ring_inv xs a" and "xs \<noteq> []"
  shows "flush_percentiles a s = Inr (s\<lparr>st_p05 := pct_of (newest (nat (acc_cap a)) xs) (5 / 100),
    st_p50 := pct_of (newest (nat (acc_cap a)) xs) (50 / 100),
    st_p95 := pct_of (newest (nat (acc_cap a)) xs) (95 / 100)\<rparr>)"
proof -
  let ?c = "nat (acc_cap a)" and ?n = "min (acc_write_idx a) (nat (acc_cap a))"
  have c: "acc_cap a > 0" "acc_write_idx a = length xs" "0 < length xs"
    using assms by (auto simp: ring_inv_def)
  have "sort (take ?n (acc_buf a)) = sort (newest ?c xs)"
    using ring_inv_window [OF assms(1)] by (metis sorted_list_of_multiset_mset)
  moreover have "length (newest ?c xs) = ?n" "0 < ?n" using c by simp_all
  ultimately show ?thesis using c
    by (simp add: flush_percentiles_def Let_def pct_ok pct_of_def)
qed

lemma flush_percentiles_off: "acc_cap a \<le> 0 \<Longrightarrow> flush_percentiles a s = Inr s"
  by (simp add: flush_percentiles_def)

lemma std_of_samples:
  "xs \<noteq> [] \<Longrightarrow> std_of (acc_updates (map Fin xs) (acc_reset a)) =
     Inr (Fin (if length xs > 1 then sqrt (sq_dev xs / real (length xs - 1)) else 0))"
  using sq_dev_nonneg [of xs]
  by (auto simp: std_of_def acc_updates_moments simp flip: sq_dev_eq simp: divide_less_0_iff)

lemma flush_moments_samples:
  assumes "xs \<noteq> []"
  shows "flush_moments (acc_updates (map Fin xs) (acc_reset a)) =
    Inr (Stats_default\<lparr>st_count := int (length xs), st_mean := Fin (sum_list xs / real (length xs)),
      st_std_dev := Fin (if length xs > 1 then sqrt (sq_dev xs / real (length xs - 1)) else 0),
      st_min := Fin (Min (set xs)), st_max := Fin (Max (set xs))\<rparr>)"
  using assms acc_updates_minmax [of "acc_reset a" xs]
  by (simp add: flush_moments_def std_of_samples acc_updates_moments(1))

lemma flush_ok_iff: "acc_flush a = (a', Inr s) \<longleftrightarrow>
    a' = acc_reset a \<and> bindE (flush_moments a) (flush_percentiles a) = Inr s"
  by (auto simp: acc_flush_def split: sum.splits)

lemma acc_reset_eq_upto_buf:
  "acc_cap a = acc_cap b \<Longrightarrow> acc_reset a = (acc_reset b)\<lparr>acc_buf := acc_buf a\<rparr>"
  by (cases a; cases b) (simp add: acc_reset_def)

lemma acc_update_buf_indep:
  "\<exists>buf. acc_update x (a\<lparr>acc_buf := bs\<rparr>) = (acc_update x a)\<lparr>acc_buf := buf\<rparr>"
  by (cases a) (auto simp: acc_defs)

lemma acc_updates_buf_indep:
  "\<exists>buf. acc_updates xs (a\<lparr>acc_buf := bs\<rparr>) = (acc_updates xs a)\<lparr>acc_buf := buf\<rparr>"
proof (induction xs rule: rev_induct)
  case (snoc x xs)
  then obtain buf where "acc_updates xs (a\<lparr>acc_buf := bs\<rparr>) = (acc_updates xs a)\<lparr>acc_buf := buf\<rparr>" by blast
  then show ?case using acc_update_buf_indep [where x = x and a = "acc_updates xs a" and bs = buf] by simp
qed (auto intro: exI [of _ bs])

lemma flush_moments_buf: "flush_moments (a\<lparr>acc_buf := bs\<rparr>) = flush_moments a"
  by (cases "acc_n a > 0") (simp_all add: flush_moments_def std_of_def)

lemma flush_percentiles_samples:
  "acc_wf a \<Longrightarrow> flush_percentiles (acc_updates ys (acc_reset a)) s =
     (if acc_cap a > 0 \<and> ys \<noteq> [] then
        Inr (s\<lparr>st_p05 := pct_of (newest (nat (acc_cap a)) ys) (5 / 100),
          st_p50 := pct_of (newest (nat (acc_cap a)) ys) (50 / 100),
          st_p95 := pct_of (newest (nat (acc_cap a)) ys) (95 / 100)\<rparr>)
      else Inr s)"
  using flush_percentiles_window [of ys "acc_updates ys (acc_reset a)" s] ring_inv_updates [of a ys]
  by (auto simp: acc_wf_def flush_percentiles_def)

lemma flush_result_indep:
  assumes "acc_wf a" and "acc_wf b" and "acc_cap a = acc_cap b"
  shows "snd (acc_flush (acc_updates ys (acc_reset a))) = snd (acc_flush (acc_updates ys (acc_reset b)))"
proof -
  have m: "flush_moments (acc_updates ys (acc_reset a)) = flush_moments (acc_updates ys (acc_reset b))"
    using acc_updates_buf_indep [where xs = ys and a = "acc_reset b" and bs = "acc_buf a"] acc_reset_eq_upto_buf [OF assms(3)]
    by (auto simp: flush_moments_buf)
  have p: "flush_percentiles (acc_updates ys (acc_reset a)) = flush_percentiles (acc_updates ys (acc_reset b))"
    using assms by (auto simp: fun_eq_iff flush_percentiles_samples)
  show ?thesis by (simp add: acc_flush_def m p split: sum.splits)
qed

lemma flush_samples_ok:
  "acc_wf a \<Longrightarrow> xs \<noteq> [] \<Longrightarrow> \<exists>s. snd (acc_flush (acc_updates (map Fin xs) (acc_reset a))) = Inr s"
  by (simp add: acc_flush_def flush_moments_samples flush_percentiles_samples)

subsection \<open>Properties\<close>

text \<open>C7: After a reset and any non-empty sequence of finite samples, a flush returns the number of
  samples, their arithmetic mean, the sample standard deviation (divisor n - 1, 0 for one sample),
  the least and the greatest sample: Welford's one-pass recurrence computes the two-pass
  statistics (in exact arithmetic), and the square root never sees a negative argument.\<close>

theorem flush_statistics:
  assumes "acc_wf a" and "xs \<noteq> []"
  shows "\<exists>s. snd (acc_flush (acc_updates (map Fin xs) (acc_reset a))) = Inr s \<and>
    st_count s = int (length xs) \<and>
    st_mean s = Fin (sum_list xs / real (length xs)) \<and>
    st_std_dev s = Fin (if length xs > 1 then sqrt (sq_dev xs / real (length xs - 1)) else 0) \<and>
    st_min s = Fin (Min (set xs)) \<and> st_max s = Fin (Max (set xs))"
  using assms by (simp add: acc_flush_def flush_moments_samples flush_percentiles_samples)

theorem flush_statistics_witness:
  "\<exists>s. snd (acc_flush (acc_updates (map Fin [1, 2, 3]) (acc_reset (acc_init 2)))) = Inr s \<and>
    st_count s = 3 \<and> st_mean s = Fin 2 \<and> st_std_dev s = Fin 1 \<and> st_min s = Fin 1 \<and> st_max s = Fin 3"
  using flush_statistics [of "acc_init 2" "[1, 2, 3]"] by (simp add: sq_dev_def power2_eq_square)

text \<open>C8: With a positive percentile capacity, the reported p05, p50 and p95 are the index
  percentiles of exactly the newest samples (at most the capacity, the ring buffer having
  dropped the older ones); they are samples of that window and are ordered.\<close>

theorem flush_percentiles_newest:
  assumes "acc_wf a" and "0 < acc_cap a" and "xs \<noteq> []"
  shows "\<exists>s. snd (acc_flush (acc_updates (map Fin xs) (acc_reset a))) = Inr s \<and>
    (let ws = newest (nat (acc_cap a)) (map Fin xs) in
       st_p05 s = pct_of ws (5 / 100) \<and> st_p50 s = pct_of ws (50 / 100) \<and> st_p95 s = pct_of ws (95 / 100) \<and>
       {st_p05 s, st_p50 s, st_p95 s} \<subseteq> set ws \<and> st_p05 s \<le> st_p50 s \<and> st_p50 s \<le> st_p95 s)"
proof -
  let ?ws = "newest (nat (acc_cap a)) (map Fin xs)"
  have "length ?ws = min (length xs) (nat (acc_cap a))" by simp
  then have "length ?ws \<noteq> 0" using assms by simp
  then have "?ws \<noteq> []" by force
  then show ?thesis using assms
    by (simp add: acc_flush_def flush_moments_samples flush_percentiles_samples pct_of_in pct_of_mono)
qed

theorem flush_percentiles_newest_witness:
  "\<exists>s. snd (acc_flush (acc_updates (map Fin [9, 1, 3, 2]) (acc_reset (acc_init 3)))) = Inr s \<and>
    st_p50 s = Fin 2"
proof -
  have wf: "acc_wf (acc_init 3)" "0 < acc_cap (acc_init 3)" by (simp_all add: acc_init_def acc_wf_def)
  have "pct_of (newest 3 (map Fin [9, 1, 3, 2])) (50 / 100) = Fin 2"
    by (simp add: pct_of_def pct_idx_def newest_def)
  then show ?thesis
    using flush_percentiles_newest [OF wf, of "[9, 1, 3, 2]"] by (auto simp: Let_def acc_init_def)
qed

text \<open>A successful flush starts afresh: what the next flush reports depends on the samples
  written in between only, as if the accumulator had just been built with the same capacity;
  nothing of the samples left in the ring buffer leaks. Flushing at once reports all zeros.\<close>

theorem flush_starts_afresh:
  assumes "acc_wf a" and "snd (acc_flush a) = Inr s"
  shows "snd (acc_flush (acc_updates ys (fst (acc_flush a)))) = snd (acc_flush (acc_updates ys (acc_init (acc_cap a)))) \<and>
    snd (acc_flush (fst (acc_flush a))) = Inr Stats_default"
proof
  have r: "fst (acc_flush a) = acc_reset a"
    using assms(2) by (auto simp: acc_flush_def split: sum.splits)
  have i: "acc_reset (acc_init c) = acc_init c" "acc_cap (acc_init c) = c" for c
    by (simp_all add: acc_init_def acc_reset_def)
  show "snd (acc_flush (acc_updates ys (fst (acc_flush a)))) = snd (acc_flush (acc_updates ys (acc_init (acc_cap a))))"
    using flush_result_indep [OF assms(1) acc_wf_init [of "acc_cap a"], of ys] by (simp add: i r)
  show "snd (acc_flush (fst (acc_flush a))) = Inr Stats_default"
    unfolding r by (simp add: acc_flush_def flush_moments_def flush_percentiles_def Stats_default_def)
qed

theorem flush_starts_afresh_witness:
  "snd (acc_flush (acc_updates [Fin 4] (fst (acc_flush (acc_updates [Fin 9, Fin 8] (acc_init 2))))))
     = snd (acc_flush (acc_updates [Fin 4] (acc_init 2)))"
proof -
  have i: "acc_reset (acc_init 2) = acc_init 2" by (simp add: acc_init_def acc_reset_def)
  obtain s where s: "snd (acc_flush (acc_updates [Fin 9, Fin 8] (acc_init 2))) = Inr s"
    using flush_samples_ok [of "acc_init 2" "[9, 8]"] by (auto simp: i)
  have wf: "acc_wf (acc_updates [Fin 9, Fin 8] (acc_init 2))" by simp
  show ?thesis using flush_starts_afresh [OF wf s, of "[Fin 4]"] by (simp add: acc_init_def)
qed

end
