(* ===== verification/Rate_Limit.thy ===== *)
theory Rate_Limit
  imports Py_Prelude
begin

text \<open>
  The interface the rate-limited components share: the publisher's throttle, the InfluxDB
  flush, the ROS publish rate and the stdout interval. A component opens its gate by comparing
  a clock reading with the reading recorded at its last action. The locale states that law and
  proves, once, what it gives along any sequence of calls; every component that has it
  interprets the locale on its own model.
\<close>

locale rate_limiter =
  fixes gate :: "'s \<Rightarrow> pyfloat \<Rightarrow> bool"
    and fire :: "'s \<Rightarrow> pyfloat \<Rightarrow> 's"
    and last_fired :: "'s \<Rightarrow> pyfloat option"
    and interval :: "'s \<Rightarrow> pyfloat"
    and recordable :: "pyfloat \<Rightarrow> bool"
  assumes last_fire: "recordable t \<Longrightarrow> last_fired (fire s t) = Some t"
    and interval_fire: "interval (fire s t) = interval s"
    and gate_spaced: "last_fired s = Some l \<Longrightarrow> gate s now \<Longrightarrow> \<not> flt (fsub now l) (interval s)"
begin

text \<open>
  A call decides at one reading; when the gate is open and the action goes through (the
  boolean, \<open>False\<close> for a dropped send) it records a reading, the same one for most components.
  \<open>fired\<close> lists the decisions and records of the calls that acted.
\<close>

fun fired :: "'s \<Rightarrow> (pyfloat \<times> pyfloat \<times> bool) list \<Rightarrow> (pyfloat \<times> pyfloat) list" where
  "fired s [] = []"
| "fired s ((decide, record, done) # rs) =
     (if gate s decide \<and> done then (decide, record) # fired (fire s record) rs else fired s rs)"

definition spaced :: "pyfloat \<Rightarrow> pyfloat \<times> pyfloat \<Rightarrow> pyfloat \<times> pyfloat \<Rightarrow> bool" where
  "spaced d p q = (\<not> flt (fsub (fst q) (snd p)) d)"

lemma fired_spaced_from:
  "(\<And>r. r \<in> set rs \<Longrightarrow> recordable (fst (snd r))) \<Longrightarrow> last_fired s = Some (snd p) \<Longrightarrow>
   successively (spaced (interval s)) (p # fired s rs)"
proof (induction rs arbitrary: s p)
  case (Cons r rs)
  obtain d c b where r: "r = (d, c, b)" using prod_cases3 by blast
  show ?case
  proof (cases "gate s d \<and> b")
    case True
    have "spaced (interval s) p (d, c)"
      using gate_spaced [OF Cons.prems(2)] True by (simp add: spaced_def)
    moreover have "last_fired (fire s c) = Some c" using Cons.prems(1) [of r] by (simp add: r last_fire)
    then have "successively (spaced (interval (fire s c))) ((d, c) # fired (fire s c) rs)"
      using Cons.prems(1) by (intro Cons.IH) auto
    ultimately show ?thesis using True by (simp add: r interval_fire)
  next
    case False
    then have "fired s (r # rs) = fired s rs" by (auto simp: r)
    then show ?thesis using Cons by simp
  qed
qed simp

text \<open>Two actions in a row lie at least one interval apart.\<close>

lemma fired_spaced:
  "(\<And>r. r \<in> set rs \<Longrightarrow> recordable (fst (snd r))) \<Longrightarrow> successively (spaced (interval s)) (fired s rs)"
proof (induction rs arbitrary: s)
  case (Cons r rs)
  obtain d c b where r: "r = (d, c, b)" using prod_cases3 by blast
  show ?case
  proof (cases "gate s d \<and> b")
    case True
    have "last_fired (fire s c) = Some c" using Cons.prems [of r] by (simp add: r last_fire)
    then have "successively (spaced (interval (fire s c))) ((d, c) # fired (fire s c) rs)"
      using Cons.prems by (intro fired_spaced_from) auto
    with True show ?thesis by (simp add: r interval_fire)
  next
    case False
    then have "fired s (r # rs) = fired s rs" by (auto simp: r)
    then show ?thesis using Cons by simp
  qed
qed simp

end

end
