(* ===== verification/Publisher.thy ===== *)
theory Publisher
  imports Stats Rate_Limit
begin

text \<open>
  \<^verbatim>\<open>publisher.py\<close>: the ZMQ PUSH publisher. Everything outside the program is an \<open>env\<close>: the
  readings of the two clocks and the outcome of each send, in order; \<open>world\<close> holds how many of
  each have been consumed and the payloads that went out. A payload is the JSON value itself,
  since a JSON text decodes to the value it was written from. The lemmas show when a publish
  is attempted, what a sent payload contains, which state changes on which path, and the
  throttle.
\<close>

datatype send_outcome = Sent | Again | SendError string

record env =
  env_mono :: clock
  env_time :: clock
  env_send :: "nat \<Rightarrow> send_outcome"

record world =
  w_mono :: nat
  w_time :: nat
  w_tries :: nat
  w_sent :: "pyval list"

definition read_mono :: "env \<Rightarrow> world \<Rightarrow> pyfloat \<times> world" where
  "read_mono env w = (env_mono env (w_mono w), w\<lparr>w_mono := w_mono w + 1\<rparr>)"

definition read_time :: "env \<Rightarrow> world \<Rightarrow> pyfloat \<times> world" where
  "read_time env w = (env_time env (w_time w), w\<lparr>w_time := w_time w + 1\<rparr>)"

record DiagPublisher =
  dp_endpoint :: string
  dp_owns_ctx :: bool
  dp_send_hwm :: "int option"
  dp_immediate :: bool
  dp_open :: bool
  dp_ctx_open :: bool
  dp_node :: string
  dp_hw_id :: string
  dp_throttle :: pyfloat
  dp_last_publish :: "pyfloat option"

text \<open>
  \<open>__init__\<close>: \<open>environ\<close> is the process environment, \<open>connect\<close> the check ZMQ makes of an endpoint.
\<close>

definition DiagPublisher_init ::
  "(string \<Rightarrow> string option) \<Rightarrow> (string \<Rightarrow> unit result) \<Rightarrow> string \<Rightarrow> string \<Rightarrow> string \<Rightarrow> bool \<Rightarrow>
   pyfloat \<Rightarrow> int option \<Rightarrow> bool \<Rightarrow> DiagPublisher result" where
  "DiagPublisher_init environ connect node_name hw_id endpoint own_ctx throttle send_hwm immediate =
     (let ep = (if endpoint = [] then
                  (case environ ''XBOT_DIAG_ENDPOINT'' of None \<Rightarrow> ''tcp://localhost:9268'' | Some e \<Rightarrow> e)
                else endpoint)
      in bindE (require (case send_hwm of None \<Rightarrow> True | Some h \<Rightarrow> h > 0) (ValueError ''send_hwm must be > 0'')) (\<lambda>_.
         bindE (connect ep) (\<lambda>_.
           Inr \<lparr>dp_endpoint = ep, dp_owns_ctx = own_ctx, dp_send_hwm = send_hwm, dp_immediate = immediate,
             dp_open = True, dp_ctx_open = True, dp_node = node_name, dp_hw_id = hw_id,
             dp_throttle = throttle, dp_last_publish = None\<rparr>)))"

definition throttle_open :: "DiagPublisher \<Rightarrow> pyfloat \<Rightarrow> bool" where
  "throttle_open p now =
     (\<not> (fgt (dp_throttle p) f0 \<and>
         (case dp_last_publish p of None \<Rightarrow> False | Some l \<Rightarrow> flt (fsub now l) (dp_throttle p))))"

definition should_publish :: "env \<Rightarrow> DiagPublisher \<Rightarrow> world \<Rightarrow> bool \<times> world" where
  "should_publish env p w = (let (now, w1) = read_mono env w in (throttle_open p now, w1))"

text \<open>\<open>json.dumps(payload, allow_nan=False)\<close> raises ValueError on a float that is not finite.\<close>

fun json_ok :: "pyval \<Rightarrow> bool" where
  "json_ok (PNum (NFlt f)) = isfinite f"
| "json_ok (PList vs) = list_all json_ok vs"
| "json_ok (PDict kvs) = list_all (\<lambda>kv. json_ok (snd kv)) kvs"
| "json_ok _ = True"

definition payload_of :: "DiagPublisher \<Rightarrow> pyfloat \<Rightarrow> int \<Rightarrow> string \<Rightarrow> (string, pyval) dict \<Rightarrow> pyval" where
  "payload_of p stamp level msg values = PDict
     [(''v'', PInt 1), (''node'', PStr (dp_node p)), (''hw_id'', PStr (dp_hw_id p)),
      (''stamp'', PFloat stamp), (''level'', PInt level), (''msg'', PStr msg),
      (''values'', PList (map (\<lambda>(k, v). PList [PStr k, v]) values))]"

definition send :: "env \<Rightarrow> DiagPublisher \<Rightarrow> int \<Rightarrow> string \<Rightarrow> (string, pyval) dict option \<Rightarrow> world \<Rightarrow> world \<times> bool result" where
  "send env p level msg values w =
     (let (stamp, w1) = read_time env w;
          payload = payload_of p stamp level msg (case values of None \<Rightarrow> [] | Some d \<Rightarrow> d);
          w2 = w1\<lparr>w_tries := w_tries w1 + 1\<rparr>
      in if \<not> json_ok payload then (w1, Inl (ValueError ''Out of range float values are not JSON compliant''))
         else if \<not> dp_open p then (w1, Inl (ZmqError ''Socket operation on non-socket''))
         else (case env_send env (w_tries w1) of
                 Sent \<Rightarrow> (w2\<lparr>w_sent := w_sent w2 @ [payload]\<rparr>, Inr True)
               | Again \<Rightarrow> (w2, Inr False)
               | SendError e \<Rightarrow> (w2, Inl (ZmqError e))))"

definition note_sent :: "env \<Rightarrow> DiagPublisher \<Rightarrow> world \<Rightarrow> bool \<Rightarrow> DiagPublisher \<times> world" where
  "note_sent env p w sent =
     (if sent then (let (t, w1) = read_mono env w in (p\<lparr>dp_last_publish := Some t\<rparr>, w1)) else (p, w))"

definition publish ::
  "env \<Rightarrow> DiagPublisher \<Rightarrow> int \<Rightarrow> string \<Rightarrow> (string, pyval) dict option \<Rightarrow> world \<Rightarrow> DiagPublisher \<times> world \<times> bool result" where
  "publish env p level msg values w =
     (let (go, w1) = should_publish env p w in
      if \<not> go then (p, w1, Inr False)
      else (case send env p level msg values w1 of
              (w2, Inl e) \<Rightarrow> (p, w2, Inl e)
            | (w2, Inr sent) \<Rightarrow> (let (p', w3) = note_sent env p w2 sent in (p', w3, Inr sent))))"

definition stats_msg :: "Stats \<Rightarrow> string" where
  "stats_msg st = ''{mean: '' @ fmt_fixed 3 (st_mean st) @ '', std: '' @ fmt_fixed 3 (st_std_dev st) @
     '', min: '' @ fmt_fixed 3 (st_min st) @ '', max: '' @ fmt_fixed 3 (st_max st) @
     '', count:'' @ show_int (st_count st) @ ''}''"

definition stats_values :: "string \<Rightarrow> Stats \<Rightarrow> (string, pyval) dict" where
  "stats_values metric st =
     [(metric @ ''.mean'', PFloat (st_mean st)), (metric @ ''.std'', PFloat (st_std_dev st)),
      (metric @ ''.min'', PFloat (st_min st)), (metric @ ''.max'', PFloat (st_max st)),
      (metric @ ''.p05'', PFloat (st_p05 st)), (metric @ ''.p50'', PFloat (st_p50 st)),
      (metric @ ''.p95'', PFloat (st_p95 st)), (metric @ ''.count'', PFloat (Fin (real_of_int (st_count st))))]"

definition publish_stats ::
  "env \<Rightarrow> DiagPublisher \<Rightarrow> string \<Rightarrow> StatAccumulator \<Rightarrow> int \<Rightarrow> string option \<Rightarrow> world \<Rightarrow>
   DiagPublisher \<times> StatAccumulator \<times> world \<times> bool result" where
  "publish_stats env p metric acc level msg w =
     (let (go, w1) = should_publish env p w in
      if \<not> go then (p, acc, w1, Inr False)
      else (case acc_flush acc of
              (acc', Inl e) \<Rightarrow> (p, acc', w1, Inl e)
            | (acc', Inr st) \<Rightarrow>
                (case send env p level (case msg of None \<Rightarrow> stats_msg st | Some m \<Rightarrow> m)
                        (Some (stats_values metric st)) w1 of
                   (w2, Inl e) \<Rightarrow> (p, acc', w2, Inl e)
                 | (w2, Inr sent) \<Rightarrow> (let (p', w3) = note_sent env p w2 sent in (p', acc', w3, Inr sent)))))"

definition publisher_close :: "DiagPublisher \<Rightarrow> DiagPublisher" where
  "publisher_close p = (let p1 = p\<lparr>dp_open := False\<rparr> in
     if dp_owns_ctx p1 then p1\<lparr>dp_ctx_open := False\<rparr> else p1)"

subsection \<open>The throttle as a rate limiter\<close>

definition throttle_record :: "DiagPublisher \<Rightarrow> pyfloat \<Rightarrow> DiagPublisher" where
  "throttle_record p t = p\<lparr>dp_last_publish := Some t\<rparr>"

text \<open>A throttle of 0 or less never holds a sample back; the interval is 0 then.\<close>

definition throttle_interval :: "DiagPublisher \<Rightarrow> pyfloat" where
  "throttle_interval p = (if fgt (dp_throttle p) f0 then dp_throttle p else NInf)"

interpretation throttle: rate_limiter throttle_open throttle_record dp_last_publish throttle_interval "\<lambda>_. True"
proof
  show "dp_last_publish (throttle_record p t) = Some t" for p t by (simp add: throttle_record_def)
  show "throttle_interval (throttle_record p t) = throttle_interval p" for p t
    by (simp add: throttle_interval_def throttle_record_def)
  show "\<not> flt (fsub now l) (throttle_interval p)"
    if "dp_last_publish p = Some l" "throttle_open p now" for p l now
    using that by (cases "fsub now l") (auto simp: throttle_open_def throttle_interval_def)
qed

subsection \<open>What one publish does\<close>

lemma read_mono_simps [simp]:
  "fst (read_mono env w) = env_mono env (w_mono w)" "snd (read_mono env w) = w\<lparr>w_mono := w_mono w + 1\<rparr>"
  by (simp_all add: read_mono_def)

abbreviation next_payload ::
  "env \<Rightarrow> DiagPublisher \<Rightarrow> int \<Rightarrow> string \<Rightarrow> (string, pyval) dict option \<Rightarrow> world \<Rightarrow> pyval" where
  "next_payload env p level msg values w \<equiv>
     payload_of p (env_time env (w_time w)) level msg (case values of None \<Rightarrow> [] | Some d \<Rightarrow> d)"

lemma send_results:
  "snd (send env p level msg values w) = Inr True \<Longrightarrow>
     json_ok (next_payload env p level msg values w) \<and> dp_open p \<and>
     w_sent (fst (send env p level msg values w)) = w_sent w @ [next_payload env p level msg values w]"
  "snd (send env p level msg values w) = Inr False \<Longrightarrow> json_ok (next_payload env p level msg values w) \<and> dp_open p"
  "snd (send env p level msg values w) \<noteq> Inr True \<Longrightarrow> w_sent (fst (send env p level msg values w)) = w_sent w"
  "(\<exists>m. snd (send env p level msg values w) = Inl (ValueError m)) \<longleftrightarrow> \<not> json_ok (next_payload env p level msg values w)"
  by (auto simp: send_def read_time_def Let_def split: if_splits send_outcome.splits)

lemma send_frame: "w_mono (fst (send env p level msg values w)) = w_mono w"
  by (auto simp: send_def read_time_def Let_def split: send_outcome.splits)

lemma publish_eq:
  "publish env p level msg values w =
    (let w1 = w\<lparr>w_mono := w_mono w + 1\<rparr>; s = send env p level msg values w1 in
     if \<not> throttle_open p (env_mono env (w_mono w)) then (p, w1, Inr False)
     else (case snd s of
             Inl e \<Rightarrow> (p, fst s, Inl e)
           | Inr False \<Rightarrow> (p, fst s, Inr False)
           | Inr True \<Rightarrow> (throttle_record p (env_mono env (w_mono w + 1)),
                          (fst s)\<lparr>w_mono := w_mono w + 2\<rparr>, Inr True)))"
  using send_frame [of env p level msg "values" "w\<lparr>w_mono := w_mono w + 1\<rparr>"]
  by (auto simp: publish_def should_publish_def read_mono_def note_sent_def throttle_record_def Let_def
      split: prod.splits sum.splits bool.splits)

lemma publish_eqs:
  "\<not> throttle_open p (env_mono env (w_mono w)) \<Longrightarrow>
     publish env p level msg values w = (p, w\<lparr>w_mono := w_mono w + 1\<rparr>, Inr False)"
  "throttle_open p (env_mono env (w_mono w)) \<Longrightarrow>
     snd (send env p level msg values (w\<lparr>w_mono := w_mono w + 1\<rparr>)) = Inr True \<Longrightarrow>
     publish env p level msg values w =
       (throttle_record p (env_mono env (w_mono w + 1)),
        (fst (send env p level msg values (w\<lparr>w_mono := w_mono w + 1\<rparr>)))\<lparr>w_mono := w_mono w + 2\<rparr>, Inr True)"
  "throttle_open p (env_mono env (w_mono w)) \<Longrightarrow>
     snd (send env p level msg values (w\<lparr>w_mono := w_mono w + 1\<rparr>)) = r \<Longrightarrow> r \<noteq> Inr True \<Longrightarrow>
     publish env p level msg values w = (p, fst (send env p level msg values (w\<lparr>w_mono := w_mono w + 1\<rparr>)), r)"
  by (auto simp: publish_eq Let_def split: sum.splits bool.splits)

subsection \<open>A sequence of publishes\<close>

text \<open>
  The calls a caller makes one after the other, an exception being the caller's business; the
  list of (decision reading, recorded reading) of the publishes that returned True.
\<close>

type_synonym publish_call = "int \<times> string \<times> (string, pyval) dict option"

fun publish_run :: "env \<Rightarrow> DiagPublisher \<Rightarrow> publish_call list \<Rightarrow> world \<Rightarrow> DiagPublisher \<times> world \<times> (pyfloat \<times> pyfloat) list" where
  "publish_run env p [] w = (p, w, [])"
| "publish_run env p ((level, msg, values) # calls) w =
     (case publish env p level msg values w of
        (p', w', r) \<Rightarrow>
          (case publish_run env p' calls w' of
             (p'', w'', ts) \<Rightarrow>
               (p'', w'', (if r = Inr True then (env_mono env (w_mono w), env_mono env (w_mono w + 1)) # ts else ts))))"

lemma publish_run_fired:
  "\<exists>rs. snd (snd (publish_run env p calls w)) = throttle.fired p rs"
proof (induction calls arbitrary: p w)
  case Nil
  have "snd (snd (publish_run env p [] w)) = throttle.fired p []" by simp
  then show ?case ..
next
  case (Cons c calls)
  obtain level msg vs where c: "c = (level, msg, vs)" using prod_cases3 by blast
  obtain p' w' r where pu: "publish env p level msg vs w = (p', w', r)" using prod_cases3 by blast
  obtain rs where rs: "snd (snd (publish_run env p' calls w')) = throttle.fired p' rs"
    using Cons.IH by blast
  let ?d = "env_mono env (w_mono w)" and ?t = "env_mono env (w_mono w + 1)"
  have "(r = Inr True \<and> throttle_open p ?d \<and> p' = throttle_record p ?t) \<or> (r \<noteq> Inr True \<and> p' = p)"
    using pu by (auto simp: publish_eq Let_def split: if_splits sum.splits bool.splits)
  then have "snd (snd (publish_run env p (c # calls) w)) = throttle.fired p ((?d, ?t, r = Inr True) # rs)"
    using rs by (auto simp: c pu split: prod.splits)
  then show ?case ..
qed

text \<open>Each publish that returned True put one payload on the wire, the others none.\<close>

lemma next_payload_ok:
  "json_ok (next_payload env p level msg values w) \<longleftrightarrow>
     isfinite (env_time env (w_time w)) \<and> list_all (\<lambda>kv. json_ok (snd kv)) (case values of None \<Rightarrow> [] | Some d \<Rightarrow> d)"
  by (auto simp: payload_of_def list_all_iff split: prod.splits)

lemma publish_sent:
  "w_sent (fst (snd (publish env p level msg values w))) =
     w_sent w @ (if snd (snd (publish env p level msg values w)) = Inr True then [next_payload env p level msg values w] else [])"
proof (cases "throttle_open p (env_mono env (w_mono w))")
  case True
  let ?w1 = "w\<lparr>w_mono := w_mono w + 1\<rparr>"
  show ?thesis
    using send_results(1,3) [of env p level msg "values" ?w1] True
    by (cases "snd (send env p level msg values ?w1) = Inr True") (simp_all add: publish_eqs)
qed (simp add: publish_eqs)

lemma publish_run_sent:
  "case publish_run env p calls w of (p', w', ts) \<Rightarrow> length (w_sent w') = length (w_sent w) + length ts"
proof (induction env p calls w rule: publish_run.induct)
  case (2 env p level msg vs calls w)
  obtain p' w' r where pu: "publish env p level msg vs w = (p', w', r)" using prod_cases3 by blast
  have "length (w_sent w') = length (w_sent w) + (if r = Inr True then 1 else 0)"
    using publish_sent [of env p level msg vs w] by (simp add: pu split: if_splits)
  then show ?case using 2 [OF pu [symmetric] refl] by (auto simp: pu split: prod.splits)
qed simp

text \<open>
  The greedy schedule of \<open>n\<close> calls under a throttle of \<open>d\<close> seconds: a call goes out unless the
  clock is less than \<open>d\<close> past the last reading recorded. The clock is read once to decide and once
  more by a call that goes out.
\<close>

fun greedy_schedule :: "real \<Rightarrow> clock \<Rightarrow> nat \<Rightarrow> pyfloat option \<Rightarrow> nat \<Rightarrow> (pyfloat \<times> pyfloat) list" where
  "greedy_schedule d clock i prev 0 = []"
| "greedy_schedule d clock i prev (Suc n) =
     (if (case prev of None \<Rightarrow> False | Some l \<Rightarrow> flt (fsub (clock i) l) (Fin d)) then greedy_schedule d clock (i + 1) prev n
      else (clock i, clock (i + 1)) # greedy_schedule d clock (i + 2) (Some (clock (i + 1))) n)"

definition encodable :: "publish_call \<Rightarrow> bool" where
  "encodable c = list_all (\<lambda>kv. json_ok (snd kv)) (case snd (snd c) of None \<Rightarrow> [] | Some d \<Rightarrow> d)"

lemma send_succeeds:
  assumes "dp_open p" "env_send env (w_tries w) = Sent" "json_ok (next_payload env p level msg values w)"
  shows "snd (send env p level msg values w) = Inr True"
  using assms by (simp add: send_def read_time_def)

lemma publish_run_greedy:
  assumes "dp_throttle p = Fin d" and "0 < d" and "dp_open p"
    and "\<forall>k. env_send env k = Sent \<and> isfinite (env_time env k)" and "list_all encodable calls"
  shows "snd (snd (publish_run env p calls w)) = greedy_schedule d (env_mono env) (w_mono w) (dp_last_publish p) (length calls)"
  using assms(1,3,5)
proof (induction calls arbitrary: p w)
  case (Cons c calls)
  obtain level msg vs where c: "c = (level, msg, vs)" using prod_cases3 by blast
  let ?w1 = "w\<lparr>w_mono := w_mono w + 1\<rparr>"
  have gate: "throttle_open p now \<longleftrightarrow> \<not> (case dp_last_publish p of None \<Rightarrow> False | Some l \<Rightarrow> flt (fsub now l) (Fin d))" for now
    using Cons.prems(1) \<open>0 < d\<close> by (auto simp: throttle_open_def split: option.splits)
  show ?case
  proof (cases "throttle_open p (env_mono env (w_mono w))")
    case True
    have "json_ok (next_payload env p level msg vs ?w1)"
      using Cons.prems(3) assms(4) unfolding next_payload_ok by (simp add: c encodable_def)
    then have s: "snd (send env p level msg vs ?w1) = Inr True"
      using Cons.prems(2) assms(4) by (intro send_succeeds) simp_all
    show ?thesis
      using True Cons.prems Cons.IH [of "throttle_record p (env_mono env (w_mono w + 1))"]
      by (simp add: c publish_eqs(2) [OF True s] gate throttle_record_def split_beta)
  next
    case False
    then show ?thesis
      using Cons.prems Cons.IH [of p ?w1] by (auto simp: c publish_eqs(1) gate split: prod.splits)
  qed
qed simp

subsection \<open>Properties\<close>

text \<open>What one publish does. It returns True exactly when the throttle is open and the payload
  went out; then that payload is the one message appended to the wire and the monotonic clock
  is recorded. In every other case (throttled, dropped, rejected by the JSON encoder, ZMQ
  error) nothing is sent and the publisher is unchanged, so the sample can be retried.\<close>

theorem publish_effect:
  "case publish env p level msg values w of (p', w', r) \<Rightarrow>
     let now = env_mono env (w_mono w); pl = next_payload env p level msg values w in
     if r = Inr True then
       throttle_open p now \<and> dp_open p \<and> json_ok pl \<and> w_sent w' = w_sent w @ [pl] \<and>
       p' = p\<lparr>dp_last_publish := Some (env_mono env (w_mono w + 1))\<rparr>
     else p' = p \<and> w_sent w' = w_sent w"
proof -
  let ?w1 = "w\<lparr>w_mono := w_mono w + 1\<rparr>"
  note res = send_results [of env p level msg "values" ?w1]
  show ?thesis
  proof (cases "throttle_open p (env_mono env (w_mono w))")
    case True
    then show ?thesis
      using res(1) res(3) by (cases "snd (send env p level msg values ?w1) = Inr True")
        (auto simp: publish_eqs throttle_record_def Let_def split: prod.splits)
  next
    case False
    then show ?thesis by (simp add: publish_eqs Let_def)
  qed
qed

text \<open>C6: The throttle holds over any sequence of publishes, whatever is dropped or fails in
  between: for two consecutive successful publishes, the reading at which the second one is
  decided is at least the throttle interval after the reading recorded by the first, and each
  success puts one payload on the wire. It holds back nothing else: on an open publisher whose
  payloads can be encoded and whose sends succeed, the successful publishes are exactly those of
  the greedy schedule, where each call goes out as soon as the interval has passed.\<close>

theorem publish_throttled:
  assumes "dp_throttle p = Fin d" and "0 < d"
  shows "case publish_run env p calls w of (p', w', ts) \<Rightarrow>
     successively (\<lambda>s t. \<not> flt (fsub (fst t) (snd s)) (Fin d)) ts \<and>
     length (w_sent w') = length (w_sent w) + length ts \<and>
     (if dp_open p \<and> (\<forall>k. env_send env k = Sent \<and> isfinite (env_time env k)) \<and> list_all encodable calls
      then ts = greedy_schedule d (env_mono env) (w_mono w) (dp_last_publish p) (length calls) else True)"
proof -
  obtain rs where rs: "snd (snd (publish_run env p calls w)) = throttle.fired p rs"
    using publish_run_fired by blast
  have "throttle_interval p = Fin d" using assms by (simp add: throttle_interval_def)
  then have "successively (\<lambda>s t. \<not> flt (fsub (fst t) (snd s)) (Fin d)) (snd (snd (publish_run env p calls w)))"
    using throttle.fired_spaced [of rs p] unfolding rs by (simp add: throttle.spaced_def)
  then show ?thesis
    using publish_run_sent [where env = env and p = p and calls = calls and w = w] publish_run_greedy [where env = env and calls = calls and w = w, OF assms]
    by (auto split: prod.splits)
qed

definition demo_env :: env where
  "demo_env = \<lparr>env_mono = (\<lambda>n. Fin (real n)), env_time = (\<lambda>n. Fin 100), env_send = (\<lambda>n. Sent)\<rparr>"

definition demo_world :: world where
  "demo_world = \<lparr>w_mono = 0, w_time = 0, w_tries = 0, w_sent = []\<rparr>"

definition demo_publisher :: DiagPublisher where
  "demo_publisher = \<lparr>dp_endpoint = ''tcp://localhost:9268'', dp_owns_ctx = True, dp_send_hwm = None,
     dp_immediate = False, dp_open = True, dp_ctx_open = True, dp_node = ''n'', dp_hw_id = ''hw'',
     dp_throttle = Fin 2, dp_last_publish = None\<rparr>"

text \<open>Three publishes at readings 0, 2 and 3: the second is throttled, the third goes out.\<close>

theorem publish_throttled_witness:
  "case publish_run demo_env demo_publisher [(0, ''a'', None), (0, ''b'', None), (0, ''c'', None)] demo_world of (p', w', ts) \<Rightarrow>
     successively (\<lambda>s t. \<not> flt (fsub (fst t) (snd s)) (Fin 2)) ts \<and> length (w_sent w') = 2 \<and>
     ts = [(Fin 0, Fin 1), (Fin 3, Fin 4)]"
proof -
  let ?calls = "[(0, ''a'', None), (0, ''b'', None), (0, ''c'', None)]"
  have "greedy_schedule 2 (env_mono demo_env) (w_mono demo_world) (dp_last_publish demo_publisher) (length ?calls)
      = [(Fin 0, Fin 1), (Fin 3, Fin 4)]"
    by (simp add: demo_env_def demo_world_def demo_publisher_def)
  then show ?thesis
    using publish_throttled [where p = demo_publisher and d = 2 and env = demo_env and calls = ?calls and w = demo_world]
    by (auto simp: demo_publisher_def demo_env_def demo_world_def encodable_def split: prod.splits)
qed

text \<open>C28: Non-finite values never reach the wire. A publish raises ValueError exactly when the
  throttle is open and the time stamp or a value of the payload contains NaN or an infinity, and
  then neither the wire nor the publisher has changed; in every other case the wire is as before
  or longer by the one payload, all of whose numbers are finite.\<close>

theorem publish_rejects_non_finite:
  "case publish env p level msg values w of (p', w', r) \<Rightarrow>
     if throttle_open p (env_mono env (w_mono w)) \<and>
        \<not> (isfinite (env_time env (w_time w)) \<and>
           list_all (\<lambda>kv. json_ok (snd kv)) (case values of None \<Rightarrow> [] | Some d \<Rightarrow> d))
     then (\<exists>m. r = Inl (ValueError m)) \<and> p' = p \<and> w_sent w' = w_sent w
     else \<not> (\<exists>m. r = Inl (ValueError m)) \<and>
       (w_sent w' = w_sent w \<or>
        json_ok (next_payload env p level msg values w) \<and> w_sent w' = w_sent w @ [next_payload env p level msg values w])"
proof -
  let ?w1 = "w\<lparr>w_mono := w_mono w + 1\<rparr>" and ?s = "send env p level msg values (w\<lparr>w_mono := w_mono w + 1\<rparr>)"
  note res = send_results [of env p level msg "values" ?w1]
  show ?thesis
  proof (cases "throttle_open p (env_mono env (w_mono w))")
    case open_gate: True
    show ?thesis
    proof (cases "snd ?s = Inr True")
      case True
      then show ?thesis using res(1) publish_eqs(2) [OF open_gate True] by (simp add: next_payload_ok)
    next
      case False
      then show ?thesis
        using res(3) [OF False] res(4) publish_eqs(3) [OF open_gate refl False]
        by (cases "\<exists>m. snd ?s = Inl (ValueError m)") (simp_all add: next_payload_ok open_gate split_beta)
    qed
  next
    case False
    then show ?thesis by (simp add: publish_eqs)
  qed
qed

text \<open>Publishing statistics leaves a throttled accumulator alone (its samples go into the next
  report) and otherwise flushes it, whether the message then goes out, is dropped or fails; a
  message that goes out carries the flushed statistics under the metric's eight names.\<close>

theorem publish_stats_flushes:
  "case publish_stats env p metric acc level msg w of (p', acc', w', r) \<Rightarrow>
     let now = env_mono env (w_mono w) in
     acc' = (if throttle_open p now then fst (acc_flush acc) else acc) \<and>
     (r = Inr True \<longrightarrow> (\<exists>st text. snd (acc_flush acc) = Inr st \<and>
        w_sent w' = w_sent w @ [payload_of p (env_time env (w_time w)) level text (stats_values metric st)])) \<and>
     (r \<noteq> Inr True \<longrightarrow> w_sent w' = w_sent w \<and> p' = p)"
proof (cases "throttle_open p (env_mono env (w_mono w))")
  case False
  then show ?thesis by (simp add: publish_stats_def should_publish_def read_mono_def)
next
  case gate: True
  let ?w1 = "w\<lparr>w_mono := w_mono w + 1\<rparr>"
  obtain acc' r where f: "acc_flush acc = (acc', r)" by fastforce
  show ?thesis
  proof (cases r)
    case (Inl e)
    with gate f show ?thesis by (simp add: publish_stats_def should_publish_def read_mono_def)
  next
    case (Inr st)
    let ?m = "case msg of None \<Rightarrow> stats_msg st | Some m \<Rightarrow> m"
    note res = send_results [of env p level ?m "Some (stats_values metric st)" ?w1]
    obtain w2 r2 where s: "send env p level ?m (Some (stats_values metric st)) ?w1 = (w2, r2)" by fastforce
    then have s': "send env p level ?m (Some (stats_values metric st)) (w\<lparr>w_mono := Suc (w_mono w)\<rparr>) = (w2, r2)"
      by simp
    show ?thesis using res(1,3) gate f Inr s'
      by (cases r2) (auto simp: publish_stats_def should_publish_def read_mono_def note_sent_def Let_def split: prod.splits)
  qed
qed

theorem publish_stats_flushes_witness:
  "case publish_stats demo_env demo_publisher ''loop'' (acc_init 0) 0 None demo_world of (p', acc', w', r) \<Rightarrow>
     r = Inr True \<and> acc' = acc_reset (acc_init 0) \<and>
     (\<exists>st text. snd (acc_flush (acc_init 0)) = Inr st \<and>
        w_sent w' = [payload_of demo_publisher (Fin 100) 0 text (stats_values ''loop'' st)])"
proof -
  have f: "acc_flush (acc_init 0) = (acc_reset (acc_init 0), Inr Stats_default)"
    by (simp add: acc_flush_def flush_moments_def flush_percentiles_def acc_init_def Stats_default_def)
  have j: "json_ok (payload_of demo_publisher (Fin 100) 0 m (stats_values ''loop'' Stats_default))" for m
    by (simp add: payload_of_def stats_values_def Stats_default_def)
  obtain p' acc' w' r where ps: "publish_stats demo_env demo_publisher ''loop'' (acc_init 0) 0 None demo_world = (p', acc', w', r)"
    using prod_cases4 by blast
  moreover have "r = Inr True"
    using ps j by (auto simp: publish_stats_def should_publish_def read_mono_def throttle_open_def f send_def read_time_def
        note_sent_def demo_env_def demo_world_def Let_def demo_publisher_def split: if_splits)
  ultimately show ?thesis
    using publish_stats_flushes [where env = demo_env and p = demo_publisher and metric = "''loop''"
        and acc = "acc_init 0" and level = 0 and msg = None and w = demo_world]
    by (simp add: f throttle_open_def demo_publisher_def demo_env_def demo_world_def Let_def)
qed

end
