(* ===== verification/Message.thy ===== *)
theory Message
  imports Py_Text
begin

text \<open>
  The normalised message of \<^verbatim>\<open>aggregator.py\<close> and the validation of raw payloads. The check
  \<open>jsonschema.validate\<close> makes is a parameter \<open>validate\<close> of the operations (it is a package the
  program calls); \<open>message_schema\<close> is the meaning, by the JSON Schema 2020-12 vocabulary, of the
  schema file the program ships, and a theorem that needs the link takes the hypothesis that
  the package implements it. JSON numbers arrive as Python ints or floats, so a level may be
  the float 1.0: JSON Schema counts it as an integer.
\<close>

record DiagnosticKeyValue =
  kv_key :: string
  kv_value :: pyval

record DiagnosticsMessage =
  m_v :: int
  m_node :: string
  m_hw_id :: string
  m_stamp :: pyfloat
  m_level :: pynum
  m_msg :: string
  m_values :: "DiagnosticKeyValue list"

subsection \<open>The schema\<close>

definition is_string :: "pyval \<Rightarrow> bool" where
  "is_string v = (case v of PStr _ \<Rightarrow> True | _ \<Rightarrow> False)"

definition is_nonempty_string :: "pyval \<Rightarrow> bool" where
  "is_nonempty_string v = (case v of PStr s \<Rightarrow> s \<noteq> [] | _ \<Rightarrow> False)"

definition is_number :: "pyval \<Rightarrow> bool" where
  "is_number v = (case v of PNum _ \<Rightarrow> True | _ \<Rightarrow> False)"

definition is_level :: "pyval \<Rightarrow> bool" where
  "is_level v = (case v of PNum n \<Rightarrow> list_ex (\<lambda>k. num_eq n (NInt k)) [0, 1, 2, 3] | _ \<Rightarrow> False)"

definition is_entry :: "pyval \<Rightarrow> bool" where
  "is_entry v = (case v of
      PDict d \<Rightarrow> (case dict_get d ''key'' of Some k \<Rightarrow> is_nonempty_string k | None \<Rightarrow> False) \<and>
                 dict_get d ''value'' \<noteq> None
    | PList [k, _] \<Rightarrow> is_nonempty_string k
    | _ \<Rightarrow> False)"

definition is_entries :: "pyval \<Rightarrow> bool" where
  "is_entries v = (case v of PList vs \<Rightarrow> list_all is_entry vs | _ \<Rightarrow> False)"

definition has :: "(string, pyval) dict \<Rightarrow> string \<Rightarrow> (pyval \<Rightarrow> bool) \<Rightarrow> bool" where
  "has d k P = (case dict_get d k of None \<Rightarrow> False | Some v \<Rightarrow> P v)"

definition message_schema :: "pyval \<Rightarrow> bool" where
  "message_schema raw = (case raw of
      PDict d \<Rightarrow>
        has d ''v'' (\<lambda>v. case v of PNum n \<Rightarrow> num_eq n (NInt 1) | _ \<Rightarrow> False) \<and>
        has d ''node'' is_nonempty_string \<and> has d ''hw_id'' is_string \<and>
        has d ''stamp'' is_number \<and> has d ''level'' is_level \<and>
        has d ''msg'' is_string \<and> has d ''values'' is_entries
    | _ \<Rightarrow> False)"

subsection \<open>Validation and normalisation\<close>

text \<open>\<open>raw[k]\<close> and iteration over a value.\<close>

definition subscript :: "pyval \<Rightarrow> string \<Rightarrow> pyval result" where
  "subscript raw k = (case raw of
      PDict d \<Rightarrow> (case dict_get d k of Some v \<Rightarrow> Inr v | None \<Rightarrow> Inl (KeyError k))
    | _ \<Rightarrow> Inl (TypeError ''not subscriptable by a string''))"

definition iterate :: "pyval \<Rightarrow> pyval list result" where
  "iterate v = (case v of
      PList vs \<Rightarrow> Inr vs
    | PDict d \<Rightarrow> Inr (map (\<lambda>k. PStr k) (keys d))
    | PStr s \<Rightarrow> Inr (map (\<lambda>c. PStr [c]) s)
    | _ \<Rightarrow> Inl (TypeError ''not iterable''))"

definition normalize_entry :: "pyval \<Rightarrow> DiagnosticKeyValue result" where
  "normalize_entry entry =
     bindE (case entry of
         PDict d \<Rightarrow>
           (case (dict_get d ''key'', dict_get d ''value'') of
              (Some k, Some v) \<Rightarrow> Inr (k, v)
            | _ \<Rightarrow> Inl (ValueError (''Each value object must have 'key' and 'value'' @ [CHR 0x27])))
       | PList [k, v] \<Rightarrow> Inr (k, v)
       | _ \<Rightarrow> Inl (ValueError ''Each values entry must be {'key','value'}''))
     (\<lambda>(k, v). case k of
         PStr s \<Rightarrow> if s = [] then Inl (ValueError ''Value 'key' must be a non-empty string'')
                   else Inr \<lparr>kv_key = s, kv_value = v\<rparr>
       | _ \<Rightarrow> Inl (ValueError ''Value 'key' must be a non-empty string''))"

text \<open>
  The fields of a message are typed here and not in Python: a field of another type, which
  the schema excludes, is an error of the model.
\<close>

definition as_str :: "pyval \<Rightarrow> string result" where
  "as_str v = (case v of PStr s \<Rightarrow> Inr s | _ \<Rightarrow> Inl (TypeError ''string expected''))"

definition as_num :: "pyval \<Rightarrow> pynum result" where
  "as_num v = (case v of PNum n \<Rightarrow> Inr n | _ \<Rightarrow> Inl (TypeError ''number expected''))"

definition validate_and_normalize_message :: "(pyval \<Rightarrow> bool) \<Rightarrow> pyval \<Rightarrow> DiagnosticsMessage result" where
  "validate_and_normalize_message validate raw =
     bindE (require (validate raw) (ValueError ''Schema validation failed'')) (\<lambda>_.
     bindE (bindE (subscript raw ''values'') iterate) (\<lambda>entries.
     bindE (mapE normalize_entry entries) (\<lambda>normalized_values.
     bindE (bindE (subscript raw ''node'') as_str) (\<lambda>node.
     bindE (bindE (subscript raw ''hw_id'') as_str) (\<lambda>hw_id.
     bindE (bindE (subscript raw ''stamp'') py_float) (\<lambda>stamp.
     bindE (bindE (subscript raw ''level'') as_num) (\<lambda>level.
     bindE (bindE (subscript raw ''msg'') as_str) (\<lambda>msg.
       Inr \<lparr>m_v = 1, m_node = node, m_hw_id = hw_id, m_stamp = stamp, m_level = level, m_msg = msg,
            m_values = normalized_values\<rparr>))))))))"

subsection \<open>What the schema gives\<close>

lemma has_Some: "has d k P \<Longrightarrow> \<exists>v. dict_get d k = Some v \<and> P v"
  by (auto simp: has_def split: option.splits)

lemma is_string_iff: "is_string v \<longleftrightarrow> (\<exists>s. v = PStr s)"
  by (cases v) (auto simp: is_string_def)

lemma is_nonempty_string_iff: "is_nonempty_string v \<longleftrightarrow> (\<exists>s. v = PStr s \<and> s \<noteq> [])"
  by (cases v) (auto simp: is_nonempty_string_def)

lemma is_number_iff: "is_number v \<longleftrightarrow> (\<exists>n. v = PNum n)"
  by (cases v) (auto simp: is_number_def)

definition level_ok :: "pynum \<Rightarrow> bool" where
  "level_ok n = list_ex (\<lambda>k. num_eq n (NInt k)) [0, 1, 2, 3]"

lemma is_level_iff: "is_level v \<longleftrightarrow> (\<exists>n. v = PNum n \<and> level_ok n)"
  by (cases v) (auto simp: is_level_def level_ok_def)

lemma level_ok_NInt: "level_ok (NInt i) \<longleftrightarrow> i \<in> {0, 1, 2, 3}"
  by (auto simp: level_ok_def num_eq_def feq_def)

lemma is_entries_iff: "is_entries v \<longleftrightarrow> (\<exists>vs. v = PList vs \<and> list_all is_entry vs)"
  by (cases v) (auto simp: is_entries_def)

lemmas schema_iffs = is_string_iff is_nonempty_string_iff is_number_iff is_level_iff is_entries_iff

lemma is_entry_cases:
  assumes "is_entry v"
  obtains (obj) d k x where "v = PDict d" "dict_get d ''key'' = Some (PStr k)" "k \<noteq> []" "dict_get d ''value'' = Some x"
  | (pair) k x where "v = PList [PStr k, x]" "k \<noteq> []"
  using assms
  by (auto simp: is_entry_def is_nonempty_string_iff split: pyval.splits list.splits option.splits)

text \<open>
  What a message must say of its payload, from the schema alone: an entry is a pair of key and
  value, or an object with the two. \<open>entry_of\<close> reads the two shapes.
\<close>

definition entry_of :: "pyval \<Rightarrow> DiagnosticKeyValue \<Rightarrow> bool" where
  "entry_of entry kv = (case entry of
      PDict d \<Rightarrow> dict_get d ''key'' = Some (PStr (kv_key kv)) \<and> dict_get d ''value'' = Some (kv_value kv)
    | v \<Rightarrow> v = PList [PStr (kv_key kv), kv_value kv])"

lemma normalize_entry_ok: "is_entry v \<Longrightarrow> \<exists>kv. normalize_entry v = Inr kv \<and> kv_key kv \<noteq> [] \<and> entry_of v kv"
  by (erule is_entry_cases) (auto simp: normalize_entry_def entry_of_def)

lemma normalize_entries_ok:
  "list_all is_entry vs \<Longrightarrow>
   \<exists>kvs. mapE normalize_entry vs = Inr kvs \<and> list_all2 entry_of vs kvs \<and> (\<forall>kv \<in> set kvs. kv_key kv \<noteq> [])"
proof (induction vs)
  case (Cons v vs)
  then obtain kvs where "mapE normalize_entry vs = Inr kvs" "list_all2 entry_of vs kvs" "\<forall>kv \<in> set kvs. kv_key kv \<noteq> []"
    by auto
  moreover obtain kv where "normalize_entry v = Inr kv" "kv_key kv \<noteq> []" "entry_of v kv"
    using Cons.prems normalize_entry_ok [of v] by auto
  ultimately show ?case by simp
qed simp

lemma message_schema_cases:
  assumes "message_schema raw"
  obtains d node hw stamp level msg entries where
    "raw = PDict d" "dict_get d ''node'' = Some (PStr node)" "node \<noteq> []" "dict_get d ''hw_id'' = Some (PStr hw)"
    "dict_get d ''stamp'' = Some (PNum stamp)" "dict_get d ''level'' = Some (PNum level)" "level_ok level"
    "dict_get d ''msg'' = Some (PStr msg)" "dict_get d ''values'' = Some (PList entries)" "list_all is_entry entries"
proof -
  obtain d where raw: "raw = PDict d" using assms by (cases raw) (auto simp: message_schema_def)
  have "has d ''node'' is_nonempty_string" "has d ''hw_id'' is_string" "has d ''stamp'' is_number"
    "has d ''level'' is_level" "has d ''msg'' is_string" "has d ''values'' is_entries"
    using assms by (auto simp: raw message_schema_def)
  from this [THEN has_Some] show ?thesis
    using that [OF raw] by (auto simp: schema_iffs)
qed

text \<open>What every normalised message satisfies.\<close>

definition message_ok :: "DiagnosticsMessage \<Rightarrow> bool" where
  "message_ok m = (m_v m = 1 \<and> m_node m \<noteq> [] \<and> level_ok (m_level m) \<and> (\<forall>kv \<in> set (m_values m). kv_key kv \<noteq> []))"

text \<open>
  The raw payload and the message agree field by field: the texts and the level are the
  payload's, the time stamp is its number as a float, and the values are its entries, one by
  one and in order, each with its own key and its own unchanged value.
\<close>

definition stamp_of :: "pyval \<Rightarrow> pyfloat \<Rightarrow> bool" where
  "stamp_of v t = (case v of PNum (NInt i) \<Rightarrow> t = Fin (real_of_int i) | PNum (NFlt f) \<Rightarrow> t = f | _ \<Rightarrow> False)"

definition message_of :: "pyval \<Rightarrow> DiagnosticsMessage \<Rightarrow> bool" where
  "message_of raw m = (m_v m = 1 \<and>
     subscript raw ''node'' = Inr (PStr (m_node m)) \<and> subscript raw ''hw_id'' = Inr (PStr (m_hw_id m)) \<and>
     (case subscript raw ''stamp'' of Inr v \<Rightarrow> stamp_of v (m_stamp m) | Inl _ \<Rightarrow> False) \<and>
     subscript raw ''level'' = Inr (PNum (m_level m)) \<and> subscript raw ''msg'' = Inr (PStr (m_msg m)) \<and>
     (case subscript raw ''values'' of Inr (PList entries) \<Rightarrow> list_all2 entry_of entries (m_values m) | _ \<Rightarrow> False))"

text \<open>The one valid payload that cannot be normalised: its stamp is an integer no float can hold.\<close>

definition huge_stamp :: "pyval \<Rightarrow> bool" where
  "huge_stamp raw = (case subscript raw ''stamp'' of Inr (PNum (NInt i)) \<Rightarrow> float_bound \<le> \<bar>i\<bar> | _ \<Rightarrow> False)"

lemma normalize_valid:
  assumes "validate raw = message_schema raw" and "message_schema raw"
  shows "if huge_stamp raw then validate_and_normalize_message validate raw = Inl OverflowError
    else \<exists>m. validate_and_normalize_message validate raw = Inr m \<and> message_ok m \<and> message_of raw m"
proof -
  from assms(2) obtain d node hw stamp level msg entries where d:
    "raw = PDict d" "dict_get d ''node'' = Some (PStr node)" "node \<noteq> []" "dict_get d ''hw_id'' = Some (PStr hw)"
    "dict_get d ''stamp'' = Some (PNum stamp)" "dict_get d ''level'' = Some (PNum level)" "level_ok level"
    "dict_get d ''msg'' = Some (PStr msg)" "dict_get d ''values'' = Some (PList entries)" "list_all is_entry entries"
    by (rule message_schema_cases)
  from normalize_entries_ok [OF d(10)] obtain kvs where
    kvs: "mapE normalize_entry entries = Inr kvs" "list_all2 entry_of entries kvs" "\<forall>kv \<in> set kvs. kv_key kv \<noteq> []" by auto
  note defs = validate_and_normalize_message_def subscript_def iterate_def as_str_def as_num_def
    message_ok_def message_of_def huge_stamp_def stamp_of_def
  show ?thesis
  proof (cases stamp)
    case (NInt i)
    with d kvs assms show ?thesis
      by (cases "\<bar>i\<bar> < float_bound") (simp_all add: defs float_of_int_def)
  next
    case (NFlt f)
    with d kvs assms show ?thesis by (simp add: defs)
  qed
qed

lemma normalize_rejected: "\<not> validate raw \<Longrightarrow> validate_and_normalize_message validate raw = Inl (ValueError ''Schema validation failed'')"
  by (simp add: validate_and_normalize_message_def)

text \<open>C14: On a payload that satisfies the message schema, normalisation succeeds with a well-formed
  message that agrees with the payload field by field: each entry of the payload, pair or
  object, is the message's entry at the same place, with its key and its value unchanged. The one
  exception is a time stamp that is an integer too large for a float: then, and only then, it
  raises, and OverflowError.\<close>

theorem normalize_schema_valid:
  assumes "validate raw = message_schema raw" and "message_schema raw"
  shows "if huge_stamp raw then validate_and_normalize_message validate raw = Inl OverflowError
    else \<exists>m. validate_and_normalize_message validate raw = Inr m \<and> message_ok m \<and> message_of raw m"
  using assms by (rule normalize_valid)

definition demo_raw :: pyval where
  "demo_raw = PDict [(''v'', PInt 1), (''node'', PStr ''n1''), (''hw_id'', PStr ''hw''),
     (''stamp'', PFloat (Fin 1)), (''level'', PInt 0), (''msg'', PStr ''OK''),
     (''values'', PList [PList [PStr ''temperature'', PFloat (Fin 42)],
                        PDict [(''key'', PStr ''x''), (''value'', PInt 1)]])]"

lemma demo_raw_schema: "message_schema demo_raw"
  by (simp add: demo_raw_def message_schema_def has_def is_string_def is_nonempty_string_def is_number_def
      is_level_def is_entries_def is_entry_def num_eq_def feq_def)

theorem normalize_schema_valid_witness:
  "\<exists>m. validate_and_normalize_message message_schema demo_raw = Inr m \<and> message_ok m \<and>
     m_values m = [\<lparr>kv_key = ''temperature'', kv_value = PFloat (Fin 42)\<rparr>, \<lparr>kv_key = ''x'', kv_value = PInt 1\<rparr>]"
proof -
  have "\<not> huge_stamp demo_raw" by (simp add: huge_stamp_def demo_raw_def subscript_def)
  then obtain m where m: "validate_and_normalize_message message_schema demo_raw = Inr m" "message_ok m" "message_of demo_raw m"
    using normalize_schema_valid [of message_schema demo_raw, OF refl demo_raw_schema] by auto
  from m(3) have "m_values m = [\<lparr>kv_key = ''temperature'', kv_value = PFloat (Fin 42)\<rparr>, \<lparr>kv_key = ''x'', kv_value = PInt 1\<rparr>]"
    by (auto simp: message_of_def demo_raw_def subscript_def entry_of_def list_all2_Cons1)
  with m show ?thesis by blast
qed

end
