(* ===== verification/Aggregator.thy ===== *)
theory Aggregator
  imports Message
begin

text \<open>
  \<^verbatim>\<open>aggregator.py\<close>: the fan-in aggregator. \<open>'s\<close> is the type of the sinks' states and \<open>'o\<close> of the
  sources' states; their operations, the protocols \<^verbatim>\<open>Sink\<close> and \<^verbatim>\<open>Source\<close>, are the records
  \<open>sink_ops\<close> and \<open>source_ops\<close> (the sinks of the program are in their own theories). An
  operation that may raise returns the state it leaves together with its result. The clock is
  the sequence of readings of \<open>time_fn\<close>, and the aggregator counts the readings it has taken.
  The lemmas give the cache invariant, staleness, the order in which sinks are driven, and
  what a rejected message does; the locale \<open>sink_contract\<close> is what the aggregator needs of its
  sinks to keep running.
\<close>

record 's sink_ops =
  so_handle :: "DiagnosticsMessage \<Rightarrow> 's \<Rightarrow> 's \<times> py_exc option"
  so_publish :: "(string, DiagnosticsMessage) dict \<Rightarrow> 's \<Rightarrow> 's \<times> py_exc option"
  so_close :: "'s \<Rightarrow> 's \<times> py_exc option"

record 'o source_ops =
  sr_poll :: "int \<Rightarrow> 'o \<Rightarrow> 'o \<times> DiagnosticsMessage list result"
  sr_close :: "'o \<Rightarrow> 'o \<times> py_exc option"

record ('s, 'o) DiagnosticsAggregator =
  ag_stale_timeout :: pyfloat
  ag_check_interval :: pyfloat
  ag_sinks :: "'s list"
  ag_sources :: "'o list"
  ag_cache :: "(string, DiagnosticsMessage) dict"
  ag_last_seen :: "(string, pyfloat) dict"
  ag_running :: bool
  ag_last_check :: pyfloat
  ag_clock :: nat

definition aggregator_init ::
  "clock \<Rightarrow> pyfloat \<Rightarrow> pyfloat \<Rightarrow> 's list option \<Rightarrow> 'o list option \<Rightarrow> 'o \<Rightarrow> ('s, 'o) DiagnosticsAggregator" where
  "aggregator_init clk timeout check_interval sinks sources zmq_source =
     \<lparr>ag_stale_timeout = timeout, ag_check_interval = check_interval,
      ag_sinks = (case sinks of None \<Rightarrow> [] | Some ks \<Rightarrow> ks),
      ag_sources = (case sources of None \<Rightarrow> [zmq_source] | Some os \<Rightarrow> if os = [] then [zmq_source] else os),
      ag_cache = [], ag_last_seen = [], ag_running = False, ag_last_check = clk 0, ag_clock = 1\<rparr>"

definition read_clock :: "clock \<Rightarrow> ('s, 'o) DiagnosticsAggregator \<Rightarrow> pyfloat \<times> ('s, 'o) DiagnosticsAggregator" where
  "read_clock clk ag = (clk (ag_clock ag), ag\<lparr>ag_clock := ag_clock ag + 1\<rparr>)"

subsection \<open>The ZMQ source\<close>

text \<open>
  \<open>receive\<close> is what the socket yields (None: nothing within the timeout), \<open>loads\<close> the UTF-8
  decoding and JSON parsing of the bytes. Both of its decoding errors are ValueErrors.
\<close>

definition zmq_poll :: "(pyval \<Rightarrow> bool) \<Rightarrow> ('b \<Rightarrow> pyval result) \<Rightarrow> 'b option \<Rightarrow> DiagnosticsMessage list result" where
  "zmq_poll validate loads receive =
     (case receive of
        None \<Rightarrow> Inr []
      | Some data \<Rightarrow>
          (case bindE (loads data) (validate_and_normalize_message validate) of
             Inr m \<Rightarrow> Inr [m]
           | Inl (ValueError e) \<Rightarrow> Inr []
           | Inl e \<Rightarrow> Inl e))"

text \<open>
  The source's state: \<open>zs_inbox\<close> is what the socket will yield at the next polls (None for a
  timeout), an environment the operations only consume.
\<close>

record 'b zmq_source =
  zs_owns_ctx :: bool
  zs_open :: bool
  zs_ctx_open :: bool
  zs_inbox :: "'b option list"

definition zmq_source_init :: "bool \<Rightarrow> 'b option list \<Rightarrow> 'b zmq_source" where
  "zmq_source_init context_given inbox =
     \<lparr>zs_owns_ctx = \<not> context_given, zs_open = True, zs_ctx_open = True, zs_inbox = inbox\<rparr>"

definition zmq_source_poll ::
  "(pyval \<Rightarrow> bool) \<Rightarrow> ('b \<Rightarrow> pyval result) \<Rightarrow> int \<Rightarrow> 'b zmq_source \<Rightarrow> 'b zmq_source \<times> DiagnosticsMessage list result" where
  "zmq_source_poll validate loads timeout_ms z =
     (case zs_inbox z of
        [] \<Rightarrow> (z, Inr [])
      | x # xs \<Rightarrow> (z\<lparr>zs_inbox := xs\<rparr>, zmq_poll validate loads x))"

definition zmq_source_close :: "'b zmq_source \<Rightarrow> 'b zmq_source" where
  "zmq_source_close z = (let z1 = z\<lparr>zs_open := False\<rparr> in if zs_owns_ctx z1 then z1\<lparr>zs_ctx_open := False\<rparr> else z1)"

subsection \<open>Staleness\<close>

definition stale_version :: "pyfloat \<Rightarrow> DiagnosticsMessage \<Rightarrow> DiagnosticsMessage" where
  "stale_version now current =
     \<lparr>m_v = m_v current, m_node = m_node current, m_hw_id = m_hw_id current, m_stamp = now,
      m_level = NInt 3, m_msg = ''STALE'', m_values = m_values current\<rparr>"

text \<open>The loop of \<open>_mark_stale_nodes\<close> over a snapshot of \<open>_last_seen\<close>.\<close>

fun mark_stale_loop ::
  "pyfloat \<Rightarrow> pyfloat \<Rightarrow> (string \<times> pyfloat) list \<Rightarrow> (string, DiagnosticsMessage) dict \<Rightarrow> bool \<Rightarrow>
   (string, DiagnosticsMessage) dict \<times> bool result" where
  "mark_stale_loop timeout now [] cache changed = (cache, Inr changed)"
| "mark_stale_loop timeout now ((node, seen) # rest) cache changed =
     (if fle (fsub now seen) timeout then mark_stale_loop timeout now rest cache changed
      else (case dict_get cache node of
              None \<Rightarrow> (cache, Inl (KeyError node))
            | Some current \<Rightarrow>
                if num_eq (m_level current) (NInt 3) then mark_stale_loop timeout now rest cache changed
                else mark_stale_loop timeout now rest (dict_set node (stale_version now current) cache) True))"

definition mark_stale_nodes :: "pyfloat \<Rightarrow> ('s, 'o) DiagnosticsAggregator \<Rightarrow> ('s, 'o) DiagnosticsAggregator \<times> bool result" where
  "mark_stale_nodes now ag =
     (let (cache, r) = mark_stale_loop (ag_stale_timeout ag) now (ag_last_seen ag) (ag_cache ag) False
      in (ag\<lparr>ag_cache := cache\<rparr>, r))"

subsection \<open>Driving the sinks\<close>

fun run_sinks :: "('s \<Rightarrow> 's \<times> py_exc option) \<Rightarrow> 's list \<Rightarrow> 's list \<times> py_exc option" where
  "run_sinks f [] = ([], None)"
| "run_sinks f (k # ks) =
     (case f k of
        (k', Some e) \<Rightarrow> (k' # ks, Some e)
      | (k', None) \<Rightarrow> (let (ks', e) = run_sinks f ks in (k' # ks', e)))"

definition publish_state :: "'s sink_ops \<Rightarrow> ('s, 'o) DiagnosticsAggregator \<Rightarrow> ('s, 'o) DiagnosticsAggregator \<times> py_exc option" where
  "publish_state ops ag =
     (let (ks, e) = run_sinks (so_publish ops (ag_cache ag)) (ag_sinks ag) in (ag\<lparr>ag_sinks := ks\<rparr>, e))"

definition process_message ::
  "'s sink_ops \<Rightarrow> clock \<Rightarrow> DiagnosticsMessage \<Rightarrow> pyfloat option \<Rightarrow> ('s, 'o) DiagnosticsAggregator \<Rightarrow>
   ('s, 'o) DiagnosticsAggregator \<times> bool result" where
  "process_message ops clk message now ag =
     (let (recv_time, ag1) = (case now of Some t \<Rightarrow> (t, ag) | None \<Rightarrow> read_clock clk ag);
          ag2 = ag1\<lparr>ag_cache := dict_set (m_node message) message (ag_cache ag1),
                    ag_last_seen := dict_set (m_node message) recv_time (ag_last_seen ag1)\<rparr>;
          (ks, e) = run_sinks (so_handle ops message) (ag_sinks ag2);
          ag3 = ag2\<lparr>ag_sinks := ks\<rparr>
      in case e of
           Some x \<Rightarrow> (ag3, Inl x)
         | None \<Rightarrow> (case publish_state ops ag3 of
                      (ag4, Some x) \<Rightarrow> (ag4, Inl x)
                    | (ag4, None) \<Rightarrow> (ag4, Inr True)))"

definition process_raw ::
  "(pyval \<Rightarrow> bool) \<Rightarrow> 's sink_ops \<Rightarrow> clock \<Rightarrow> pyval \<Rightarrow> pyfloat option \<Rightarrow> ('s, 'o) DiagnosticsAggregator \<Rightarrow>
   ('s, 'o) DiagnosticsAggregator \<times> bool result" where
  "process_raw validate ops clk raw now ag =
     (case validate_and_normalize_message validate raw of
        Inl (ValueError e) \<Rightarrow> (ag, Inr False)
      | Inl e \<Rightarrow> (ag, Inl e)
      | Inr message \<Rightarrow> process_message ops clk message now ag)"

fun process_all ::
  "'s sink_ops \<Rightarrow> clock \<Rightarrow> DiagnosticsMessage list \<Rightarrow> ('s, 'o) DiagnosticsAggregator \<Rightarrow>
   ('s, 'o) DiagnosticsAggregator \<times> py_exc option" where
  "process_all ops clk [] ag = (ag, None)"
| "process_all ops clk (m # ms) ag =
     (case process_message ops clk m None ag of
        (ag1, Inl e) \<Rightarrow> (ag1, Some e)
      | (ag1, Inr _) \<Rightarrow> process_all ops clk ms ag1)"

text \<open>
  The loop over the sources: the first gets the timeout, the others poll without waiting. The
  polled sources' states and whether a message was processed are returned.
\<close>

fun poll_sources ::
  "'s sink_ops \<Rightarrow> 'o source_ops \<Rightarrow> clock \<Rightarrow> int \<Rightarrow> nat \<Rightarrow> 'o list \<Rightarrow> bool \<Rightarrow> ('s, 'o) DiagnosticsAggregator \<Rightarrow>
   'o list \<times> ('s, 'o) DiagnosticsAggregator \<times> bool result" where
  "poll_sources ops sops clk timeout index [] processed ag = ([], ag, Inr processed)"
| "poll_sources ops sops clk timeout index (src # rest) processed ag =
     (case sr_poll sops (if index = 0 then timeout else 0) src of
        (src', Inl e) \<Rightarrow> (src' # rest, ag, Inl e)
      | (src', Inr msgs) \<Rightarrow>
          (case process_all ops clk msgs ag of
             (ag1, Some e) \<Rightarrow> (src' # rest, ag1, Inl e)
           | (ag1, None) \<Rightarrow>
               (case poll_sources ops sops clk timeout (index + 1) rest (processed \<or> msgs \<noteq> []) ag1 of
                  (rest', ag2, r) \<Rightarrow> (src' # rest', ag2, r))))"

definition stale_check :: "'s sink_ops \<Rightarrow> clock \<Rightarrow> ('s, 'o) DiagnosticsAggregator \<Rightarrow> ('s, 'o) DiagnosticsAggregator \<times> py_exc option" where
  "stale_check ops clk ag =
     (let (now, ag1) = read_clock clk ag in
      if fge (fsub now (ag_last_check ag1)) (ag_check_interval ag1) then
        (case mark_stale_nodes now (ag1\<lparr>ag_last_check := now\<rparr>) of
           (ag2, Inl e) \<Rightarrow> (ag2, Some e)
         | (ag2, Inr changed) \<Rightarrow> if changed then publish_state ops ag2 else (ag2, None))
      else (ag1, None))"

definition poll_once ::
  "'s sink_ops \<Rightarrow> 'o source_ops \<Rightarrow> clock \<Rightarrow> int \<Rightarrow> ('s, 'o) DiagnosticsAggregator \<Rightarrow>
   ('s, 'o) DiagnosticsAggregator \<times> bool result" where
  "poll_once ops sops clk timeout ag =
     (case poll_sources ops sops clk timeout 0 (ag_sources ag) False ag of
        (srcs, ag1, r) \<Rightarrow>
          (let ag2 = ag1\<lparr>ag_sources := srcs\<rparr> in
           case r of
             Inl e \<Rightarrow> (ag2, Inl e)
           | Inr processed \<Rightarrow>
               (case stale_check ops clk ag2 of
                  (ag3, Some e) \<Rightarrow> (ag3, Inl e)
                | (ag3, None) \<Rightarrow> (ag3, Inr processed))))"

definition stop :: "('s, 'o) DiagnosticsAggregator \<Rightarrow> ('s, 'o) DiagnosticsAggregator" where
  "stop ag = ag\<lparr>ag_running := False\<rparr>"

definition close_all :: "'s sink_ops \<Rightarrow> 'o source_ops \<Rightarrow> ('s, 'o) DiagnosticsAggregator \<Rightarrow> ('s, 'o) DiagnosticsAggregator \<times> py_exc option" where
  "close_all ops sops ag =
     (case run_sinks (so_close ops) (ag_sinks ag) of
        (ks, Some e) \<Rightarrow> (ag\<lparr>ag_sinks := ks\<rparr>, Some e)
      | (ks, None) \<Rightarrow>
          (case run_sinks (sr_close sops) (ag_sources ag) of
             (os, e) \<Rightarrow> (ag\<lparr>ag_sinks := ks, ag_sources := os\<rparr>, e)))"

text \<open>
  The loop of \<open>run\<close>: \<open>signals k\<close> says that SIGINT or SIGTERM has arrived by the end of poll \<open>k\<close>
  (its handler calls \<open>stop\<close>). None is a loop that does not return. An exception of a poll ends
  the loop; \<open>run\<close> closes everything on either way out, an exception of \<open>close\<close> taking over.
\<close>

partial_function (option) run_loop ::
  "'s sink_ops \<Rightarrow> 'o source_ops \<Rightarrow> clock \<Rightarrow> (nat \<Rightarrow> bool) \<Rightarrow> nat \<Rightarrow> ('s, 'o) DiagnosticsAggregator \<Rightarrow>
   (('s, 'o) DiagnosticsAggregator \<times> py_exc option) option" where
  "run_loop ops sops clk signals k ag =
     (if \<not> ag_running ag then Some (ag, None)
      else (case poll_once ops sops clk 100 ag of
              (ag1, Inl e) \<Rightarrow> Some (ag1, Some e)
            | (ag1, Inr _) \<Rightarrow> run_loop ops sops clk signals (k + 1) (if signals k then stop ag1 else ag1)))"

definition run ::
  "'s sink_ops \<Rightarrow> 'o source_ops \<Rightarrow> clock \<Rightarrow> (nat \<Rightarrow> bool) \<Rightarrow> ('s, 'o) DiagnosticsAggregator \<Rightarrow>
   (('s, 'o) DiagnosticsAggregator \<times> py_exc option) option" where
  "run ops sops clk signals ag =
     (case run_loop ops sops clk signals 0 (ag\<lparr>ag_running := True\<rparr>) of
        None \<Rightarrow> None
      | Some (ag1, e) \<Rightarrow>
          (case close_all ops sops ag1 of
             (ag2, Some e') \<Rightarrow> Some (ag2, Some e')
           | (ag2, None) \<Rightarrow> Some (ag2, e)))"

subsection \<open>The cache invariant\<close>

text \<open>Both dictionaries have the same nodes, and a node's entry is a message of that node.\<close>

definition agg_inv :: "('s, 'o) DiagnosticsAggregator \<Rightarrow> bool" where
  "agg_inv ag = (keys (ag_cache ag) = keys (ag_last_seen ag) \<and> wf_dict (ag_cache ag) \<and>
     (\<forall>(k, m) \<in> set (ag_cache ag). m_node m = k))"

lemma agg_inv_init [simp]: "agg_inv (aggregator_init clk t i ks os z)"
  by (simp add: agg_inv_def aggregator_init_def)

lemma agg_inv_cong: "ag_cache a = ag_cache b \<Longrightarrow> ag_last_seen a = ag_last_seen b \<Longrightarrow> agg_inv a = agg_inv b"
  by (simp add: agg_inv_def)

lemma set_dict_set: "wf_dict d \<Longrightarrow> set (dict_set k v d) = insert (k, v) {p \<in> set d. fst p \<noteq> k}"
  unfolding wf_dict_def by (induction d) (auto simp: image_iff)

lemma dict_set_map: "wf_dict d \<Longrightarrow> k \<in> set (keys d) \<Longrightarrow> dict_set k v d = map (\<lambda>(k', x). (k', if k' = k then v else x)) d"
proof (induction d)
  case (Cons p d)
  show ?case
  proof (cases "fst p = k")
    case True
    then have "k \<notin> set (keys d)" using Cons.prems(1) by (cases p) (auto simp: wf_dict_def)
    then have "map (\<lambda>(k', x). (k', if k' = k then v else x)) d = d"
      by (intro map_idI) (auto simp: image_iff split: prod.splits)
    with True show ?thesis by (cases p) auto
  next
    case False
    with Cons show ?thesis by (cases p) (auto simp: wf_dict_def)
  qed
qed simp

lemma read_clock_frame [simp]:
  "ag_cache (snd (read_clock clk ag)) = ag_cache ag" "ag_last_seen (snd (read_clock clk ag)) = ag_last_seen ag"
  "ag_sinks (snd (read_clock clk ag)) = ag_sinks ag" "ag_sources (snd (read_clock clk ag)) = ag_sources ag"
  "ag_stale_timeout (snd (read_clock clk ag)) = ag_stale_timeout ag"
  "fst (read_clock clk ag) = clk (ag_clock ag)"
  by (simp_all add: read_clock_def)

lemma publish_state_frame [simp]:
  "ag_cache (fst (publish_state ops ag)) = ag_cache ag" "ag_last_seen (fst (publish_state ops ag)) = ag_last_seen ag"
  by (auto simp: publish_state_def split: prod.splits)

text \<open>The reading a message is received at.\<close>

definition recv_time :: "clock \<Rightarrow> pyfloat option \<Rightarrow> ('s, 'o) DiagnosticsAggregator \<Rightarrow> pyfloat" where
  "recv_time clk now ag = (case now of Some t \<Rightarrow> t | None \<Rightarrow> clk (ag_clock ag))"

lemma process_message_cache:
  "ag_cache (fst (process_message ops clk m now ag)) = dict_set (m_node m) m (ag_cache ag)"
  "ag_last_seen (fst (process_message ops clk m now ag)) = dict_set (m_node m) (recv_time clk now ag) (ag_last_seen ag)"
proof -
  have p: "publish_state ops a = (b, e) \<Longrightarrow> ag_cache b = ag_cache a \<and> ag_last_seen b = ag_last_seen a" for a b e
    using publish_state_frame [of ops a] by auto
  show "ag_cache (fst (process_message ops clk m now ag)) = dict_set (m_node m) m (ag_cache ag)"
    "ag_last_seen (fst (process_message ops clk m now ag)) = dict_set (m_node m) (recv_time clk now ag) (ag_last_seen ag)"
    by (auto simp: process_message_def recv_time_def read_clock_def Let_def split: prod.splits option.splits dest!: p)
qed

lemma agg_inv_process_message [simp]: "agg_inv ag \<Longrightarrow> agg_inv (fst (process_message ops clk m now ag))"
  by (auto simp: agg_inv_def process_message_cache keys_dict_set_eq set_dict_set wf_dict_set)

subsection \<open>Marking stale nodes, as a map over the cache\<close>

definition expired :: "pyfloat \<Rightarrow> pyfloat \<Rightarrow> pyfloat \<Rightarrow> bool" where
  "expired timeout now seen = (\<not> fle (fsub now seen) timeout)"

definition goes_stale :: "pyfloat \<Rightarrow> pyfloat \<Rightarrow> pyfloat \<Rightarrow> DiagnosticsMessage \<Rightarrow> bool" where
  "goes_stale timeout now seen m = (expired timeout now seen \<and> \<not> num_eq (m_level m) (NInt 3))"

definition aged :: "pyfloat \<Rightarrow> pyfloat \<Rightarrow> (string, pyfloat) dict \<Rightarrow> string \<times> DiagnosticsMessage \<Rightarrow> string \<times> DiagnosticsMessage" where
  "aged timeout now seen e = (case dict_get seen (fst e) of
      None \<Rightarrow> e
    | Some t \<Rightarrow> if goes_stale timeout now t (snd e) then (fst e, stale_version now (snd e)) else e)"

lemma fst_aged [simp]: "fst (aged timeout now seen e) = fst e"
  by (auto simp: aged_def split: option.splits)

lemma keys_aged [simp]: "keys (map (aged timeout now seen) d) = keys d"
  by (simp add: comp_def)

lemma mark_stale_loop_map:
  "wf_dict cache \<Longrightarrow> distinct (keys seen) \<Longrightarrow> set (keys seen) \<subseteq> set (keys cache) \<Longrightarrow>
   mark_stale_loop timeout now seen cache changed =
     (map (aged timeout now seen) cache,
      Inr (changed \<or> (\<exists>e \<in> set cache. \<exists>t. dict_get seen (fst e) = Some t \<and> goes_stale timeout now t (snd e))))"
proof (induction seen arbitrary: cache changed)
  case Nil
  have "map (aged timeout now []) cache = cache" by (intro map_idI) (simp add: aged_def)
  then show ?case by simp
next
  case (Cons p seen)
  obtain node t where p: "p = (node, t)" by fastforce
  have nin: "dict_get seen node = None" using Cons.prems(2) by (simp add: p dict_get_None_iff)
  obtain cur where cur: "dict_get cache node = Some cur" using Cons.prems(3) by (auto simp: p dict_get_Some_iff [symmetric])
  have uniq: "e \<in> set cache \<Longrightarrow> fst e = node \<Longrightarrow> e = (node, cur)" for e
    using cur Cons.prems(1) wf_dict_get by (metis option.inject prod.collapse)
  have mem: "(node, cur) \<in> set cache" using cur by (rule map_of_SomeD)
  let ?c' = "dict_set node (stale_version now cur) cache"
  show ?case
  proof (cases "goes_stale timeout now t cur")
    case True
    have c': "?c' = map (\<lambda>(k', x). (k', if k' = node then stale_version now cur else x)) cache"
      using dict_set_map [OF Cons.prems(1)] mem by (force simp: image_iff)
    have "mark_stale_loop timeout now (p # seen) cache changed = mark_stale_loop timeout now seen ?c' True"
      using True by (simp add: p cur goes_stale_def expired_def)
    also have "\<dots> = (map (aged timeout now seen) ?c', Inr True)"
      using Cons.prems by (subst Cons.IH) (auto simp: wf_dict_set)
    also have "map (aged timeout now seen) ?c' = map (aged timeout now (p # seen)) cache"
      unfolding c' using True nin uniq by (auto simp: aged_def p split: option.splits)
    finally show ?thesis using True mem by (force simp: p)
  next
    case False
    have "mark_stale_loop timeout now (p # seen) cache changed = mark_stale_loop timeout now seen cache changed"
      using False by (auto simp: p cur goes_stale_def expired_def)
    also have "\<dots> = (map (aged timeout now seen) cache,
      Inr (changed \<or> (\<exists>e \<in> set cache. \<exists>t. dict_get seen (fst e) = Some t \<and> goes_stale timeout now t (snd e))))"
      using Cons.prems by (intro Cons.IH) auto
    also have "map (aged timeout now seen) cache = map (aged timeout now (p # seen)) cache"
      using False nin uniq by (auto simp: aged_def p split: option.splits)
    also have "(\<exists>e \<in> set cache. \<exists>t. dict_get seen (fst e) = Some t \<and> goes_stale timeout now t (snd e)) \<longleftrightarrow>
        (\<exists>e \<in> set cache. \<exists>t. dict_get (p # seen) (fst e) = Some t \<and> goes_stale timeout now t (snd e))"
    proof (intro bex_cong refl)
      fix e assume "e \<in> set cache"
      then show "(\<exists>t. dict_get seen (fst e) = Some t \<and> goes_stale timeout now t (snd e)) \<longleftrightarrow>
          (\<exists>t. dict_get (p # seen) (fst e) = Some t \<and> goes_stale timeout now t (snd e))"
        using False nin uniq [of e] by (cases "fst e = node") (auto simp: p)
    qed
    finally show ?thesis .
  qed
qed

lemma dict_get_map_aged:
  "dict_get (map (aged timeout now seen) d) k = map_option (\<lambda>m. snd (aged timeout now seen (k, m))) (dict_get d k)"
proof (induction d)
  case (Cons e d)
  then show ?case by (cases e) (auto simp: aged_def split: option.splits)
qed simp

lemma dict_get_aged:
  assumes "set (keys seen) = set (keys d)"
  shows "dict_get (map (aged timeout now seen) d) k = (case (dict_get d k, dict_get seen k) of
      (Some m, Some t) \<Rightarrow>
        Some (if \<not> fle (fsub now t) timeout \<and> \<not> num_eq (m_level m) (NInt 3) then stale_version now m else m)
    | _ \<Rightarrow> None)"
proof -
  have "dict_get seen k = None \<longleftrightarrow> dict_get d k = None"
    using assms by (simp add: dict_get_None_iff)
  then show ?thesis
    by (auto simp: dict_get_map_aged aged_def goes_stale_def expired_def split: option.splits)
qed

lemma mark_stale_nodes_map:
  assumes "agg_inv ag"
  shows "mark_stale_nodes now ag =
    (ag\<lparr>ag_cache := map (aged (ag_stale_timeout ag) now (ag_last_seen ag)) (ag_cache ag)\<rparr>,
     Inr (\<exists>e \<in> set (ag_cache ag). \<exists>t. dict_get (ag_last_seen ag) (fst e) = Some t \<and>
       goes_stale (ag_stale_timeout ag) now t (snd e)))"
proof -
  have "wf_dict (ag_cache ag)" "distinct (keys (ag_last_seen ag))" "set (keys (ag_last_seen ag)) \<subseteq> set (keys (ag_cache ag))"
    using assms unfolding agg_inv_def wf_dict_def by (metis order_refl)+
  from mark_stale_loop_map [OF this] show ?thesis by (simp add: mark_stale_nodes_def)
qed

lemma agg_inv_aged:
  "agg_inv ag \<Longrightarrow> agg_inv (ag\<lparr>ag_cache := map (aged timeout now seen) (ag_cache ag)\<rparr>)"
proof -
  assume i: "agg_inv ag"
  have "m_node (snd (aged timeout now seen e)) = fst e" if "e \<in> set (ag_cache ag)" for e
    using that i by (auto simp: agg_inv_def aged_def stale_version_def split: option.splits)
  then have n: "\<forall>e \<in> set (map (aged timeout now seen) (ag_cache ag)). m_node (snd e) = fst e" by simp
  have k: "keys (map (aged timeout now seen) (ag_cache ag)) = keys (ag_cache ag)" by (rule keys_aged)
  obtain c where c: "c = map (aged timeout now seen) (ag_cache ag)" by blast
  have "keys c = keys (ag_cache ag)" "\<forall>e \<in> set c. m_node (snd e) = fst e" using n k unfolding c by blast+
  then show ?thesis using i unfolding c [symmetric] agg_inv_def wf_dict_def by auto
qed

lemma agg_inv_mark_stale: "agg_inv ag \<Longrightarrow> agg_inv (fst (mark_stale_nodes now ag))"
  by (simp add: mark_stale_nodes_map agg_inv_aged)

lemma agg_inv_publish_state [simp]: "agg_inv (fst (publish_state ops ag)) = agg_inv ag"
  by (rule agg_inv_cong) simp_all

lemma agg_inv_process_all: "agg_inv ag \<Longrightarrow> agg_inv (fst (process_all ops clk ms ag))"
proof (induction ms arbitrary: ag)
  case (Cons m ms)
  obtain ag1 r where pm: "process_message ops clk m None ag = (ag1, r)" by fastforce
  have "agg_inv ag1" using agg_inv_process_message [OF Cons.prems, of ops clk m None] by (simp add: pm)
  then show ?case using Cons.IH by (simp add: pm split: sum.splits)
qed simp

lemma agg_inv_poll_sources:
  "agg_inv ag \<Longrightarrow> agg_inv (fst (snd (poll_sources ops sops clk timeout i srcs b ag)))"
proof (induction srcs arbitrary: i b ag)
  case (Cons src srcs)
  obtain src' r where sr: "sr_poll sops (if i = 0 then timeout else 0) src = (src', r)" by fastforce
  show ?case
  proof (cases r)
    case (Inr msgs)
    obtain ag1 e where pa: "process_all ops clk msgs ag = (ag1, e)" by fastforce
    have "agg_inv ag1" using agg_inv_process_all [OF Cons.prems, of ops clk msgs] by (simp add: pa)
    then show ?thesis using Cons.IH [of ag1 "i + 1" "b \<or> msgs \<noteq> []"]
      by (auto simp: sr Inr pa split: prod.splits option.splits)
  qed (use Cons.prems sr in simp)
qed simp

lemma agg_inv_stale_check: "agg_inv ag \<Longrightarrow> agg_inv (fst (stale_check ops clk ag))"
proof -
  assume inv: "agg_inv ag"
  obtain now ag1 where rc: "read_clock clk ag = (now, ag1)" by fastforce
  have inv1: "agg_inv (ag1\<lparr>ag_last_check := now\<rparr>)" "agg_inv ag1"
    using inv rc by (auto simp: read_clock_def agg_inv_def)
  obtain ag2 r where ms: "mark_stale_nodes now (ag1\<lparr>ag_last_check := now\<rparr>) = (ag2, r)" by fastforce
  have inv2: "agg_inv ag2" using agg_inv_mark_stale [OF inv1(1), of now] by (simp add: ms)
  show ?thesis using inv1 inv2 agg_inv_publish_state [of ops ag2]
    by (auto simp: stale_check_def rc ms split: sum.splits simp del: agg_inv_publish_state)
qed

lemma agg_inv_sources [simp]: "agg_inv (ag\<lparr>ag_sources := os\<rparr>) = agg_inv ag"
  by (simp add: agg_inv_def)

lemma agg_inv_poll_once: "agg_inv ag \<Longrightarrow> agg_inv (fst (poll_once ops sops clk timeout ag))"
proof -
  assume inv: "agg_inv ag"
  obtain srcs ag1 r where ps: "poll_sources ops sops clk timeout 0 (ag_sources ag) False ag = (srcs, ag1, r)"
    using prod_cases3 by blast
  have "agg_inv (ag1\<lparr>ag_sources := srcs\<rparr>)"
    using agg_inv_poll_sources [OF inv, of ops sops clk timeout 0 "ag_sources ag" False] by (simp add: ps)
  from this agg_inv_stale_check [OF this, of ops clk] show ?thesis
    by (auto simp: poll_once_def ps Let_def split: sum.splits prod.splits option.splits)
qed

subsection \<open>Counting the polls\<close>

text \<open>\<open>n\<close> polls one after the other, as long as none raises.\<close>

fun polls ::
  "'s sink_ops \<Rightarrow> 'o source_ops \<Rightarrow> clock \<Rightarrow> nat \<Rightarrow> ('s, 'o) DiagnosticsAggregator \<Rightarrow>
   ('s, 'o) DiagnosticsAggregator \<times> py_exc option" where
  "polls ops sops clk 0 ag = (ag, None)"
| "polls ops sops clk (Suc n) ag =
     (case poll_once ops sops clk 100 ag of
        (ag1, Inl e) \<Rightarrow> (ag1, Some e)
      | (ag1, Inr _) \<Rightarrow> polls ops sops clk n ag1)"

lemma publish_state_frame2 [simp]:
  "ag_sources (fst (publish_state ops ag)) = ag_sources ag" "ag_running (fst (publish_state ops ag)) = ag_running ag"
  by (auto simp: publish_state_def split: prod.splits)

lemma stale_check_frame [simp]:
  "ag_sources (fst (stale_check ops clk ag)) = ag_sources ag" "ag_running (fst (stale_check ops clk ag)) = ag_running ag"
  by (auto simp: stale_check_def read_clock_def mark_stale_nodes_def publish_state_def Let_def split: prod.splits sum.splits)

lemma process_message_running: "ag_running (fst (process_message ops clk m now ag)) = ag_running ag"
  by (auto simp: process_message_def read_clock_def publish_state_def Let_def split: prod.splits option.splits)

lemma process_all_running: "ag_running (fst (process_all ops clk ms ag)) = ag_running ag"
proof (induction ms arbitrary: ag)
  case (Cons m ms)
  obtain ag1 r where "process_message ops clk m None ag = (ag1, r)" by fastforce
  with Cons.IH process_message_running [of ops clk m None ag] show ?case by (auto split: sum.splits)
qed simp

lemma poll_sources_running: "ag_running (fst (snd (poll_sources ops sops clk timeout i srcs b ag))) = ag_running ag"
proof (induction srcs arbitrary: i b ag)
  case (Cons src srcs)
  obtain src' r where sr: "sr_poll sops (if i = 0 then timeout else 0) src = (src', r)" by fastforce
  show ?case
  proof (cases r)
    case (Inr msgs)
    obtain ag1 e where pa: "process_all ops clk msgs ag = (ag1, e)" by fastforce
    then have "ag_running ag1 = ag_running ag" using process_all_running [of ops clk msgs ag] by simp
    then show ?thesis using Cons.IH [of "i + 1" "b \<or> msgs \<noteq> []" ag1]
      by (auto simp: sr Inr pa split: prod.splits option.splits)
  qed (simp add: sr)
qed simp

text \<open>A poll that raises nothing has polled every source once.\<close>

lemma poll_sources_polled:
  assumes "snd (snd (poll_sources ops sops clk timeout i srcs b ag)) = Inr p"
  shows "fst (poll_sources ops sops clk timeout i srcs b ag) =
    (case srcs of [] \<Rightarrow> [] | src # rest \<Rightarrow>
       fst (sr_poll sops (if i = 0 then timeout else 0) src) # map (\<lambda>s. fst (sr_poll sops 0 s)) rest)"
  using assms
proof (induction srcs arbitrary: i b ag)
  case (Cons src srcs)
  obtain src' r where sr: "sr_poll sops (if i = 0 then timeout else 0) src = (src', r)" by fastforce
  show ?case
  proof (cases r)
    case (Inr msgs)
    obtain ag1 where pa: "process_all ops clk msgs ag = (ag1, None)"
      using Cons.prems by (cases "process_all ops clk msgs ag") (auto simp: sr Inr split: option.splits)
    then show ?thesis using Cons.IH [of "i + 1" "b \<or> msgs \<noteq> []" ag1] Cons.prems
      by (auto simp: sr Inr split: prod.splits list.splits)
  qed (use Cons.prems sr in simp)
qed simp

lemma poll_once_running: "ag_running (fst (poll_once ops sops clk timeout ag)) = ag_running ag"
proof -
  obtain srcs ag1 r where ps: "poll_sources ops sops clk timeout 0 (ag_sources ag) False ag = (srcs, ag1, r)"
    using prod_cases3 by blast
  have "ag_running (ag1\<lparr>ag_sources := srcs\<rparr>) = ag_running ag"
    using poll_sources_running [of ops sops clk timeout 0 "ag_sources ag" False ag] by (simp add: ps)
  moreover obtain ag3 e where "stale_check ops clk (ag1\<lparr>ag_sources := srcs\<rparr>) = (ag3, e)" by fastforce
  ultimately show ?thesis
    using stale_check_frame(2) [of ops clk "ag1\<lparr>ag_sources := srcs\<rparr>"]
    by (cases e) (simp_all add: poll_once_def ps Let_def split: sum.split)
qed

lemma poll_once_polled:
  assumes "snd (poll_once ops sops clk timeout ag) = Inr p"
  shows "ag_sources (fst (poll_once ops sops clk timeout ag)) =
    (case ag_sources ag of [] \<Rightarrow> [] | src # rest \<Rightarrow>
       fst (sr_poll sops timeout src) # map (\<lambda>s. fst (sr_poll sops 0 s)) rest)"
proof -
  obtain srcs ag1 r where ps: "poll_sources ops sops clk timeout 0 (ag_sources ag) False ag = (srcs, ag1, r)"
    using prod_cases3 by blast
  obtain q where r: "r = Inr q"
    using assms by (auto simp: poll_once_def ps Let_def split: sum.splits)
  have "srcs = (case ag_sources ag of [] \<Rightarrow> [] | src # rest \<Rightarrow>
       fst (sr_poll sops timeout src) # map (\<lambda>s. fst (sr_poll sops 0 s)) rest)"
    using poll_sources_polled [of ops sops clk timeout 0 "ag_sources ag" False ag] by (simp add: ps r)
  moreover obtain ag3 e where "stale_check ops clk (ag1\<lparr>ag_sources := srcs\<rparr>) = (ag3, e)" by fastforce
  ultimately show ?thesis
    using stale_check_frame(1) [of ops clk "ag1\<lparr>ag_sources := srcs\<rparr>"]
    by (cases e) (simp_all add: poll_once_def ps r Let_def)
qed

text \<open>
  The loop of \<open>run\<close> makes its polls up to and with the one during which the first signal comes,
  unless one of them raises.
\<close>

lemma run_loop_polls:
  "signals n \<Longrightarrow> k \<le> n \<Longrightarrow> \<forall>j. k \<le> j \<and> j < n \<longrightarrow> \<not> signals j \<Longrightarrow> ag_running ag \<Longrightarrow>
   run_loop ops sops clk signals k ag =
     Some (case polls ops sops clk (Suc (n - k)) ag of
             (ag1, None) \<Rightarrow> (stop ag1, None) | (ag1, Some e) \<Rightarrow> (ag1, Some e))"
proof (induction "n - k" arbitrary: k ag)
  case 0
  then have k: "k = n" "signals k" by simp_all
  have "run_loop ops sops clk signals (Suc n) (stop ag1) = Some (stop ag1, None)" for ag1
    by (simp add: run_loop.simps stop_def)
  with 0 k show ?case by (auto simp: run_loop.simps [of _ _ _ _ n] split: prod.splits sum.splits)
next
  case (Suc d)
  obtain ag1 r where po: "poll_once ops sops clk 100 ag = (ag1, r)" by fastforce
  have r1: "ag_running ag1" using poll_once_running [of ops sops clk 100 ag] Suc.prems(4) by (simp add: po)
  have k: "\<not> signals k" "n - k = Suc (n - (k + 1))" using Suc by auto
  have "run_loop ops sops clk signals (k + 1) ag1 =
     Some (case polls ops sops clk (Suc (n - (k + 1))) ag1 of
             (ag1, None) \<Rightarrow> (stop ag1, None) | (ag1, Some e) \<Rightarrow> (ag1, Some e))"
    by (rule Suc.hyps(1)) (use Suc r1 in auto)
  then show ?case
    using Suc.prems(4) by (simp add: run_loop.simps [of _ _ _ _ k] po k split: sum.split del: polls.simps)
      (simp add: po split: sum.split)
qed

lemma run_polls:
  assumes "signals n" and "polls ops sops clk (Suc (LEAST k. signals k)) (ag\<lparr>ag_running := True\<rparr>) = (ag1, x)"
    and "close_all ops sops (if x = None then stop ag1 else ag1) = (ag', e)"
  shows "run ops sops clk signals ag = Some (ag', if e = None then x else e)"
proof -
  let ?m = "LEAST k. signals k"
  have m: "signals ?m" using assms(1) by (rule LeastI)
  have m': "\<forall>j. 0 \<le> j \<and> j < ?m \<longrightarrow> \<not> signals j" using not_less_Least by blast
  have "ag_running (ag\<lparr>ag_running := True\<rparr>)" by simp
  from run_loop_polls [OF m le0 m' this, of ops sops clk]
  have "run_loop ops sops clk signals 0 (ag\<lparr>ag_running := True\<rparr>) = Some (if x = None then stop ag1 else ag1, x)"
    unfolding diff_zero assms(2) by (cases x) simp_all
  then show ?thesis unfolding run_def by (cases e) (simp_all only: option.case prod.case assms(3) option.distinct if_True if_False simp_thms)
qed

lemma run_Some: "signals n \<Longrightarrow> \<exists>ag' e. run ops sops clk signals ag = Some (ag', e)"
  by (metis run_polls prod.exhaust)

subsection \<open>What the aggregator needs of its sinks and sources\<close>

text \<open>
  A sink keeps an invariant and, on the messages it accepts, raises nothing. The aggregator
  replaces a message by its stale version, so a stale version must stay acceptable.
\<close>

locale sink_contract =
  fixes ops :: "'s sink_ops" and inv :: "'s \<Rightarrow> bool" and accepts :: "DiagnosticsMessage \<Rightarrow> bool"
  assumes handle_ok: "inv s \<Longrightarrow> accepts m \<Longrightarrow> snd (so_handle ops m s) = None \<and> inv (fst (so_handle ops m s))"
    and publish_ok: "inv s \<Longrightarrow> (\<And>e. e \<in> set states \<Longrightarrow> accepts (snd e)) \<Longrightarrow>
      snd (so_publish ops states s) = None \<and> inv (fst (so_publish ops states s))"
    and close_ok: "inv s \<Longrightarrow> snd (so_close ops s) = None"
    and accepts_stale: "accepts m \<Longrightarrow> accepts (stale_version t m)"
begin

definition sinks_inv :: "('s, 'o) DiagnosticsAggregator \<Rightarrow> bool" where
  "sinks_inv ag = (agg_inv ag \<and> (\<forall>k \<in> set (ag_sinks ag). inv k) \<and> (\<forall>e \<in> set (ag_cache ag). accepts (snd e)))"

lemma run_sinks_ok:
  "(\<And>k. k \<in> set ks \<Longrightarrow> snd (f k) = None) \<Longrightarrow> run_sinks f ks = (map (\<lambda>k. fst (f k)) ks, None)"
proof (induction ks)
  case (Cons k ks)
  then have "snd (f k) = None" by simp
  then obtain k' where "f k = (k', None)" by (metis prod.collapse)
  with Cons show ?case by simp
qed simp

lemma handle_all:
  assumes "\<forall>k \<in> set ks. inv k" and "accepts m"
  shows "run_sinks (so_handle ops m) ks = (map (\<lambda>k. fst (so_handle ops m k)) ks, None)"
    and "\<forall>k \<in> set (map (\<lambda>k. fst (so_handle ops m k)) ks). inv k"
  using assms handle_ok by (auto intro!: run_sinks_ok)

lemma publish_all:
  assumes "\<forall>k \<in> set ks. inv k" and "\<forall>e \<in> set states. accepts (snd e)"
  shows "run_sinks (so_publish ops states) ks = (map (\<lambda>k. fst (so_publish ops states k)) ks, None)"
    and "\<forall>k \<in> set (map (\<lambda>k. fst (so_publish ops states k)) ks). inv k"
proof -
  have "snd (so_publish ops states k) = None \<and> inv (fst (so_publish ops states k))" if "k \<in> set ks" for k
    using that assms by (intro publish_ok) auto
  then show "run_sinks (so_publish ops states) ks = (map (\<lambda>k. fst (so_publish ops states k)) ks, None)"
    and "\<forall>k \<in> set (map (\<lambda>k. fst (so_publish ops states k)) ks). inv k"
    by (auto intro!: run_sinks_ok)
qed

lemma publish_state_ok:
  assumes "sinks_inv ag"
  shows "publish_state ops ag = (ag\<lparr>ag_sinks := map (\<lambda>k. fst (so_publish ops (ag_cache ag) k)) (ag_sinks ag)\<rparr>, None)"
    and "sinks_inv (fst (publish_state ops ag))"
proof -
  have a: "\<forall>k \<in> set (ag_sinks ag). inv k" "\<forall>e \<in> set (ag_cache ag). accepts (snd e)" "agg_inv ag"
    using assms by (auto simp: sinks_inv_def)
  show 1: "publish_state ops ag = (ag\<lparr>ag_sinks := map (\<lambda>k. fst (so_publish ops (ag_cache ag) k)) (ag_sinks ag)\<rparr>, None)"
    by (simp add: publish_state_def publish_all(1) [OF a(1,2)])
  show "sinks_inv (fst (publish_state ops ag))"
    using publish_all(2) [OF a(1,2)] a by (auto simp: 1 sinks_inv_def agg_inv_def)
qed

text \<open>A message is handed to every sink, then every sink gets the snapshot that contains it.\<close>

lemma process_message_ok:
  assumes i: "sinks_inv ag" and m: "accepts m"
  shows "snd (process_message ops clk m now ag) = Inr True"
    and "sinks_inv (fst (process_message ops clk m now ag))"
    and "ag_sinks (fst (process_message ops clk m now ag)) =
      map (\<lambda>k. fst (so_publish ops (dict_set (m_node m) m (ag_cache ag)) (fst (so_handle ops m k)))) (ag_sinks ag)"
proof -
  let ?c = "dict_set (m_node m) m (ag_cache ag)"
  let ?ks = "map (\<lambda>k. fst (so_handle ops m k)) (ag_sinks ag)"
  have a: "\<forall>k \<in> set (ag_sinks ag). inv k" "agg_inv ag" using i by (auto simp: sinks_inv_def)
  have wf: "wf_dict (ag_cache ag)" using a(2) by (simp add: agg_inv_def)
  have acc: "\<forall>e \<in> set ?c. accepts (snd e)" using i m by (auto simp: sinks_inv_def set_dict_set [OF wf])
  note h = handle_all [OF a(1) m]
  note p = publish_all [OF h(2) acc]
  have ps: "publish_state ops a = (a\<lparr>ag_sinks := map (\<lambda>k. fst (so_publish ops ?c k)) ?ks\<rparr>, None)"
    if "ag_cache a = ?c" "ag_sinks a = ?ks" for a :: "('s, 'o) DiagnosticsAggregator"
    using that p(1) by (simp add: publish_state_def)
  have e: "process_message ops clk m now ag =
      ((snd (case now of Some t \<Rightarrow> (t, ag) | None \<Rightarrow> read_clock clk ag))\<lparr>ag_cache := ?c,
          ag_last_seen := dict_set (m_node m) (recv_time clk now ag) (ag_last_seen ag),
          ag_sinks := map (\<lambda>k. fst (so_publish ops ?c k)) ?ks\<rparr>, Inr True)"
    by (cases now) (simp_all add: process_message_def Let_def recv_time_def read_clock_def h(1) ps)
  show "snd (process_message ops clk m now ag) = Inr True" by (simp add: e)
  show s: "ag_sinks (fst (process_message ops clk m now ag)) =
      map (\<lambda>k. fst (so_publish ops ?c (fst (so_handle ops m k)))) (ag_sinks ag)" by (simp add: e)
  have "\<forall>k \<in> set (ag_sinks (fst (process_message ops clk m now ag))). inv k"
    using p(2) by (simp add: s)
  then show "sinks_inv (fst (process_message ops clk m now ag))"
    using acc agg_inv_process_message [OF a(2)] by (simp add: sinks_inv_def process_message_cache)
qed

lemma process_all_ok:
  "sinks_inv ag \<Longrightarrow> (\<And>m. m \<in> set ms \<Longrightarrow> accepts m) \<Longrightarrow>
   snd (process_all ops clk ms ag) = None \<and> sinks_inv (fst (process_all ops clk ms ag))"
proof (induction ms arbitrary: ag)
  case (Cons m ms)
  obtain ag1 r where pm: "process_message ops clk m None ag = (ag1, r)" by fastforce
  have "r = Inr True" "sinks_inv ag1"
    using process_message_ok [OF Cons.prems(1), of m clk None] Cons.prems(2) by (auto simp: pm)
  then show ?case using Cons by (simp add: pm)
qed simp

lemma stale_check_ok:
  assumes "sinks_inv ag"
  shows "snd (stale_check ops clk ag) = None \<and> sinks_inv (fst (stale_check ops clk ag))"
proof -
  obtain now ag1 where rc: "read_clock clk ag = (now, ag1)" by fastforce
  let ?ag1 = "ag1\<lparr>ag_last_check := now\<rparr>"
  have i1: "sinks_inv ag1" "sinks_inv ?ag1" "agg_inv ?ag1"
    using assms rc by (auto simp: read_clock_def sinks_inv_def agg_inv_def)
  note ms = mark_stale_nodes_map [OF i1(3), of now]
  have acc: "\<forall>e \<in> set (ag_cache (fst (mark_stale_nodes now ?ag1))). accepts (snd e)"
    using i1(2) accepts_stale by (auto simp: ms sinks_inv_def aged_def split: option.splits)
  have "sinks_inv (fst (mark_stale_nodes now ?ag1))"
    using acc i1(2) agg_inv_mark_stale [OF i1(3), of now] by (simp add: sinks_inv_def ms)
  moreover obtain ag2 c where "mark_stale_nodes now ?ag1 = (ag2, Inr c)" using ms by blast
  ultimately show ?thesis
    using publish_state_ok [of ag2] i1(1) by (auto simp: stale_check_def rc)
qed

end

text \<open>A source keeps an invariant, raises nothing and delivers messages that satisfy \<open>delivers\<close>.\<close>

locale source_contract =
  fixes sops :: "'o source_ops" and sinv :: "'o \<Rightarrow> bool" and delivers :: "DiagnosticsMessage \<Rightarrow> bool"
  assumes poll_ok: "sinv src \<Longrightarrow> \<exists>src' ms. sr_poll sops t src = (src', Inr ms) \<and> sinv src' \<and> (\<forall>m \<in> set ms. delivers m)"

locale aggregator_contract = sink_contract ops inv accepts + source_contract sops sinv accepts
  for ops :: "'s sink_ops" and inv and accepts and sops :: "'o source_ops" and sinv
begin

lemma poll_sources_ok:
  "sinks_inv ag \<Longrightarrow> (\<And>src. src \<in> set srcs \<Longrightarrow> sinv src) \<Longrightarrow>
   (case poll_sources ops sops clk timeout i srcs b ag of (srcs', ag', r) \<Rightarrow>
      (\<forall>src \<in> set srcs'. sinv src) \<and> sinks_inv ag' \<and> (\<exists>p. r = Inr p))"
proof (induction srcs arbitrary: i b ag)
  case (Cons src srcs)
  obtain src' ms where sr: "sr_poll sops (if i = 0 then timeout else 0) src = (src', Inr ms)" "sinv src'" "\<forall>m \<in> set ms. accepts m"
    using poll_ok [of src "if i = 0 then timeout else 0"] Cons.prems(2) by auto
  obtain ag1 e where pa: "process_all ops clk ms ag = (ag1, e)" by fastforce
  have "e = None" "sinks_inv ag1" using process_all_ok [OF Cons.prems(1), of ms clk] sr(3) by (auto simp: pa)
  then show ?case using Cons.IH [of ag1 "i + 1" "b \<or> ms \<noteq> []"] Cons.prems(2) sr
    by (auto simp: pa split: prod.splits)
qed simp

definition running_ok :: "('s, 'o) DiagnosticsAggregator \<Rightarrow> bool" where
  "running_ok ag = (sinks_inv ag \<and> (\<forall>src \<in> set (ag_sources ag). sinv src))"

lemma sinks_inv_sources [simp]: "sinks_inv (ag\<lparr>ag_sources := os\<rparr>) = sinks_inv ag"
  by (simp add: sinks_inv_def)

lemma poll_once_ok:
  assumes "running_ok ag"
  shows "(\<exists>p. snd (poll_once ops sops clk timeout ag) = Inr p) \<and> running_ok (fst (poll_once ops sops clk timeout ag))"
proof -
  obtain srcs ag1 r where ps: "poll_sources ops sops clk timeout 0 (ag_sources ag) False ag = (srcs, ag1, r)"
    using prod_cases3 by blast
  have "(\<forall>src \<in> set srcs. sinv src) \<and> sinks_inv ag1 \<and> (\<exists>p. r = Inr p)"
    using poll_sources_ok [where ag = ag and srcs = "ag_sources ag" and clk = clk and timeout = timeout and i = 0 and b = False]
      assms by (simp add: running_ok_def ps)
  then obtain p where 1: "\<forall>src \<in> set srcs. sinv src" "sinks_inv ag1" "r = Inr p" by blast
  obtain ag3 e where sc: "stale_check ops clk (ag1\<lparr>ag_sources := srcs\<rparr>) = (ag3, e)" by fastforce
  have "sinks_inv (ag1\<lparr>ag_sources := srcs\<rparr>)" using 1(2) by simp
  from stale_check_ok [OF this, of clk] have "e = None" "sinks_inv ag3" by (simp_all add: sc)
  moreover have "ag_sources ag3 = srcs"
    using stale_check_frame(1) [of ops clk "ag1\<lparr>ag_sources := srcs\<rparr>"] by (simp add: sc)
  moreover note 1
  ultimately show ?thesis by (simp add: poll_once_def ps sc running_ok_def)
qed

lemma running_ok_frame [simp]: "running_ok (stop ag) = running_ok ag"
  by (simp add: running_ok_def stop_def sinks_inv_def agg_inv_def)

text \<open>With these contracts no number of polls raises.\<close>

lemma polls_ok:
  "running_ok ag \<Longrightarrow> snd (polls ops sops clk n ag) = None \<and> running_ok (fst (polls ops sops clk n ag))"
proof (induction n arbitrary: ag)
  case (Suc n)
  obtain ag1 r where po: "poll_once ops sops clk 100 ag = (ag1, r)" by fastforce
  have "\<exists>p. r = Inr p" "running_ok ag1" using poll_once_ok [OF Suc.prems, of clk 100] by (auto simp: po)
  then show ?case using Suc.IH [of ag1] by (auto simp: po)
qed simp

end

subsection \<open>Without a contract\<close>

lemma run_sinks_None: "snd (run_sinks f ks) = None \<Longrightarrow> fst (run_sinks f ks) = map (\<lambda>k. fst (f k)) ks"
proof (induction ks)
  case (Cons k ks)
  obtain k' e where f: "f k = (k', e)" by fastforce
  show ?case using Cons by (cases e) (auto simp: f split: prod.splits)
qed simp

lemma run_sinks_total: "(\<And>k. snd (f k) = None) \<Longrightarrow> run_sinks f ks = (map (\<lambda>k. fst (f k)) ks, None)"
proof (induction ks)
  case (Cons k ks)
  obtain k' where "f k = (k', None)" using Cons.prems [of k] by (metis prod.collapse)
  with Cons show ?case by simp
qed simp

lemma publish_state_sinks:
  "snd (publish_state ops ag) = None \<Longrightarrow>
   ag_sinks (fst (publish_state ops ag)) = map (\<lambda>k. fst (so_publish ops (ag_cache ag) k)) (ag_sinks ag)"
  using run_sinks_None [of "so_publish ops (ag_cache ag)" "ag_sinks ag"]
  by (auto simp: publish_state_def split: prod.splits)

lemma process_message_sinks:
  assumes "snd (process_message ops clk m now ag) = Inr r"
  shows "ag_sinks (fst (process_message ops clk m now ag)) =
      map (\<lambda>k. fst (so_publish ops (dict_set (m_node m) m (ag_cache ag)) (fst (so_handle ops m k)))) (ag_sinks ag)"
    and "r = True"
proof -
  obtain t ag1 where n: "(case now of Some t \<Rightarrow> (t, ag) | None \<Rightarrow> read_clock clk ag) = (t, ag1)" by fastforce
  have f: "ag_sinks ag1 = ag_sinks ag" "ag_cache ag1 = ag_cache ag"
    using n by (auto simp: read_clock_def split: option.splits)
  obtain ks e where h: "run_sinks (so_handle ops m) (ag_sinks ag) = (ks, e)" by fastforce
  let ?a = "ag1\<lparr>ag_cache := dict_set (m_node m) m (ag_cache ag),
      ag_last_seen := dict_set (m_node m) t (ag_last_seen ag1), ag_sinks := ks\<rparr>"
  obtain ag4 e4 where p: "publish_state ops ?a = (ag4, e4)" by fastforce
  have 1: "e = None" "e4 = None" "r = True" "fst (process_message ops clk m now ag) = ag4"
    using assms by (auto simp: process_message_def n f h p Let_def split: option.splits)
  have "ks = map (\<lambda>k. fst (so_handle ops m k)) (ag_sinks ag)"
    using run_sinks_None [of "so_handle ops m" "ag_sinks ag"] 1 by (simp add: h)
  moreover have "ag_sinks ag4 = map (\<lambda>k. fst (so_publish ops (dict_set (m_node m) m (ag_cache ag)) k)) ks"
    using publish_state_sinks [of ops ?a] 1 by (simp add: p)
  ultimately show "ag_sinks (fst (process_message ops clk m now ag)) =
      map (\<lambda>k. fst (so_publish ops (dict_set (m_node m) m (ag_cache ag)) (fst (so_handle ops m k)))) (ag_sinks ag)"
    by (simp add: 1)
  show "r = True" by (rule 1)
qed

lemma process_all_cache:
  "snd (process_all ops clk ms ag) = None \<Longrightarrow>
   dict_get (ag_cache (fst (process_all ops clk ms ag))) =
     dict_get (ag_cache ag) ++ map_of (rev (map (\<lambda>m. (m_node m, m)) ms))"
proof (induction ms arbitrary: ag)
  case (Cons m ms)
  obtain ag1 r where pm: "process_message ops clk m None ag = (ag1, r)" by fastforce
  have c: "ag_cache ag1 = dict_set (m_node m) m (ag_cache ag)"
    using process_message_cache(1) [of ops clk m None ag] by (simp add: pm)
  show ?case
  proof (cases r)
    case (Inr x)
    let ?M = "map_of (rev (map (\<lambda>m. (m_node m, m)) ms))"
    have "snd (process_all ops clk ms ag1) = None" using Cons.prems by (simp add: pm Inr)
    from Cons.IH [OF this] have "dict_get (ag_cache (fst (process_all ops clk (m # ms) ag))) = dict_get (ag_cache ag1) ++ ?M"
      by (simp add: pm Inr)
    also have "\<dots> = (dict_get (ag_cache ag) ++ [m_node m \<mapsto> m]) ++ ?M"
      by (simp only: c dict_get_set map_add_upd map_add_empty)
    also have "\<dots> = dict_get (ag_cache ag) ++ ([m_node m \<mapsto> m] ++ ?M)" by (rule map_add_assoc [symmetric])
    also have "[m_node m \<mapsto> m] ++ ?M = map_of (rev (map (\<lambda>m. (m_node m, m)) (m # ms)))" by simp
    finally show ?thesis .
  qed (use Cons.prems pm in simp)
qed simp

subsection \<open>A recording sink\<close>

text \<open>The sink of the tests: it records what it is given. The witnesses run the aggregator on it.\<close>

type_synonym recorder = "DiagnosticsMessage list \<times> (string, DiagnosticsMessage) dict list"

definition recorder_ops :: "recorder sink_ops" where
  "recorder_ops = \<lparr>so_handle = (\<lambda>m (ms, ss). ((ms @ [m], ss), None)),
     so_publish = (\<lambda>s (ms, ss). ((ms, ss @ [s]), None)), so_close = (\<lambda>k. (k, None))\<rparr>"

definition quiet_source :: "unit source_ops" where
  "quiet_source = \<lparr>sr_poll = (\<lambda>t u. (u, Inr [])), sr_close = (\<lambda>u. (u, None))\<rparr>"

definition demo_msg :: "string \<Rightarrow> int \<Rightarrow> DiagnosticsMessage" where
  "demo_msg node level = \<lparr>m_v = 1, m_node = node, m_hw_id = ''hw'', m_stamp = Fin 1, m_level = NInt level,
     m_msg = ''OK'', m_values = []\<rparr>"

definition demo_agg :: "(recorder, unit) DiagnosticsAggregator" where
  "demo_agg = aggregator_init (\<lambda>n. Fin (real n)) (Fin 5) (Fin 1) (Some [([], [])]) (Some [()]) ()"

subsection \<open>Properties\<close>

text \<open>C1: The state cache and the last-seen table always have the same nodes, and a node's cached
  message is of that node: every operation keeps this, also when a sink or a source raises in
  the middle, and so the lookup of a stale node in the cache never raises KeyError.\<close>

theorem cache_invariant:
  assumes "agg_inv ag"
  shows "agg_inv (fst (process_message ops clk m now ag)) \<and>
    agg_inv (fst (process_raw validate ops clk raw now ag)) \<and>
    agg_inv (fst (poll_once ops sops clk timeout ag)) \<and>
    agg_inv (fst (mark_stale_nodes t ag)) \<and> (\<exists>changed. snd (mark_stale_nodes t ag) = Inr changed)"
proof -
  have "agg_inv (fst (process_raw validate ops clk raw now ag))"
    using assms by (auto simp: process_raw_def split: sum.splits py_exc.splits)
  then show ?thesis
    using agg_inv_process_message [OF assms] agg_inv_poll_once [OF assms] agg_inv_mark_stale [OF assms]
      arg_cong [OF mark_stale_nodes_map [OF assms, of t], of snd] by (simp del: split_paired_Ex)
qed

theorem cache_invariant_witness:
  "agg_inv (fst (process_message recorder_ops (\<lambda>n. Fin 0) (demo_msg ''a'' 2) None demo_agg))"
  using cache_invariant [of demo_agg recorder_ops] by (simp add: demo_agg_def)

text \<open>C2: A stale check at reading \<open>t\<close> turns exactly the nodes last heard of more than the timeout
  ago, and not yet at level 3, into their stale version (level 3, text STALE, stamp \<open>t\<close>, values
  kept); every other entry is untouched, and the order of the nodes too. It reports a change
  exactly when one happened, and a second check at the same reading changes nothing.\<close>

theorem mark_stale_exact:
  assumes "agg_inv ag"
  shows "\<exists>cache' changed. mark_stale_nodes t ag = (ag\<lparr>ag_cache := cache'\<rparr>, Inr changed) \<and>
    keys cache' = keys (ag_cache ag) \<and>
    (changed \<longleftrightarrow> (\<exists>k seen m. dict_get (ag_last_seen ag) k = Some seen \<and> dict_get (ag_cache ag) k = Some m \<and>
       \<not> fle (fsub t seen) (ag_stale_timeout ag) \<and> \<not> num_eq (m_level m) (NInt 3))) \<and>
    (\<forall>k. dict_get cache' k =
      (case (dict_get (ag_cache ag) k, dict_get (ag_last_seen ag) k) of
         (Some m, Some seen) \<Rightarrow>
           Some (if \<not> fle (fsub t seen) (ag_stale_timeout ag) \<and> \<not> num_eq (m_level m) (NInt 3)
                 then stale_version t m else m)
       | _ \<Rightarrow> None)) \<and>
    mark_stale_nodes t (ag\<lparr>ag_cache := cache'\<rparr>) = (ag\<lparr>ag_cache := cache'\<rparr>, Inr False)"
proof -
  let ?f = "aged (ag_stale_timeout ag) t (ag_last_seen ag)"
  define c' where "c' = map ?f (ag_cache ag)"
  let ?ch = "\<exists>e \<in> set (ag_cache ag). \<exists>seen. dict_get (ag_last_seen ag) (fst e) = Some seen \<and>
      goes_stale (ag_stale_timeout ag) t seen (snd e)"
  have ms: "mark_stale_nodes t ag = (ag\<lparr>ag_cache := c'\<rparr>, Inr ?ch)"
    unfolding c'_def by (rule mark_stale_nodes_map [OF assms])
  have k: "keys c' = keys (ag_cache ag)" unfolding c'_def by (rule keys_aged)
  have wf: "wf_dict (ag_cache ag)" using assms by (simp add: agg_inv_def)
  have ch: "?ch \<longleftrightarrow> (\<exists>k seen m. dict_get (ag_last_seen ag) k = Some seen \<and> dict_get (ag_cache ag) k = Some m \<and>
      \<not> fle (fsub t seen) (ag_stale_timeout ag) \<and> \<not> num_eq (m_level m) (NInt 3))"
    by (simp only: Bex_def split_paired_Ex wf_dict_get [OF wf] goes_stale_def expired_def fst_conv snd_conv) blast
  have ls: "set (keys (ag_last_seen ag)) = set (keys (ag_cache ag))" using assms by (simp add: agg_inv_def)
  have get: "dict_get c' k = (case (dict_get (ag_cache ag) k, dict_get (ag_last_seen ag) k) of
         (Some m, Some seen) \<Rightarrow>
           Some (if \<not> fle (fsub t seen) (ag_stale_timeout ag) \<and> \<not> num_eq (m_level m) (NInt 3)
                 then stale_version t m else m)
       | _ \<Rightarrow> None)" for k
    unfolding c'_def by (rule dict_get_aged [OF ls])
  have inv': "agg_inv (ag\<lparr>ag_cache := c'\<rparr>)" unfolding c'_def using assms by (rule agg_inv_aged)
  have idem: "aged (ag_stale_timeout ag) t (ag_last_seen ag) (?f e) = ?f e" for e
    by (auto simp: aged_def goes_stale_def stale_version_def num_eq_def feq_def split: option.splits)
  have nostale: "\<not> goes_stale (ag_stale_timeout ag) t seen (snd (?f e))"
    if "dict_get (ag_last_seen ag) (fst e) = Some seen" for e seen
    using that by (auto simp: aged_def goes_stale_def stale_version_def num_eq_def feq_def)
  have "mark_stale_nodes t (ag\<lparr>ag_cache := c'\<rparr>) = (ag\<lparr>ag_cache := c'\<rparr>, Inr False)"
    unfolding mark_stale_nodes_map [OF inv'] using nostale by (auto simp: c'_def idem)
  with ms k ch get show ?thesis by blast
qed

theorem mark_stale_exact_witness:
  "\<exists>cache'. fst (mark_stale_nodes (Fin 9) (fst (process_message recorder_ops (\<lambda>n. Fin 0) (demo_msg ''a'' 0) None demo_agg)))
     = (fst (process_message recorder_ops (\<lambda>n. Fin 0) (demo_msg ''a'' 0) None demo_agg))\<lparr>ag_cache := cache'\<rparr> \<and>
     dict_get cache' ''a'' = Some (stale_version (Fin 9) (demo_msg ''a'' 0))"
proof -
  obtain ag where ag: "ag = fst (process_message recorder_ops (\<lambda>n. Fin 0) (demo_msg ''a'' 0) None demo_agg)" by blast
  have inv: "agg_inv ag" by (simp add: ag demo_agg_def)
  have c: "ag_cache ag = [(''a'', demo_msg ''a'' 0)]" "ag_last_seen ag = [(''a'', Fin 0)]" "ag_stale_timeout ag = Fin 5"
    by (simp_all add: ag process_message_def recorder_ops_def demo_agg_def aggregator_init_def read_clock_def publish_state_def demo_msg_def)
  have l: "\<not> num_eq (m_level (demo_msg ''a'' 0)) (NInt 3)" by (simp add: demo_msg_def num_eq_def feq_def)
  obtain cache' changed where "mark_stale_nodes (Fin 9) ag = (ag\<lparr>ag_cache := cache'\<rparr>, Inr changed)"
    and "\<forall>k. dict_get cache' k = (case (dict_get (ag_cache ag) k, dict_get (ag_last_seen ag) k) of
         (Some m, Some seen) \<Rightarrow>
           Some (if \<not> fle (fsub (Fin 9) seen) (ag_stale_timeout ag) \<and> \<not> num_eq (m_level m) (NInt 3)
                 then stale_version (Fin 9) m else m)
       | _ \<Rightarrow> None)"
    using mark_stale_exact [OF inv, of "Fin 9"] by blast
  then show ?thesis using spec [of _ "''a''"] l unfolding ag [symmetric] by (auto simp: c)
qed

text \<open>One message, processed without an exception: it becomes the node's cache entry (at the
  node's place, or at the end for a new node) with its receive time, every sink has handled it
  and then been given the snapshot that contains it, in the sinks' order, and the call returns
  True.\<close>

theorem process_message_effect:
  assumes "snd (process_message ops clk m now ag) = Inr r"
  shows "r = True \<and>
    ag_cache (fst (process_message ops clk m now ag)) = dict_set (m_node m) m (ag_cache ag) \<and>
    ag_last_seen (fst (process_message ops clk m now ag)) =
      dict_set (m_node m) (case now of Some t \<Rightarrow> t | None \<Rightarrow> clk (ag_clock ag)) (ag_last_seen ag) \<and>
    ag_sinks (fst (process_message ops clk m now ag)) =
      map (\<lambda>k. fst (so_publish ops (dict_set (m_node m) m (ag_cache ag)) (fst (so_handle ops m k)))) (ag_sinks ag)"
  using process_message_sinks [OF assms] by (simp add: process_message_cache recv_time_def)

theorem process_message_effect_witness:
  "ag_sinks (fst (process_message recorder_ops (\<lambda>n. Fin 0) (demo_msg ''a'' 0) None demo_agg)) =
     [([demo_msg ''a'' 0], [[(''a'', demo_msg ''a'' 0)]])]"
proof -
  have "snd (process_message recorder_ops (\<lambda>n. Fin 0) (demo_msg ''a'' 0) None demo_agg) = Inr True"
    by (simp add: process_message_def recorder_ops_def demo_agg_def aggregator_init_def read_clock_def publish_state_def)
  from process_message_effect [OF this] show ?thesis
    by (simp add: demo_agg_def aggregator_init_def recorder_ops_def demo_msg_def)
qed

text \<open>C29: Processing a sequence of messages without an exception leaves, for every node, its latest
  message of the sequence in the cache, and the earlier entry of a node the sequence does not
  mention: across sources the latest message wins.\<close>

theorem latest_message_wins:
  assumes "snd (process_all ops clk ms ag) = None"
  shows "dict_get (ag_cache (fst (process_all ops clk ms ag))) k =
    (case find (\<lambda>m. m_node m = k) (rev ms) of Some m \<Rightarrow> Some m | None \<Rightarrow> dict_get (ag_cache ag) k)"
proof -
  have "map_of (map (\<lambda>m. (m_node m, m)) xs) k = find (\<lambda>m. m_node m = k) xs" for xs :: "DiagnosticsMessage list"
    by (induction xs) auto
  then show ?thesis
    using fun_cong [OF process_all_cache [OF assms], of k] by (simp add: rev_map map_add_def)
qed

theorem latest_message_wins_witness:
  "dict_get (ag_cache (fst (process_all recorder_ops (\<lambda>n. Fin 0) [demo_msg ''a'' 0, demo_msg ''b'' 1, demo_msg ''a'' 2] demo_agg))) ''a''
     = Some (demo_msg ''a'' 2)"
proof -
  have "snd (process_all recorder_ops (\<lambda>n. Fin 0) [demo_msg ''a'' 0, demo_msg ''b'' 1, demo_msg ''a'' 2] demo_agg) = None"
    by (simp add: process_message_def recorder_ops_def demo_agg_def aggregator_init_def read_clock_def publish_state_def)
  from latest_message_wins [OF this, of "''a''"] show ?thesis by (simp add: demo_msg_def)
qed

text \<open>C30: \<open>run\<close> returns once a stop signal has arrived, whatever the sinks and sources do: the loop
  ends after the poll during which the first signal came, no sooner unless a poll raises, and
  everything is closed; the exception of the closing, if there is one, takes the place of the
  poll's.\<close>

theorem run_returns_on_signal:
  assumes "signals n"
  shows "\<exists>ag1 x ag' e. polls ops sops clk (Suc (LEAST k. signals k)) (ag\<lparr>ag_running := True\<rparr>) = (ag1, x) \<and>
    close_all ops sops (if x = None then stop ag1 else ag1) = (ag', e) \<and>
    run ops sops clk signals ag = Some (ag', if e = None then x else e)"
proof -
  obtain ag1 x where p: "polls ops sops clk (Suc (LEAST k. signals k)) (ag\<lparr>ag_running := True\<rparr>) = (ag1, x)" by fastforce
  obtain ag' e where c: "close_all ops sops (if x = None then stop ag1 else ag1) = (ag', e)" by fastforce
  from run_polls [OF assms p c] p c show ?thesis by blast
qed

text \<open>A signal during poll 3: four polls, and four readings of the clock after the first.\<close>

theorem run_returns_on_signal_witness:
  "\<exists>ag'. run recorder_ops quiet_source (\<lambda>n. Fin (real n)) (\<lambda>k. k = 3) demo_agg = Some (ag', None) \<and>
     ag_clock ag' = 5 \<and> \<not> ag_running ag'"
proof -
  have "(LEAST k. k = (3::nat)) = 3" by (rule Least_equality) auto
  then obtain ag1 x ag' e where r: "polls recorder_ops quiet_source (\<lambda>n. Fin (real n)) 4 (demo_agg\<lparr>ag_running := True\<rparr>) = (ag1, x)"
    "close_all recorder_ops quiet_source (if x = None then stop ag1 else ag1) = (ag', e)"
    "run recorder_ops quiet_source (\<lambda>n. Fin (real n)) (\<lambda>k. k = 3) demo_agg = Some (ag', if e = None then x else e)"
    using run_returns_on_signal [of "\<lambda>k. k = 3" 3 recorder_ops quiet_source "\<lambda>n. Fin (real n)" demo_agg] by auto
  have "x = None \<and> ag_clock ag1 = 5"
    using r(1) by (auto simp: eval_nat_numeral poll_once_def quiet_source_def demo_agg_def aggregator_init_def stale_check_def
        read_clock_def mark_stale_nodes_def Let_def)
  moreover obtain us where "run_sinks (sr_close quiet_source) (ag_sources (stop ag1)) = (us, None)"
    by (simp add: run_sinks_total quiet_source_def)
  moreover have "run_sinks (so_close recorder_ops) (ag_sinks (stop ag1)) = (ag_sinks ag1, None)"
    by (simp add: run_sinks_total recorder_ops_def stop_def)
  ultimately have "ag' = (stop ag1)\<lparr>ag_sinks := ag_sinks ag1, ag_sources := us\<rparr>" "e = None"
    using r(2) by (simp_all add: close_all_def)
  then show ?thesis using r(3) \<open>x = None \<and> ag_clock ag1 = 5\<close> by (simp add: stop_def)
qed

text \<open>Whichever way the loop of \<open>run\<close> ends, by a signal or by an exception of a poll, every sink
  and then every source is closed (as long as closing itself raises nothing), and the
  exception is passed on.\<close>

theorem run_closes_everything:
  assumes "run ops sops clk signals ag = Some (ag', e)"
    and "\<And>k. snd (so_close ops k) = None" and "\<And>src. snd (sr_close sops src) = None"
  shows "\<exists>ag1. run_loop ops sops clk signals 0 (ag\<lparr>ag_running := True\<rparr>) = Some (ag1, e) \<and>
    ag_sinks ag' = map (\<lambda>k. fst (so_close ops k)) (ag_sinks ag1) \<and>
    ag_sources ag' = map (\<lambda>src. fst (sr_close sops src)) (ag_sources ag1) \<and> ag_cache ag' = ag_cache ag1"
  using assms(1)
  by (auto simp: run_def close_all_def run_sinks_total [of "so_close ops", OF assms(2)]
      run_sinks_total [of "sr_close sops", OF assms(3)] split: option.splits)

theorem run_closes_everything_witness:
  "\<exists>ag1 ag' e. run recorder_ops quiet_source (\<lambda>n. Fin (real n)) (\<lambda>k. k = 2) demo_agg = Some (ag', e) \<and>
     run_loop recorder_ops quiet_source (\<lambda>n. Fin (real n)) (\<lambda>k. k = 2) 0 (demo_agg\<lparr>ag_running := True\<rparr>) = Some (ag1, e) \<and>
     ag_sinks ag' = ag_sinks ag1"
proof -
  have cl: "\<And>k. snd (so_close recorder_ops k) = None" "\<And>src. snd (sr_close quiet_source src) = None"
    by (simp_all add: recorder_ops_def quiet_source_def)
  obtain ag' e where r: "run recorder_ops quiet_source (\<lambda>n. Fin (real n)) (\<lambda>k. k = 2) demo_agg = Some (ag', e)"
    using run_Some [of "\<lambda>k. k = 2" 2] by blast
  from run_closes_everything [OF r cl] r show ?thesis by (auto simp: recorder_ops_def)
qed

text \<open>A raw payload handed to the aggregator is processed when it satisfies the schema and
  rejected with False and no effect when it does not, for any clock and sinks; the one
  exception of the validation that is passed on is the OverflowError of an integer time stamp
  no float can hold.\<close>

theorem process_raw_outcomes:
  assumes "validate raw = message_schema raw"
  shows "if \<not> message_schema raw then process_raw validate ops clk raw now ag = (ag, Inr False)
    else if huge_stamp raw then process_raw validate ops clk raw now ag = (ag, Inl OverflowError)
    else \<exists>m. message_ok m \<and> message_of raw m \<and> process_raw validate ops clk raw now ag = process_message ops clk m now ag"
proof (cases "message_schema raw")
  case True
  show ?thesis
  proof (cases "huge_stamp raw")
    case False
    with True normalize_valid [of validate raw, OF assms True] obtain m
      where "validate_and_normalize_message validate raw = Inr m" "message_ok m" "message_of raw m" by auto
    with True False show ?thesis by (auto simp: process_raw_def intro!: exI [of _ m])
  qed (use True normalize_valid [of validate raw, OF assms True] in \<open>simp add: process_raw_def\<close>)
next
  case False
  then show ?thesis using assms by (simp add: process_raw_def normalize_rejected)
qed

theorem process_raw_outcomes_witness:
  "process_raw message_schema recorder_ops (\<lambda>n. Fin 0) (PDict [(''v'', PInt 1)]) None demo_agg = (demo_agg, Inr False)"
  using process_raw_outcomes [of message_schema "PDict [(''v'', PInt 1)]" recorder_ops "\<lambda>n. Fin 0" None demo_agg]
  by (auto simp: message_schema_def has_def)

text \<open>C13: What a poll of the ZMQ source yields, case by case: nothing when nothing came, when the
  bytes do not decode and when the payload violates the schema; for a valid payload exactly one
  message, well-formed and agreeing with the payload field by field; and, for a valid payload
  whose time stamp is an integer no float can hold, the OverflowError that ends the loop.\<close>

theorem zmq_poll_outcomes:
  assumes "\<And>raw. validate raw = message_schema raw"
    and "\<And>d e. loads d = Inl e \<Longrightarrow> \<exists>msg. e = ValueError msg"
  shows "case rcv of None \<Rightarrow> zmq_poll validate loads rcv = Inr []
    | Some d \<Rightarrow> (case loads d of Inl e \<Rightarrow> zmq_poll validate loads rcv = Inr []
      | Inr raw \<Rightarrow>
          if \<not> message_schema raw then zmq_poll validate loads rcv = Inr []
          else if huge_stamp raw then zmq_poll validate loads rcv = Inl OverflowError
          else \<exists>m. message_ok m \<and> message_of raw m \<and> zmq_poll validate loads rcv = Inr [m])"
proof (cases rcv)
  case (Some d)
  show ?thesis
  proof (cases "loads d")
    case (Inl e)
    then show ?thesis using assms(2) [OF Inl] Some by (auto simp: zmq_poll_def)
  next
    case (Inr raw)
    show ?thesis
    proof (cases "message_schema raw")
      case True
      from normalize_valid [of validate raw, OF assms(1) True] show ?thesis using True Some Inr by (auto simp: zmq_poll_def)
    next
      case False
      then show ?thesis using Some Inr assms(1) by (simp add: zmq_poll_def normalize_rejected)
    qed
  qed
qed (simp add: zmq_poll_def)

theorem zmq_poll_outcomes_witness:
  "\<exists>m. message_ok m \<and> message_of demo_raw m \<and> zmq_poll message_schema (\<lambda>_. Inr demo_raw) (Some ()) = Inr [m]"
proof -
  have "\<not> huge_stamp demo_raw" by (simp add: huge_stamp_def demo_raw_def subscript_def)
  then show ?thesis
    using zmq_poll_outcomes [of message_schema "\<lambda>_. Inr demo_raw" "Some ()"] by (auto simp: demo_raw_schema)
qed

definition huge_stamp_raw :: pyval where
  "huge_stamp_raw = PDict [(''v'', PInt 1), (''node'', PStr ''n1''), (''hw_id'', PStr ''hw''),
     (''stamp'', PInt (10 ^ 400)), (''level'', PInt 0), (''msg'', PStr ''OK''), (''values'', PList [])]"

text \<open>The guard misses a case: a payload that satisfies the schema, with the time stamp
  10 to the power 400 (valid JSON), makes the ZMQ poll raise OverflowError, which neither the
  source nor the loop of \<open>run\<close> catches, so one message ends the aggregator.\<close>

theorem huge_stamp_ends_aggregator:
  "message_schema huge_stamp_raw \<and>
   zmq_poll message_schema (\<lambda>_. Inr huge_stamp_raw) (Some ()) = Inl OverflowError \<and>
   process_raw message_schema recorder_ops (\<lambda>n. Fin 0) huge_stamp_raw None demo_agg = (demo_agg, Inl OverflowError)"
proof -
  have s: "message_schema huge_stamp_raw"
    by (simp add: huge_stamp_raw_def message_schema_def has_def is_string_def is_nonempty_string_def is_number_def
        is_level_def is_entries_def num_eq_def feq_def)
  have "float_of_int (10 ^ 400) = Inl OverflowError" by (simp add: float_of_int_def float_bound_def)
  then have "validate_and_normalize_message message_schema huge_stamp_raw = Inl OverflowError"
    using s unfolding validate_and_normalize_message_def
    by (simp add: huge_stamp_raw_def subscript_def iterate_def as_str_def as_num_def del: power_numeral)
  then show ?thesis using s by (simp add: zmq_poll_def process_raw_def)
qed

end
