(* ===== verification/Influx_Sink.thy ===== *)
theory Influx_Sink
  imports Aggregator Rate_Limit "HOL-Library.Multiset" "HOL-Library.Sublist"
begin

text \<open>
  \<^verbatim>\<open>sinks/influxdb_sink.py\<close>: points are buffered per message and written as a batch at most once
  a second. \<open>influx_env\<close> holds the readings of the two clocks and the outcome of each call of
  the write API (a package), \<open>str_other\<close> the text \<open>str()\<close> gives a value that is neither a
  string, an integer, a boolean nor None. \<open>ix_batches\<close> is the trace of the write calls, each
  with its outcome: a call that fails is logged and its points are dropped. The lemmas show the
  point a message becomes, that every point is handed to exactly one write call and what becomes
  of it, the rate, and which message makes the sink raise.
\<close>

record influx_env =
  ie_time :: clock
  ie_mono :: clock
  ie_write :: "nat \<Rightarrow> bool"

record influx_point =
  pt_measurement :: string
  pt_tags :: "(string, string) dict"
  pt_fields :: "(string, pyval) dict"
  pt_time :: int

record influx_sink =
  ix_enabled :: bool
  ix_bucket :: string
  ix_org :: string
  ix_client :: "bool option"
  ix_has_api :: bool
  ix_pending :: "influx_point list"
  ix_last_flush :: pyfloat
  ix_n_time :: nat
  ix_n_mono :: nat
  ix_batches :: "(influx_point list \<times> bool) list"

definition flush_interval :: pyfloat where
  "flush_interval = Fin 1"

text \<open>
  \<open>__init__\<close>: \<open>api_given\<close> is an injected write API, \<open>importable\<close> whether the client package is
  installed.
\<close>

definition influx_init :: "bool \<Rightarrow> string \<Rightarrow> string \<Rightarrow> string \<Rightarrow> string \<Rightarrow> bool \<Rightarrow> bool \<Rightarrow> influx_sink" where
  "influx_init enabled url token org bucket api_given importable =
     (let s = \<lparr>ix_enabled = enabled, ix_bucket = bucket, ix_org = org, ix_client = None, ix_has_api = api_given,
               ix_pending = [], ix_last_flush = f0, ix_n_time = 0, ix_n_mono = 0, ix_batches = []\<rparr>
      in if \<not> enabled then s
         else if api_given then s
         else if \<not> (url \<noteq> [] \<and> token \<noteq> [] \<and> org \<noteq> [] \<and> bucket \<noteq> []) then s\<lparr>ix_enabled := False\<rparr>
         else if \<not> importable then s\<lparr>ix_enabled := False\<rparr>
         else s\<lparr>ix_client := Some True, ix_has_api := True\<rparr>)"

definition field_value :: "(pyval \<Rightarrow> string) \<Rightarrow> pyval \<Rightarrow> pyval result" where
  "field_value str_other v =
     (case py_float v of
        Inr f \<Rightarrow> Inr (PFloat f)
      | Inl (ValueError _) \<Rightarrow> Inr (PStr (py_str str_other v))
      | Inl (TypeError _) \<Rightarrow> Inr (PStr (py_str str_other v))
      | Inl e \<Rightarrow> Inl e)"

fun add_fields :: "(pyval \<Rightarrow> string) \<Rightarrow> DiagnosticKeyValue list \<Rightarrow> (string, pyval) dict \<Rightarrow> (string, pyval) dict result" where
  "add_fields str_other [] acc = Inr acc"
| "add_fields str_other (kv # kvs) acc =
     bindE (field_value str_other (kv_value kv)) (\<lambda>v. add_fields str_other kvs (dict_set (kv_key kv) v acc))"

definition path_parts :: "string \<Rightarrow> string list" where
  "path_parts path = filter (\<lambda>p. p \<noteq> []) (split_on (CHR ''/'') path)"

definition influx_point_of :: "(pyval \<Rightarrow> string) \<Rightarrow> pyfloat \<Rightarrow> DiagnosticsMessage \<Rightarrow> influx_point result" where
  "influx_point_of str_other now message =
     (let path = m_node message; parts = path_parts path; n = length parts in
      bindE (add_fields str_other (m_values message) [(''level'', PNum (m_level message))]) (\<lambda>fields0.
        let fields = (if m_msg message \<noteq> [] then dict_set ''message'' (PStr (m_msg message)) fields0 else fields0);
            measurement = (if parts \<noteq> [] then parts ! (n - 1) else ''unknown'');
            name = (if n \<ge> 2 then parts ! (n - 2) else measurement);
            component = join ''/'' (take (n - 2) parts)
        in bindE (int_of_float (fmul (Fin (10 ^ 9)) now)) (\<lambda>t.
             Inr \<lparr>pt_measurement = measurement,
                  pt_tags = [(''hw_id'', if m_hw_id message \<noteq> [] then m_hw_id message else ''unknown''),
                             (''path'', path), (''name'', name), (''component'', component)],
                  pt_fields = fields, pt_time = t\<rparr>)))"

text \<open>The clock is read while the point is built, after the fields.\<close>

definition influx_handle ::
  "influx_env \<Rightarrow> (pyval \<Rightarrow> string) \<Rightarrow> DiagnosticsMessage \<Rightarrow> influx_sink \<Rightarrow> influx_sink \<times> py_exc option" where
  "influx_handle env str_other message s =
     (if \<not> ix_enabled s \<or> \<not> ix_has_api s then (s, None)
      else (case add_fields str_other (m_values message) [(''level'', PNum (m_level message))] of
              Inl e \<Rightarrow> (s, Some e)
            | Inr _ \<Rightarrow>
                (let s1 = s\<lparr>ix_n_time := ix_n_time s + 1\<rparr> in
                 case influx_point_of str_other (ie_time env (ix_n_time s)) message of
                   Inl e \<Rightarrow> (s1, Some e)
                 | Inr pt \<Rightarrow> (s1\<lparr>ix_pending := ix_pending s1 @ [pt]\<rparr>, None))))"

definition flush_due :: "influx_sink \<Rightarrow> pyfloat \<Rightarrow> bool" where
  "flush_due s now = (\<not> flt (fsub now (ix_last_flush s)) flush_interval)"

definition write_batch :: "influx_env \<Rightarrow> influx_point list \<Rightarrow> influx_sink \<Rightarrow> influx_sink" where
  "write_batch env points s = s\<lparr>ix_batches := ix_batches s @ [(points, ie_write env (length (ix_batches s)))]\<rparr>"

definition influx_flush :: "influx_env \<Rightarrow> influx_sink \<Rightarrow> influx_sink" where
  "influx_flush env s =
     (if ix_pending s = [] then s
      else
        (let now = ie_mono env (ix_n_mono s); s1 = s\<lparr>ix_n_mono := ix_n_mono s + 1\<rparr> in
         if \<not> flush_due s1 now then s1
         else write_batch env (ix_pending s1) (s1\<lparr>ix_pending := [], ix_last_flush := now\<rparr>)))"

definition influx_publish ::
  "influx_env \<Rightarrow> (string, DiagnosticsMessage) dict \<Rightarrow> influx_sink \<Rightarrow> influx_sink \<times> py_exc option" where
  "influx_publish env states s = (influx_flush env s, None)"

definition influx_close :: "influx_env \<Rightarrow> influx_sink \<Rightarrow> influx_sink \<times> py_exc option" where
  "influx_close env s =
     (let s1 = (if ix_pending s \<noteq> [] \<and> ix_enabled s \<and> ix_has_api s then write_batch env (ix_pending s) s else s)
      in (case ix_client s1 of None \<Rightarrow> s1 | Some _ \<Rightarrow> s1\<lparr>ix_client := Some False\<rparr>, None))"

definition influx_ops :: "influx_env \<Rightarrow> (pyval \<Rightarrow> string) \<Rightarrow> influx_sink sink_ops" where
  "influx_ops env str_other =
     \<lparr>so_handle = influx_handle env str_other, so_publish = influx_publish env, so_close = influx_close env\<rparr>"

subsection \<open>Which messages the sink accepts\<close>

text \<open>
  \<open>float()\<close> of a value raises ValueError or TypeError, which the sink catches, or
  OverflowError for an integer too large, which it does not.
\<close>

definition convertible :: "pyval \<Rightarrow> bool" where
  "convertible v = (case v of PNum (NInt i) \<Rightarrow> \<bar>i\<bar> < float_bound | _ \<Rightarrow> True)"

definition influx_accepts :: "DiagnosticsMessage \<Rightarrow> bool" where
  "influx_accepts m = (\<forall>kv \<in> set (m_values m). convertible (kv_value kv))"

lemma field_value_ok_iff: "(\<exists>r. field_value str_other v = Inr r) \<longleftrightarrow> convertible v"
proof (cases v)
  case (PNum n)
  then show ?thesis
    by (cases n) (auto simp: field_value_def convertible_def float_of_int_def)
qed (auto simp: field_value_def convertible_def split: option.splits)

lemma field_value_error: "field_value str_other v = Inl e \<Longrightarrow> e = OverflowError"
proof (cases v)
  case (PNum n)
  then show "field_value str_other v = Inl e \<Longrightarrow> e = OverflowError"
    by (cases n) (auto simp: field_value_def float_of_int_def split: if_splits)
qed (auto simp: field_value_def split: option.splits)

lemma add_fields_ok:
  "(\<forall>kv \<in> set kvs. convertible (kv_value kv)) \<Longrightarrow> \<exists>r. add_fields str_other kvs acc = Inr r"
proof (induction kvs arbitrary: acc)
  case (Cons kv kvs)
  then obtain v where "field_value str_other (kv_value kv) = Inr v"
    using field_value_ok_iff [of str_other "kv_value kv"] by auto
  with Cons show ?case by simp
qed simp

lemma add_fields_error: "add_fields str_other kvs acc = Inl e \<Longrightarrow> e = OverflowError \<and> (\<exists>kv \<in> set kvs. \<not> convertible (kv_value kv))"
proof (induction kvs arbitrary: acc)
  case (Cons kv kvs)
  show ?case
  proof (cases "field_value str_other (kv_value kv)")
    case (Inl e')
    then show ?thesis using Cons.prems field_value_error [OF Inl] field_value_ok_iff [of str_other "kv_value kv"] by auto
  next
    case (Inr v)
    then show ?thesis using Cons by auto
  qed
qed simp

lemma point_time_ok: "isfinite t \<Longrightarrow> \<exists>i. int_of_float (fmul (Fin (10 ^ 9)) t) = Inr i"
  by (cases t) auto

lemma influx_point_ok:
  "influx_accepts m \<Longrightarrow> isfinite now \<Longrightarrow> \<exists>pt. influx_point_of str_other now m = Inr pt"
  using add_fields_ok [of "m_values m" str_other "[(''level'', PNum (m_level m))]"] point_time_ok [of now]
  by (auto simp: influx_point_of_def influx_accepts_def Let_def)

lemma influx_handle_ok:
  "influx_accepts m \<Longrightarrow> \<forall>n. isfinite (ie_time env n) \<Longrightarrow> snd (influx_handle env str_other m s) = None"
  using influx_point_ok [of m "ie_time env (ix_n_time s)" str_other]
    add_fields_ok [of "m_values m" str_other "[(''level'', PNum (m_level m))]"]
  by (auto simp: influx_handle_def influx_accepts_def Let_def split: sum.splits)

text \<open>The sink meets the aggregator's contract as long as its wall clock reads finite values.\<close>

interpretation influx: sink_contract "influx_ops env str_other" "\<lambda>s. \<forall>n. isfinite (ie_time env n)" influx_accepts
  for env :: influx_env and str_other
  by unfold_locales
    (auto simp: influx_ops_def influx_publish_def influx_close_def influx_handle_ok influx_accepts_def
      stale_version_def Let_def)

subsection \<open>The flush as a rate limiter\<close>

definition flush_mark :: "influx_sink \<Rightarrow> pyfloat \<Rightarrow> influx_sink" where
  "flush_mark s now = s\<lparr>ix_last_flush := now\<rparr>"

interpretation influx_rate: rate_limiter flush_due flush_mark "\<lambda>s. Some (ix_last_flush s)" "\<lambda>s. flush_interval" "\<lambda>t. True"
  by unfold_locales (auto simp: flush_due_def flush_mark_def)

subsection \<open>A run of the sink\<close>

text \<open>
  The calls the aggregator makes: a message, or a publish of the states. An exception ends the
  run. \<open>fires\<close> lists the readings at which a flush wrote a batch.
\<close>

datatype influx_event = Handled DiagnosticsMessage | Published

fun influx_run ::
  "influx_env \<Rightarrow> (pyval \<Rightarrow> string) \<Rightarrow> influx_event list \<Rightarrow> influx_sink \<Rightarrow> influx_sink \<times> py_exc option \<times> pyfloat list" where
  "influx_run env str_other [] s = (s, None, [])"
| "influx_run env str_other (Handled m # es) s =
     (case influx_handle env str_other m s of
        (s1, Some e) \<Rightarrow> (s1, Some e, [])
      | (s1, None) \<Rightarrow> influx_run env str_other es s1)"
| "influx_run env str_other (Published # es) s =
     (let s1 = influx_flush env s; (s2, e, ts) = influx_run env str_other es s1
      in (s2, e, if ix_batches s1 \<noteq> ix_batches s then ie_mono env (ix_n_mono s) # ts else ts))"

definition handled_of :: "influx_event list \<Rightarrow> DiagnosticsMessage list" where
  "handled_of es = concat (map (\<lambda>e. case e of Handled m \<Rightarrow> [m] | Published \<Rightarrow> []) es)"

definition all_points :: "influx_sink \<Rightarrow> influx_point list" where
  "all_points s = concat (map fst (ix_batches s)) @ ix_pending s"

definition live :: "influx_sink \<Rightarrow> bool" where
  "live s = (ix_enabled s \<and> ix_has_api s)"

lemma live_flush: "live s \<Longrightarrow> live (influx_flush env s) \<and> all_points (influx_flush env s) = all_points s"
  by (auto simp: influx_flush_def live_def all_points_def write_batch_def Let_def)

lemma live_handle:
  "live s \<Longrightarrow> influx_handle env str_other m s = (s1, None) \<Longrightarrow>
   live s1 \<and> (\<exists>pt. influx_point_of str_other (ie_time env (ix_n_time s)) m = Inr pt \<and> all_points s1 = all_points s @ [pt])"
  by (auto simp: influx_handle_def live_def all_points_def Let_def split: sum.splits)

lemma influx_run_points:
  "live s \<Longrightarrow> influx_run env str_other es s = (s', None, ts) \<Longrightarrow>
   live s' \<and> (\<exists>pts. all_points s' = all_points s @ pts \<and>
     list_all2 (\<lambda>m pt. \<exists>t. influx_point_of str_other t m = Inr pt) (handled_of es) pts)"
proof (induction es arbitrary: s ts)
  case Nil
  then show ?case by (auto simp: handled_of_def)
next
  case (Cons e es)
  show ?case
  proof (cases e)
    case Published
    then show ?thesis
      using Cons.prems live_flush [OF Cons.prems(1), of env] Cons.IH [of "influx_flush env s"]
      by (auto simp: Let_def handled_of_def split: prod.splits)
  next
    case (Handled m)
    with Cons.prems(2) obtain s1 where s1: "influx_handle env str_other m s = (s1, None)"
      and run: "influx_run env str_other es s1 = (s', None, ts)"
      by (auto split: prod.splits option.splits)
    from live_handle [OF Cons.prems(1) s1] obtain pt
      where pt: "live s1" "influx_point_of str_other (ie_time env (ix_n_time s)) m = Inr pt"
        "all_points s1 = all_points s @ [pt]" by blast
    from Cons.IH [OF pt(1) run] obtain pts
      where "live s'" and "all_points s' = all_points s1 @ pts"
        and "list_all2 (\<lambda>m pt. \<exists>t. influx_point_of str_other t m = Inr pt) (handled_of es) pts" by blast
    then have "live s' \<and> all_points s' = all_points s @ (pt # pts) \<and>
        list_all2 (\<lambda>m pt. \<exists>t. influx_point_of str_other t m = Inr pt) (handled_of (e # es)) (pt # pts)"
      using pt Handled by (auto simp: handled_of_def)
    then show ?thesis by blast
  qed
qed

lemma close_points:
  "live s \<Longrightarrow> concat (map fst (ix_batches (fst (influx_close env s)))) = all_points s"
  by (auto simp: influx_close_def live_def all_points_def write_batch_def Let_def split: option.splits)

text \<open>
  What a trace of write calls means for the database: the points of the calls that succeeded are
  stored, those of a call that failed are dropped.
\<close>

definition stored_points :: "influx_sink \<Rightarrow> influx_point list" where
  "stored_points s = concat (map fst (filter snd (ix_batches s)))"

definition dropped_points :: "influx_sink \<Rightarrow> influx_point list" where
  "dropped_points s = concat (map fst (filter (\<lambda>b. \<not> snd b) (ix_batches s)))"

lemma stored_dropped: "mset (stored_points s) + mset (dropped_points s) = mset (concat (map fst (ix_batches s)))"
proof -
  have "mset (concat (map fst (filter snd bs))) + mset (concat (map fst (filter (\<lambda>b. \<not> snd b) bs))) =
      mset (concat (map fst bs))" for bs :: "(influx_point list \<times> bool) list"
    by (induction bs) (auto simp: ac_simps)
  then show ?thesis by (simp add: stored_points_def dropped_points_def)
qed

lemma stored_subseq: "subseq (stored_points s) (concat (map fst (ix_batches s)))"
proof -
  have "subseq (concat (map fst (filter snd bs))) (concat (map fst bs))" for bs :: "(influx_point list \<times> bool) list"
    by (induction bs) (auto intro: list_emb_append_mono subseq_drop_many)
  then show ?thesis by (simp add: stored_points_def)
qed

text \<open>The trace is honest: no call is empty, and the \<open>n\<close>-th has the outcome of the \<open>n\<close>-th write.\<close>

definition trace_ok :: "influx_env \<Rightarrow> influx_sink \<Rightarrow> bool" where
  "trace_ok env s = (list_all (\<lambda>b. fst b \<noteq> []) (ix_batches s) \<and>
     map snd (ix_batches s) = map (ie_write env) [0..<length (ix_batches s)])"

lemma trace_ok_write: "trace_ok env s \<Longrightarrow> pts \<noteq> [] \<Longrightarrow> trace_ok env (write_batch env pts s)"
  by (simp add: trace_ok_def write_batch_def)

lemma trace_ok_cong: "ix_batches a = ix_batches b \<Longrightarrow> trace_ok env a = trace_ok env b"
  by (simp add: trace_ok_def)

lemma trace_ok_flush: "trace_ok env s \<Longrightarrow> trace_ok env (influx_flush env s)"
  by (auto simp: influx_flush_def Let_def trace_ok_def intro!: trace_ok_write [unfolded trace_ok_def])

lemma trace_ok_handle: "trace_ok env s \<Longrightarrow> trace_ok env (fst (influx_handle env str_other m s))"
  by (auto simp: influx_handle_def trace_ok_def Let_def split: sum.splits)

lemma trace_ok_run: "trace_ok env s \<Longrightarrow> trace_ok env (fst (influx_run env str_other es s))"
proof (induction es arbitrary: s)
  case (Cons e es)
  show ?case
  proof (cases e)
    case (Handled m)
    then show ?thesis using Cons.IH trace_ok_handle [OF Cons.prems, of str_other m]
      by (auto split: prod.splits option.splits)
  next
    case Published
    then show ?thesis using Cons.IH [OF trace_ok_flush [OF Cons.prems]] by (auto simp: Let_def split: prod.splits)
  qed
qed simp

lemma trace_ok_close: "trace_ok env s \<Longrightarrow> trace_ok env (fst (influx_close env s))"
  using trace_ok_write [of env s "ix_pending s"]
  by (auto simp: influx_close_def Let_def trace_ok_def split: option.splits)

lemma all_stored:
  assumes "trace_ok env s" and "\<forall>n. ie_write env n"
  shows "stored_points s = concat (map fst (ix_batches s))"
proof -
  have "snd b" if "b \<in> set (ix_batches s)" for b
    using imageI [OF that, of snd] assms unfolding set_map [symmetric] trace_ok_def by auto
  then have "filter snd (ix_batches s) = ix_batches s" by (intro filter_True) blast
  then show ?thesis by (simp add: stored_points_def)
qed

lemma flush_fires:
  "ix_batches (influx_flush env s) \<noteq> ix_batches s \<longleftrightarrow> ix_pending s \<noteq> [] \<and> flush_due s (ie_mono env (ix_n_mono s))"
  by (auto simp: influx_flush_def write_batch_def flush_due_def Let_def)

lemma fired_cong_flush:
  "ix_last_flush a = ix_last_flush b \<Longrightarrow> influx_rate.fired a rs = influx_rate.fired b rs"
proof (induction rs arbitrary: a b)
  case (Cons r rs)
  obtain d c x where r: "r = (d, c, x)" using prod_cases3 by blast
  have "influx_rate.fired (flush_mark a c) rs = influx_rate.fired (flush_mark b c) rs"
    by (rule Cons.IH) (simp add: flush_mark_def)
  moreover have "influx_rate.fired a rs = influx_rate.fired b rs" by (rule Cons.IH) (rule Cons.prems)
  moreover have "flush_due a d = flush_due b d" using Cons.prems by (simp add: flush_due_def)
  ultimately show ?case by (simp add: r)
qed simp

lemma influx_run_fired:
  "\<exists>rs. map (\<lambda>t. (t, t)) (snd (snd (influx_run env str_other es s))) = influx_rate.fired s rs"
proof (induction es arbitrary: s)
  case Nil
  have "map (\<lambda>t. (t, t)) (snd (snd (influx_run env str_other [] s))) = influx_rate.fired s []" by simp
  then show ?case ..
next
  case (Cons e es)
  show ?case
  proof (cases e)
    case Published
    let ?s1 = "influx_flush env s" and ?t = "ie_mono env (ix_n_mono s)"
    obtain rs where rs: "map (\<lambda>t. (t, t)) (snd (snd (influx_run env str_other es ?s1))) = influx_rate.fired ?s1 rs"
      using Cons.IH by blast
    have 1: "ix_last_flush ?s1 = (if ix_pending s \<noteq> [] \<and> flush_due s ?t then ?t else ix_last_flush s)"
      by (simp add: influx_flush_def write_batch_def flush_due_def Let_def)
    have "influx_rate.fired s ((?t, ?t, ix_pending s \<noteq> []) # rs) =
        map (\<lambda>t. (t, t)) (snd (snd (influx_run env str_other (e # es) s)))"
    proof (cases "ix_pending s \<noteq> [] \<and> flush_due s ?t")
      case True
      then have "influx_rate.fired ?s1 rs = influx_rate.fired (flush_mark s ?t) rs"
        using 1 by (intro fired_cong_flush) (simp add: flush_mark_def)
      with True show ?thesis using Published rs flush_fires [of env s] by (auto simp: Let_def split: prod.splits)
    next
      case False
      then have "influx_rate.fired ?s1 rs = influx_rate.fired s rs"
        using 1 by (intro fired_cong_flush) auto
      with False show ?thesis using Published rs flush_fires [of env s] by (auto simp: Let_def split: prod.splits)
    qed
    then show ?thesis by metis
  next
    case (Handled m)
    obtain s1 x where h: "influx_handle env str_other m s = (s1, x)" by fastforce
    have l: "ix_last_flush s1 = ix_last_flush s"
      using h by (auto simp: influx_handle_def Let_def split: if_splits sum.splits)
    obtain rs where "map (\<lambda>t. (t, t)) (snd (snd (influx_run env str_other es s1))) = influx_rate.fired s1 rs"
      using Cons.IH by blast
    then have rs: "map (\<lambda>t. (t, t)) (snd (snd (influx_run env str_other es s1))) = influx_rate.fired s rs"
      using fired_cong_flush [OF l] by simp
    show ?thesis
    proof (cases x)
      case None
      then show ?thesis using Handled h rs by auto
    next
      case (Some y)
      then have "map (\<lambda>t. (t, t)) (snd (snd (influx_run env str_other (e # es) s))) = influx_rate.fired s []"
        using Handled h by simp
      then show ?thesis ..
    qed
  qed
qed

lemma add_fields_convertible:
  "add_fields str_other kvs acc = Inr r \<Longrightarrow> \<forall>kv \<in> set kvs. convertible (kv_value kv)"
  using field_value_ok_iff [of str_other]
  by (induction kvs arbitrary: acc) (fastforce simp: bindE_Inr_iff)+

lemma path_parts_segment: "p \<in> set (path_parts s) \<Longrightarrow> p \<noteq> [] \<and> CHR ''/'' \<notin> set p"
  by (auto simp: path_parts_def dest: split_on_no_sep)

lemma path_parts_join:
  "(\<And>p. p \<in> set ps \<Longrightarrow> p \<noteq> [] \<and> CHR ''/'' \<notin> set p) \<Longrightarrow> path_parts (join ''/'' ps) = ps"
  by (cases "ps = []") (auto simp: path_parts_def split_on_join intro!: filter_True)

lemma path_parts_take: "path_parts (join ''/'' (take n (path_parts s))) = take n (path_parts s)"
  by (rule path_parts_join) (auto dest: in_set_takeD path_parts_segment)

lemma take_two_last: "2 \<le> length xs \<Longrightarrow> take (length xs - 2) xs @ [xs ! (length xs - 2), xs ! (length xs - 1)] = xs"
  by (induction xs rule: rev_induct) (auto simp: nth_append Suc_le_length_iff take_Cons' gr0_conv_Suc neq_Nil_conv
      intro: rev_cases)

subsection \<open>Properties\<close>

definition demo_influx_env :: influx_env where
  "demo_influx_env = \<lparr>ie_time = (\<lambda>n. Fin 1), ie_mono = (\<lambda>n. Fin (10 + real n / 2)), ie_write = (\<lambda>n. n \<noteq> 0)\<rparr>"

definition demo_influx :: influx_sink where
  "demo_influx = influx_init True ''u'' ''t'' ''o'' ''b'' False True"

definition demo_point :: "string \<Rightarrow> pyval \<Rightarrow> DiagnosticsMessage" where
  "demo_point node v = \<lparr>m_v = 1, m_node = node, m_hw_id = [], m_stamp = f0, m_level = NInt 0, m_msg = ''OK'',
     m_values = [\<lparr>kv_key = ''x'', kv_value = v\<rparr>]\<rparr>"

text \<open>C9: Every message reaches the write API once, and only a failed write loses it. Whatever the
  order of messages and publishes and the outcome of each write call, once the sink is closed the
  batches handed to the write API, one after the other, are one point for each message handled,
  in order; no call is empty, and the \<open>n\<close>-th has the outcome of the \<open>n\<close>-th write. Each point is
  either stored, in the order of the messages, or dropped, once: the dropped points are those of
  the batches whose write failed. When every write succeeds, every message is stored once.\<close>

theorem influx_points_accounted:
  assumes "influx_init enabled url token org bucket given importable = s" and "live s"
    and "influx_run env str_other es s = (s', None, ts)"
  shows "\<exists>pts. list_all2 (\<lambda>m pt. \<exists>t. influx_point_of str_other t m = Inr pt) (handled_of es) pts \<and>
    (case fst (influx_close env s') of s'' \<Rightarrow>
      concat (map fst (ix_batches s'')) = pts \<and> list_all (\<lambda>b. fst b \<noteq> []) (ix_batches s'') \<and>
      map snd (ix_batches s'') = map (ie_write env) [0..<length (ix_batches s'')] \<and>
      mset pts = mset (stored_points s'') + mset (dropped_points s'') \<and> subseq (stored_points s'') pts \<and>
      (if \<forall>n. ie_write env n then stored_points s'' = pts else True))"
proof -
  have "ix_pending s = [] \<and> ix_batches s = []" unfolding assms(1) [symmetric] influx_init_def Let_def by simp
  then have p: "all_points s = []" and t: "trace_ok env s" by (simp_all add: all_points_def trace_ok_def)
  let ?s = "fst (influx_close env s')" and ?pts = "concat (map fst (ix_batches (fst (influx_close env s'))))"
  have t': "trace_ok env ?s" using trace_ok_close trace_ok_run [OF t, of str_other es] assms(3) by simp
  have "list_all2 (\<lambda>m pt. \<exists>t. influx_point_of str_other t m = Inr pt) (handled_of es) ?pts"
    using influx_run_points [OF assms(2,3)] close_points p by force
  moreover have "stored_points ?s = ?pts" if "\<forall>n. ie_write env n"
    by (rule all_stored [OF t' that])
  ultimately show ?thesis
    using t' stored_dropped [of ?s] stored_subseq [of ?s] by (auto simp: trace_ok_def)
qed

text \<open>The first write fails and drops the first message; the second is written by \<open>close\<close>.\<close>

theorem influx_points_accounted_witness:
  "\<exists>pts s''. list_all2 (\<lambda>m pt. \<exists>t. influx_point_of (\<lambda>v. []) t m = Inr pt) [demo_point ''/a/b'' (PInt 1), demo_point ''/a/c'' PNone] pts \<and>
     s'' = fst (influx_close demo_influx_env (fst (influx_run demo_influx_env (\<lambda>v. [])
       [Handled (demo_point ''/a/b'' (PInt 1)), Published, Handled (demo_point ''/a/c'' PNone), Published] demo_influx))) \<and>
     mset pts = mset (stored_points s'') + mset (dropped_points s'') \<and>
     map pt_measurement (dropped_points s'') = [''b''] \<and> map pt_measurement (stored_points s'') = [''c'']"
proof -
  let ?es = "[Handled (demo_point ''/a/b'' (PInt 1)), Published, Handled (demo_point ''/a/c'' PNone), Published]"
  obtain s' e ts where r: "influx_run demo_influx_env (\<lambda>v. []) ?es demo_influx = (s', e, ts)" using prod_cases3 by blast
  let ?s = "fst (influx_close demo_influx_env s')"
  have parts: "path_parts ''/a/b'' = [''a'', ''b'']" "path_parts ''/a/c'' = [''a'', ''c'']"
    by (simp_all add: path_parts_def)
  have e: "e = None \<and> map pt_measurement (dropped_points ?s) = [''b''] \<and> map pt_measurement (stored_points ?s) = [''c'']"
    using r by (auto simp: demo_influx_def influx_init_def demo_point_def influx_handle_def influx_point_of_def field_value_def
        float_of_int_small demo_influx_env_def influx_flush_def flush_due_def write_batch_def flush_interval_def parts
        influx_close_def dropped_points_def stored_points_def Let_def split: prod.splits)
  then have r': "influx_run demo_influx_env (\<lambda>v. []) ?es demo_influx = (s', None, ts)" using r by simp
  have "live demo_influx" by (simp add: demo_influx_def influx_init_def live_def)
  from influx_points_accounted [OF demo_influx_def [symmetric] this r'] e r show ?thesis
    by (auto simp: handled_of_def)
qed

text \<open>Batches are written at least one second apart: for two consecutive flushes that write, the
  monotonic readings at which they happen differ by no less than the flush interval.\<close>

theorem influx_flushes_spaced:
  "successively (\<lambda>t u. \<not> flt (fsub u t) (Fin 1)) (snd (snd (influx_run env str_other es s)))"
proof -
  obtain rs where "map (\<lambda>t. (t, t)) (snd (snd (influx_run env str_other es s))) = influx_rate.fired s rs"
    using influx_run_fired by blast
  then have "successively (influx_rate.spaced flush_interval) (map (\<lambda>t. (t, t)) (snd (snd (influx_run env str_other es s))))"
    using influx_rate.fired_spaced [of rs s] by simp
  then show ?thesis by (simp add: successively_map influx_rate.spaced_def flush_interval_def)
qed

text \<open>C31: Handling a message raises exactly when one of its values is an integer that no float can
  hold, and then OverflowError: the handler of the conversion catches only ValueError and
  TypeError. The schema admits such a message, so the aggregator's loop ends on it.\<close>

theorem influx_overflow_only:
  assumes "live s" and "\<And>n. isfinite (ie_time env n)"
  shows "snd (influx_handle env str_other m s) = (if influx_accepts m then None else Some OverflowError)"
proof (cases "influx_accepts m")
  case True
  then show ?thesis using influx_handle_ok assms(2) by simp
next
  case False
  obtain e where e: "add_fields str_other (m_values m) [(''level'', PNum (m_level m))] = Inl e"
  proof (cases "add_fields str_other (m_values m) [(''level'', PNum (m_level m))]")
    case (Inr r)
    then show thesis using False add_fields_convertible [OF Inr] by (simp add: influx_accepts_def)
  qed
  then show ?thesis using False add_fields_error [OF e] assms(1) by (simp add: influx_handle_def live_def)
qed

theorem influx_overflow_only_witness:
  "snd (influx_handle demo_influx_env (\<lambda>v. []) (demo_point ''n'' (PInt (10 ^ 400))) demo_influx) = Some OverflowError"
proof -
  have "\<not> influx_accepts (demo_point ''n'' (PInt (10 ^ 400)))"
    by (simp add: influx_accepts_def demo_point_def convertible_def float_bound_def)
  then show ?thesis
    using influx_overflow_only [of demo_influx demo_influx_env "\<lambda>v. []" "demo_point ''n'' (PInt (10 ^ 400))"]
    by (simp add: demo_influx_def influx_init_def live_def demo_influx_env_def)
qed

text \<open>The tags of a point give the message's path back: when the node has at least two path
  segments, the segments of the component tag followed by the name tag and the measurement
  are the segments of the node; with a single segment, name and measurement are both that
  segment, and with none both are \<open>unknown\<close>.\<close>

theorem influx_tags_give_path:
  assumes "influx_point_of str_other now m = Inr pt"
  shows "case path_parts (m_node m) of
      [] \<Rightarrow> pt_measurement pt = ''unknown'' \<and> dict_get (pt_tags pt) ''name'' = Some ''unknown'' \<and> dict_get (pt_tags pt) ''component'' = Some []
    | [p] \<Rightarrow> pt_measurement pt = p \<and> dict_get (pt_tags pt) ''name'' = Some p \<and> dict_get (pt_tags pt) ''component'' = Some []
    | _ \<Rightarrow> \<exists>name component. dict_get (pt_tags pt) ''name'' = Some name \<and> dict_get (pt_tags pt) ''component'' = Some component \<and>
        path_parts component @ [name, pt_measurement pt] = path_parts (m_node m)"
proof -
  let ?parts = "path_parts (m_node m)" and ?n = "length (path_parts (m_node m))"
  have pt: "pt_measurement pt = (if ?parts \<noteq> [] then ?parts ! (?n - 1) else ''unknown'')"
    "dict_get (pt_tags pt) ''name'' = Some (if ?n \<ge> 2 then ?parts ! (?n - 2) else pt_measurement pt)"
    "dict_get (pt_tags pt) ''component'' = Some (join ''/'' (take (?n - 2) ?parts))"
    using assms by (auto simp: influx_point_of_def bindE_Inr_iff Let_def)
  have long: "path_parts (join ''/'' (take (?n - 2) ?parts)) @ [?parts ! (?n - 2), ?parts ! (?n - 1)] = ?parts"
    if "2 \<le> ?n"
    using take_two_last [OF that] by (simp only: path_parts_take)
  show ?thesis using pt long by (auto split: list.splits)
qed

theorem influx_tags_give_path_witness:
  "\<exists>pt component. influx_point_of (\<lambda>v. []) f0 (demo_point ''/xbot/joint/knee/pos'' PNone) = Inr pt \<and>
     pt_measurement pt = ''pos'' \<and> dict_get (pt_tags pt) ''name'' = Some ''knee'' \<and>
     dict_get (pt_tags pt) ''component'' = Some component \<and> path_parts component = [''xbot'', ''joint'']"
proof -
  let ?m = "demo_point ''/xbot/joint/knee/pos'' PNone"
  obtain pt where pt: "influx_point_of (\<lambda>v. []) f0 ?m = Inr pt"
    using influx_point_ok [of ?m f0 "\<lambda>v. []"] by (auto simp: influx_accepts_def demo_point_def convertible_def)
  have parts: "path_parts (m_node ?m) = [''xbot'', ''joint'', ''knee'', ''pos'']"
    by (simp add: path_parts_def demo_point_def)
  obtain name component where t: "dict_get (pt_tags pt) ''name'' = Some name"
    "dict_get (pt_tags pt) ''component'' = Some component"
    "path_parts component @ [name, pt_measurement pt] = [''xbot'', ''joint''] @ [''knee'', ''pos'']"
    using influx_tags_give_path [OF pt] by (auto simp: parts)
  then have "path_parts component = [''xbot'', ''joint''] \<and> [name, pt_measurement pt] = [''knee'', ''pos'']"
    by (subst (asm) append_eq_append_conv) auto
  with pt t show ?thesis by auto
qed

end
