(* ===== verification/Json.thy ===== *)
theory Json
  imports Message
begin

text \<open>
  The JSON text \<open>json.dumps\<close> writes (ASCII only, its default): compactly with given separators,
  or indented by two with sorted keys. \<open>float_repr\<close> is the shortest decimal Python prints for a
  finite float. The lemmas show that a compact text has no control character, so that one
  message is one line of a JSON-lines file.
\<close>

definition hex_digit :: "nat \<Rightarrow> char" where
  "hex_digit d = char_of (if d < 10 then 48 + d else 87 + d)"

definition json_escape :: "char \<Rightarrow> string" where
  "json_escape c = (let n = code_pt c in
     if n = 34 then [CHR 0x5C, c]
     else if n = 92 then [CHR 0x5C, c]
     else if n = 10 then [CHR 0x5C, CHR ''n'']
     else if n = 13 then [CHR 0x5C, CHR ''r'']
     else if n = 9 then [CHR 0x5C, CHR ''t'']
     else if n = 12 then [CHR 0x5C, CHR ''f'']
     else if n = 8 then [CHR 0x5C, CHR ''b'']
     else if 32 \<le> n \<and> n \<le> 126 then [c]
     else [CHR 0x5C, CHR ''u'', CHR ''0'', CHR ''0'', hex_digit (n div 16), hex_digit (n mod 16)])"

definition json_string :: "string \<Rightarrow> string" where
  "json_string s = [CHR 0x22] @ concat (map json_escape s) @ [CHR 0x22]"

fun json_number :: "(real \<Rightarrow> string) \<Rightarrow> pynum \<Rightarrow> string" where
  "json_number float_repr (NInt i) = show_int i"
| "json_number float_repr (NFlt (Fin x)) = float_repr x"
| "json_number float_repr (NFlt PInf) = ''Infinity''"
| "json_number float_repr (NFlt NInf) = ''-Infinity''"
| "json_number float_repr (NFlt NaN) = ''NaN''"

fun json_dumps :: "(real \<Rightarrow> string) \<Rightarrow> string \<Rightarrow> string \<Rightarrow> pyval \<Rightarrow> string" where
  "json_dumps fr isep ksep PNone = ''null''"
| "json_dumps fr isep ksep (PBool b) = (if b then ''true'' else ''false'')"
| "json_dumps fr isep ksep (PNum n) = json_number fr n"
| "json_dumps fr isep ksep (PStr s) = json_string s"
| "json_dumps fr isep ksep (PList vs) = ''['' @ join isep (map (json_dumps fr isep ksep) vs) @ '']''"
| "json_dumps fr isep ksep (PDict kvs) =
     ''{'' @ join isep (map (\<lambda>(k, v). json_string k @ ksep @ json_dumps fr isep ksep v) kvs) @ ''}''"

text \<open>\<open>sort_keys=True\<close> and \<open>indent=2\<close>: \<open>level\<close> is the depth of the value.\<close>

fun sort_keys :: "pyval \<Rightarrow> pyval" where
  "sort_keys (PList vs) = PList (map sort_keys vs)"
| "sort_keys (PDict kvs) = PDict (sort_key fst (map (\<lambda>(k, v). (k, sort_keys v)) kvs))"
| "sort_keys v = v"

definition newline_indent :: "nat \<Rightarrow> string" where
  "newline_indent level = CHR 0x0A # replicate (2 * level) (CHR '' '')"

fun json_indented :: "(real \<Rightarrow> string) \<Rightarrow> nat \<Rightarrow> pyval \<Rightarrow> string" where
  "json_indented fr level (PList vs) =
     (if vs = [] then ''[]''
      else ''['' @ newline_indent (level + 1) @
        join ('','' @ newline_indent (level + 1)) (map (json_indented fr (level + 1)) vs) @
        newline_indent level @ '']'')"
| "json_indented fr level (PDict kvs) =
     (if kvs = [] then ''{}''
      else ''{'' @ newline_indent (level + 1) @
        join ('','' @ newline_indent (level + 1))
          (map (\<lambda>(k, v). json_string k @ '': '' @ json_indented fr (level + 1) v) kvs) @
        newline_indent level @ ''}'')"
| "json_indented fr level v = json_dumps fr [] [] v"

text \<open>The dictionary of a message's values, which both text sinks write.\<close>

definition kv_objects :: "DiagnosticsMessage \<Rightarrow> pyval" where
  "kv_objects m = PList (map (\<lambda>kv. PDict [(''key'', PStr (kv_key kv)), (''value'', kv_value kv)]) (m_values m))"

subsection \<open>No control characters\<close>

definition printable :: "string \<Rightarrow> bool" where
  "printable s = (\<forall>c \<in> set s. 32 \<le> code_pt c \<and> code_pt c \<le> 126)"

lemma printable_simps [simp]:
  "printable []" "printable (s @ t) \<longleftrightarrow> printable s \<and> printable t"
  "printable (c # s) \<longleftrightarrow> 32 \<le> code_pt c \<and> code_pt c \<le> 126 \<and> printable s"
  by (auto simp: printable_def)

lemma printable_join: "printable sep \<Longrightarrow> (\<And>p. p \<in> set ps \<Longrightarrow> printable p) \<Longrightarrow> printable (join sep ps)"
  using set_join [of sep ps] unfolding printable_def by blast

lemma printable_show_int: "printable (show_int i)"
proof -
  have "32 \<le> code_pt c \<and> code_pt c \<le> 126" if "c \<in> set (show_int i)" for c
    using show_int_chars [OF that] by (auto simp: is_digit_def code_pt_def)
  then show ?thesis by (simp add: printable_def)
qed

lemma hex_digit_printable: "d < 16 \<Longrightarrow> 32 \<le> code_pt (hex_digit d) \<and> code_pt (hex_digit d) \<le> 126"
  by (simp add: hex_digit_def code_pt_char_of)

lemma json_escape_printable: "printable (json_escape c)"
proof -
  have "code_pt c < 256" by (simp add: code_pt_def)
  then have "code_pt c div 16 < 16" "code_pt c mod 16 < 16" by auto
  moreover have "code_pt (CHR 0x5C) = 92" "code_pt (CHR ''n'') = 110" "code_pt (CHR ''r'') = 114" "code_pt (CHR ''t'') = 116"
    "code_pt (CHR ''f'') = 102" "code_pt (CHR ''b'') = 98" "code_pt (CHR ''u'') = 117" "code_pt (CHR ''0'') = 48"
    by (simp_all add: code_pt_def)
  ultimately show ?thesis by (simp add: json_escape_def Let_def hex_digit_printable)
qed

lemma printable_json_string: "printable (json_string s)"
proof -
  have "printable (concat (map json_escape s))" using json_escape_printable by (auto simp: printable_def)
  moreover have "code_pt (CHR 0x22) = 34" by (simp add: code_pt_def)
  ultimately show ?thesis by (simp add: json_string_def)
qed

lemma printable_literal:
  "printable ''null''" "printable ''true''" "printable ''false''" "printable ''Infinity''" "printable ''-Infinity''"
  "printable ''NaN''" "printable ''[''" "printable '']''" "printable ''{''" "printable ''}''" "printable '',''" "printable '':''"
  by (simp_all add: code_pt_def)

lemma printable_json_dumps:
  assumes "\<And>x. printable (fr x)" and "printable isep" and "printable ksep"
  shows "printable (json_dumps fr isep ksep v)"
proof (induction v)
  case (PNum n)
  have "printable (json_number fr n)"
    by (cases "(fr, n)" rule: json_number.cases) (simp_all add: printable_show_int assms printable_literal del: printable_simps(3))
  then show ?case by simp
next
  case (PList vs)
  then have "printable (join isep (map (json_dumps fr isep ksep) vs))"
    by (intro printable_join assms) auto
  then show ?case by (simp add: code_pt_def)
next
  case (PDict kvs)
  have "printable (join isep (map (\<lambda>(k, v). json_string k @ ksep @ json_dumps fr isep ksep v) kvs))"
    using PDict printable_json_string assms by (intro printable_join) (auto simp: snds.simps)
  then show ?case by (simp add: code_pt_def)
qed (simp_all add: printable_literal printable_json_string del: printable_simps(3))

end
