(* ===== verification/Json_File_Sink.thy ===== *)
theory Json_File_Sink
  imports Aggregator Json
begin

text \<open>
  \<^verbatim>\<open>sinks/json_file_sink.py\<close>: one line of JSON per message, rolled to one backup. \<open>js_file\<close> and
  \<open>js_backup\<close> are the contents of the two files (None: the file does not exist); a text is
  ASCII, so its length is its size in bytes. \<open>json_env\<close> says which file operation of the \<open>n\<close>-th
  message succeeds: reading the size, removing the old backup, renaming, opening, and writing
  (None, or \<open>Some k\<close> when it fails after \<open>k\<close> characters); \<open>float_repr\<close> is how a finite float prints.
  The lemmas show that a line is one line, what exactly the two files hold after a run, and what
  a failing operation can cost.
\<close>

record json_env =
  je_stat :: "nat \<Rightarrow> bool"
  je_unlink :: "nat \<Rightarrow> bool"
  je_rename :: "nat \<Rightarrow> bool"
  je_open :: "nat \<Rightarrow> bool"
  je_write :: "nat \<Rightarrow> nat option"

record json_sink =
  js_max_bytes :: int
  js_file :: "string option"
  js_backup :: "string option"
  js_calls :: nat

text \<open>\<open>disk\<close> is what the two files hold when the sink starts, \<open>mkdir\<close> the outcome of making the directory.\<close>

definition json_init :: "unit result \<Rightarrow> string option \<times> string option \<Rightarrow> pyfloat \<Rightarrow> json_sink result" where
  "json_init mkdir disk max_file_size_mb =
     bindE mkdir (\<lambda>_.
     bindE (int_of_float (fmul (fmul max_file_size_mb (Fin 1024)) (Fin 1024))) (\<lambda>n.
       Inr \<lparr>js_max_bytes = n, js_file = fst disk, js_backup = snd disk, js_calls = 0\<rparr>))"

definition roll_if_needed :: "json_env \<Rightarrow> nat \<Rightarrow> json_sink \<Rightarrow> json_sink \<times> py_exc option" where
  "roll_if_needed env n s =
     (case js_file s of
        None \<Rightarrow> (s, None)
      | Some f \<Rightarrow>
          if \<not> je_stat env n then (s, Some (OSError ''stat''))
          else if int (length f) < js_max_bytes s then (s, None)
          else if js_backup s \<noteq> None \<and> \<not> je_unlink env n then (s, Some (OSError ''unlink''))
          else (let s1 = s\<lparr>js_backup := None\<rparr> in
                if \<not> je_rename env n then (s1, Some (OSError ''rename''))
                else (s1\<lparr>js_file := None, js_backup := Some f\<rparr>, None)))"

definition message_json :: "DiagnosticsMessage \<Rightarrow> pyval" where
  "message_json m = PDict
     [(''v'', PInt (m_v m)), (''node'', PStr (m_node m)), (''hw_id'', PStr (m_hw_id m)),
      (''stamp'', PFloat (m_stamp m)), (''level'', PNum (m_level m)), (''msg'', PStr (m_msg m)),
      (''values'', kv_objects m)]"

definition json_line :: "(real \<Rightarrow> string) \<Rightarrow> DiagnosticsMessage \<Rightarrow> string" where
  "json_line float_repr m = json_dumps float_repr '','' '':'' (message_json m) @ [CHR 0x0A]"

definition append_line :: "json_env \<Rightarrow> nat \<Rightarrow> string \<Rightarrow> json_sink \<Rightarrow> json_sink \<times> py_exc option" where
  "append_line env n line s =
     (if \<not> je_open env n then (s, Some (OSError ''open''))
      else (let f = (case js_file s of None \<Rightarrow> [] | Some f \<Rightarrow> f) in
            case je_write env n of
              Some k \<Rightarrow> (s\<lparr>js_file := Some (f @ take k line)\<rparr>, Some (OSError ''write''))
            | None \<Rightarrow> (s\<lparr>js_file := Some (f @ line)\<rparr>, None)))"

definition json_handle ::
  "json_env \<Rightarrow> (real \<Rightarrow> string) \<Rightarrow> DiagnosticsMessage \<Rightarrow> json_sink \<Rightarrow> json_sink \<times> py_exc option" where
  "json_handle env float_repr m s =
     (let n = js_calls s in
      case roll_if_needed env n (s\<lparr>js_calls := n + 1\<rparr>) of
        (s1, Some e) \<Rightarrow> (s1, Some e)
      | (s1, None) \<Rightarrow> append_line env n (json_line float_repr m) s1)"

definition json_ops :: "json_env \<Rightarrow> (real \<Rightarrow> string) \<Rightarrow> json_sink sink_ops" where
  "json_ops env float_repr =
     \<lparr>so_handle = json_handle env float_repr, so_publish = (\<lambda>states s. (s, None)), so_close = (\<lambda>s. (s, None))\<rparr>"

text \<open>The sink takes every message as long as the file operations succeed.\<close>

definition disk_ok :: "json_env \<Rightarrow> bool" where
  "disk_ok env = (\<forall>n. je_stat env n \<and> je_unlink env n \<and> je_rename env n \<and> je_open env n \<and> je_write env n = None)"

lemmas json_handle_defs = json_handle_def roll_if_needed_def append_line_def Let_def

lemma json_handle_ok: "disk_ok env \<Longrightarrow> snd (json_handle env float_repr m s) = None"
  by (auto simp: json_handle_defs disk_ok_def split: option.splits)

interpretation json: sink_contract "json_ops env float_repr" "\<lambda>s. disk_ok env" "\<lambda>m. True"
  for env float_repr
  by unfold_locales (auto simp: json_ops_def json_handle_ok)

subsection \<open>The log\<close>

fun json_run :: "json_env \<Rightarrow> (real \<Rightarrow> string) \<Rightarrow> DiagnosticsMessage list \<Rightarrow> json_sink \<Rightarrow> json_sink \<times> py_exc option" where
  "json_run env fr [] s = (s, None)"
| "json_run env fr (m # ms) s =
     (case json_handle env fr m s of
        (s1, Some e) \<Rightarrow> (s1, Some e)
      | (s1, None) \<Rightarrow> json_run env fr ms s1)"

abbreviation lines_of :: "(real \<Rightarrow> string) \<Rightarrow> DiagnosticsMessage list \<Rightarrow> string" where
  "lines_of fr ms \<equiv> concat (map (json_line fr) ms)"

text \<open>
  The log as the files it was written to, one after the other: each file but the last is full,
  and each had room when its last line came. This determines the division of the log.
\<close>

definition log_files :: "(real \<Rightarrow> string) \<Rightarrow> int \<Rightarrow> DiagnosticsMessage list list \<Rightarrow> bool" where
  "log_files fr limit files =
     (list_all (\<lambda>f. f \<noteq> [] \<and> (butlast f = [] \<or> int (length (lines_of fr (butlast f))) < limit)) files \<and>
      list_all (\<lambda>f. limit \<le> int (length (lines_of fr f))) (butlast files))"

text \<open>The disk holds the last of the files, and the one before it as the backup.\<close>

definition on_disk :: "(real \<Rightarrow> string) \<Rightarrow> DiagnosticsMessage list list \<Rightarrow> string option \<times> string option" where
  "on_disk fr files =
     (case rev files of
        [] \<Rightarrow> (None, None)
      | [f] \<Rightarrow> (Some (lines_of fr f), None)
      | f # g # _ \<Rightarrow> (Some (lines_of fr f), Some (lines_of fr g)))"

text \<open>Where the next line goes: to the last file while it has room, else to a new one.\<close>

lemma log_files_append:
  "log_files fr limit (files @ [f]) \<Longrightarrow> int (length (lines_of fr f)) < limit \<Longrightarrow> log_files fr limit (files @ [f @ [m]])"
  by (auto simp: log_files_def list_all_append)

lemma log_files_new:
  "log_files fr limit (files @ [f]) \<Longrightarrow> limit \<le> int (length (lines_of fr f)) \<Longrightarrow> log_files fr limit (files @ [f, [m]])"
  by (auto simp: log_files_def list_all_append butlast_append)

lemma on_disk_snoc:
  "on_disk fr [] = (None, None)"
  "on_disk fr (files @ [f]) = (Some (lines_of fr f), if files = [] then None else Some (lines_of fr (last files)))"
  by (auto simp: on_disk_def split: list.splits)

lemma json_handle_files:
  assumes "json_handle env fr m s = (s', None)" and "(js_file s, js_backup s) = on_disk fr files"
    and "log_files fr (js_max_bytes s) files"
  shows "\<exists>files'. concat files' = concat files @ [m] \<and> (js_file s', js_backup s') = on_disk fr files' \<and>
    log_files fr (js_max_bytes s') files' \<and> js_max_bytes s' = js_max_bytes s"
proof (cases files rule: rev_cases)
  case Nil
  then have "concat [[m]] = concat files @ [m] \<and> (js_file s', js_backup s') = on_disk fr ([] @ [[m]]) \<and>
      log_files fr (js_max_bytes s') [[m]] \<and> js_max_bytes s' = js_max_bytes s"
    using assms unfolding Nil on_disk_snoc
    by (auto simp: json_handle_defs log_files_def split: if_splits option.splits)
  then show ?thesis unfolding append_Nil by blast
next
  case (snoc gs f)
  have disk: "js_file s = Some (lines_of fr f)" "js_backup s = (if gs = [] then None else Some (lines_of fr (last gs)))"
    using assms(2) unfolding snoc on_disk_snoc by simp_all
  show ?thesis
  proof (cases "int (length (lines_of fr f)) < js_max_bytes s")
    case True
    then have "(js_file s', js_backup s') = on_disk fr (gs @ [f @ [m]]) \<and> js_max_bytes s' = js_max_bytes s"
      using assms(1) disk unfolding on_disk_snoc by (auto simp: json_handle_defs split: if_splits option.splits)
    then show ?thesis using log_files_append assms(3) True unfolding snoc by (intro exI [of _ "gs @ [f @ [m]]"]) simp
  next
    case False
    then have "(js_file s', js_backup s') = on_disk fr ((gs @ [f]) @ [[m]]) \<and> js_max_bytes s' = js_max_bytes s"
      using assms(1) disk unfolding on_disk_snoc by (auto simp: json_handle_defs split: if_splits option.splits)
    then show ?thesis using log_files_new assms(3) False unfolding snoc by (intro exI [of _ "gs @ [f, [m]]"]) simp
  qed
qed

lemma json_run_files:
  "json_run env fr ms s = (s', None) \<Longrightarrow> (js_file s, js_backup s) = on_disk fr files \<Longrightarrow>
   log_files fr (js_max_bytes s) files \<Longrightarrow>
   \<exists>files'. concat files' = concat files @ ms \<and> (js_file s', js_backup s') = on_disk fr files' \<and>
     log_files fr (js_max_bytes s) files'"
proof (induction ms arbitrary: files s)
  case (Cons m ms)
  from Cons.prems(1) obtain s1 where s1: "json_handle env fr m s = (s1, None)" "json_run env fr ms s1 = (s', None)"
    by (auto split: prod.splits option.splits)
  from json_handle_files [OF s1(1) Cons.prems(2,3)] obtain files1 where "concat files1 = concat files @ [m]"
    "(js_file s1, js_backup s1) = on_disk fr files1" "log_files fr (js_max_bytes s1) files1" "js_max_bytes s1 = js_max_bytes s"
    by blast
  with Cons.IH [OF s1(2), of files1] show ?case by simp
qed auto

lemma printable_json_line:
  assumes "\<And>x. printable (fr x)"
  shows "\<exists>t. json_line fr m = t @ [CHR 0x0A] \<and> printable t"
proof -
  have "printable (json_dumps fr '','' '':'' (message_json m))"
    by (rule printable_json_dumps) (simp_all add: assms code_pt_def)
  then show ?thesis by (auto simp: json_line_def)
qed

subsection \<open>Properties\<close>

definition demo_json_sink :: json_sink where
  "demo_json_sink = \<lparr>js_max_bytes = 10, js_file = None, js_backup = None, js_calls = 0\<rparr>"

text \<open>C32: The two files hold exactly the end of the log. Started on an empty disk, after any messages
  the log divides into consecutive files, each filled until its size reached the limit and not
  beyond the line that did so; the file is the last of them, ending with the newest message, and
  the backup is the whole file before it, or absent when there was no rollover. So the file is
  smaller than the limit plus one line.\<close>

theorem json_file_keeps_tail:
  assumes "js_file s = None" and "js_backup s = None" and "json_run env fr (ms @ [m]) s = (s', None)"
  shows "\<exists>files cur. concat (files @ [cur]) = ms @ [m] \<and> log_files fr (js_max_bytes s) (files @ [cur]) \<and>
    js_file s' = Some (lines_of fr cur) \<and> last cur = m \<and>
    js_backup s' = (if files = [] then None else Some (lines_of fr (last files))) \<and>
    int (length (lines_of fr cur)) < max 1 (js_max_bytes s) + int (length (json_line fr m))"
proof -
  have "log_files fr (js_max_bytes s) []" by (simp add: log_files_def)
  with json_run_files [OF assms(3), of "[]"] assms(1,2) obtain fs where
    fs: "concat fs = ms @ [m]" "(js_file s', js_backup s') = on_disk fr fs" "log_files fr (js_max_bytes s) fs"
    by (auto simp: on_disk_snoc)
  then obtain files cur where f: "fs = files @ [cur]" by (cases fs rule: rev_cases) auto
  have cur: "cur \<noteq> []" "butlast cur = [] \<or> int (length (lines_of fr (butlast cur))) < js_max_bytes s"
    using fs(3) unfolding f by (auto simp: log_files_def list_all_append)
  have m: "last cur = m" using arg_cong [OF fs(1), of last] cur(1) unfolding f by simp
  have "lines_of fr cur = lines_of fr (butlast cur @ [last cur])" using cur(1) by simp
  then have "length (lines_of fr cur) = length (lines_of fr (butlast cur)) + length (json_line fr m)"
    unfolding m by simp
  then have "int (length (lines_of fr cur)) < max 1 (js_max_bytes s) + int (length (json_line fr m))"
    using cur(2) by auto
  then show ?thesis using fs m unfolding f on_disk_snoc by blast
qed

definition demo_disk :: json_env where
  "demo_disk = \<lparr>je_stat = (\<lambda>n. True), je_unlink = (\<lambda>n. True), je_rename = (\<lambda>n. True), je_open = (\<lambda>n. True), je_write = (\<lambda>n. None)\<rparr>"

text \<open>With a limit below one line, three messages make three files, of which two remain.\<close>

theorem json_file_keeps_tail_witness:
  "\<exists>s' files cur. json_run demo_disk (\<lambda>x. ''0.0'') [demo_msg ''a'' 0, demo_msg ''b'' 1, demo_msg ''c'' 2] demo_json_sink = (s', None) \<and>
     concat (files @ [cur]) = [demo_msg ''a'' 0, demo_msg ''b'' 1, demo_msg ''c'' 2] \<and>
     js_file s' = Some (lines_of (\<lambda>x. ''0.0'') cur) \<and> js_backup s' = Some (lines_of (\<lambda>x. ''0.0'') (last files)) \<and>
     js_file s' = Some (json_line (\<lambda>x. ''0.0'') (demo_msg ''c'' 2)) \<and> js_backup s' = Some (json_line (\<lambda>x. ''0.0'') (demo_msg ''b'' 1))"
proof -
  let ?fr = "\<lambda>x::real. ''0.0''"
  have big: "10 \<le> int (length (json_line ?fr (demo_msg ''a'' 0)))" "10 \<le> int (length (json_line ?fr (demo_msg ''b'' 1)))"
    by (simp_all add: json_line_def message_json_def)
  obtain s' where r: "json_run demo_disk ?fr ([demo_msg ''a'' 0, demo_msg ''b'' 1] @ [demo_msg ''c'' 2]) demo_json_sink = (s', None)"
    and f: "js_file s' = Some (json_line ?fr (demo_msg ''c'' 2))" "js_backup s' = Some (json_line ?fr (demo_msg ''b'' 1))"
    using big by (simp add: json_handle_defs demo_json_sink_def demo_disk_def)
  have "js_file demo_json_sink = None" "js_backup demo_json_sink = None" by (simp_all add: demo_json_sink_def)
  from json_file_keeps_tail [OF this r] show ?thesis using r f by (fastforce split: if_splits)
qed

text \<open>What a failing file operation costs: when handling a message raises, it is an OSError, and the
  text of the file is still there, in the file (followed at most by a beginning of the new line)
  or, when only the opening or writing after a rollover failed, whole in the backup. The old
  backup is not: a failing rename loses it.\<close>

theorem json_handle_error_keeps_file:
  assumes "json_handle env fr m s = (s', Some e)" and "js_file s = Some f"
  shows "(\<exists>op. e = OSError op) \<and>
    ((\<exists>k. js_file s' = Some (f @ take k (json_line fr m))) \<or> js_backup s' = Some f)"
  using assms
  by (auto simp: json_handle_defs split: if_splits option.splits intro: exI [of _ 0])

theorem json_handle_error_keeps_file_witness:
  "case json_handle (demo_disk\<lparr>je_rename := \<lambda>n. False\<rparr>) (\<lambda>x. ''0.0'') (demo_msg ''a'' 0)
       (demo_json_sink\<lparr>js_file := Some ''0123456789'', js_backup := Some ''old''\<rparr>) of (s', e) \<Rightarrow>
     e = Some (OSError ''rename'') \<and> js_file s' = Some ''0123456789'' \<and> js_backup s' = None"
proof -
  let ?env = "demo_disk\<lparr>je_rename := \<lambda>n. False\<rparr>" and ?s = "demo_json_sink\<lparr>js_file := Some ''0123456789'', js_backup := Some ''old''\<rparr>"
  obtain s' e where h: "json_handle ?env (\<lambda>x. ''0.0'') (demo_msg ''a'' 0) ?s = (s', Some e)"
    "e = OSError ''rename''" "js_file s' = Some ''0123456789''" "js_backup s' = None"
    by (simp add: json_handle_defs demo_disk_def demo_json_sink_def)
  from json_handle_error_keeps_file [OF h(1)] h show ?thesis by simp
qed

text \<open>One message is one line, whatever its texts contain: the written line ends with a newline
  and has no other control character, a newline in a message or a value being escaped.\<close>

theorem json_line_single:
  assumes "\<And>x. printable (fr x)"
  shows "\<exists>t. json_line fr m = t @ [CHR 0x0A] \<and> printable t \<and> CHR 0x0A \<notin> set t"
proof -
  obtain t where "json_line fr m = t @ [CHR 0x0A]" "printable t" using printable_json_line assms by blast
  moreover from this(2) have "CHR 0x0A \<notin> set t" by (auto simp: printable_def code_pt_def)
  ultimately show ?thesis by blast
qed

theorem json_line_single_witness:
  "\<exists>t. json_line (\<lambda>x. ''0.0'') (demo_msg [CHR ''a'', CHR 0x0A] 0) = t @ [CHR 0x0A] \<and> CHR 0x0A \<notin> set t"
  using json_line_single [of "\<lambda>x. ''0.0''" "demo_msg [CHR ''a'', CHR 0x0A] 0"] by (auto simp: code_pt_def)

end
