(* ===== verification/Stdout_Sink.thy ===== *)
theory Stdout_Sink
  imports Aggregator Json Rate_Limit
begin

text \<open>
  \<^verbatim>\<open>sinks/stdout_sink.py\<close>: the latest state of every node, printed at an interval.
  \<open>ss_printed\<close> is what has gone to standard output, \<open>clk\<close> the readings of \<open>time_fn\<close>. A reading of
  0 counts as "never printed", as the truth value of \<open>_last_print\<close> does. The lemmas show the
  interval and that a printed document has every node once, in order.
\<close>

record stdout_sink =
  ss_interval :: pyfloat
  ss_last_print :: pyfloat
  ss_reads :: nat
  ss_printed :: "string list"

definition stdout_init :: "pyfloat \<Rightarrow> stdout_sink" where
  "stdout_init interval_sec = \<lparr>ss_interval = interval_sec, ss_last_print = f0, ss_reads = 0, ss_printed = []\<rparr>"

definition stdout_due :: "stdout_sink \<Rightarrow> pyfloat \<Rightarrow> bool" where
  "stdout_due s now =
     (\<not> (py_truth (PFloat (ss_last_print s)) \<and> flt (fsub now (ss_last_print s)) (ss_interval s)))"

definition node_json :: "DiagnosticsMessage \<Rightarrow> pyval" where
  "node_json msg = PDict
     [(''level'', PNum (m_level msg)), (''msg'', PStr (m_msg msg)), (''hw_id'', PStr (m_hw_id msg)),
      (''stamp'', PFloat (m_stamp msg)), (''values'', kv_objects msg)]"

definition state_json :: "(string, DiagnosticsMessage) dict \<Rightarrow> pyval" where
  "state_json states = PDict (map (\<lambda>(node, msg). (node, node_json msg)) (sort_key fst states))"

definition stdout_publish ::
  "clock \<Rightarrow> (real \<Rightarrow> string) \<Rightarrow> (string, DiagnosticsMessage) dict \<Rightarrow> stdout_sink \<Rightarrow> stdout_sink \<times> py_exc option" where
  "stdout_publish clk float_repr states s =
     (let now = clk (ss_reads s); s1 = s\<lparr>ss_reads := ss_reads s + 1\<rparr> in
      if \<not> stdout_due s1 now then (s1, None)
      else (s1\<lparr>ss_last_print := now,
               ss_printed := ss_printed s1 @ [json_indented float_repr 0 (sort_keys (state_json states)) @ [CHR 0x0A]]\<rparr>,
            None))"

definition stdout_ops :: "clock \<Rightarrow> (real \<Rightarrow> string) \<Rightarrow> stdout_sink sink_ops" where
  "stdout_ops clk float_repr =
     \<lparr>so_handle = (\<lambda>m s. (s, None)), so_publish = stdout_publish clk float_repr, so_close = (\<lambda>s. (s, None))\<rparr>"

text \<open>The sink takes every message and never raises.\<close>

interpretation stdout: sink_contract "stdout_ops clk float_repr" "\<lambda>s. True" "\<lambda>m. True"
  for clk float_repr
  by unfold_locales (auto simp: stdout_ops_def stdout_publish_def Let_def)

subsection \<open>The interval\<close>

definition stdout_mark :: "stdout_sink \<Rightarrow> pyfloat \<Rightarrow> stdout_sink" where
  "stdout_mark s now = s\<lparr>ss_last_print := now\<rparr>"

definition printed_at :: "stdout_sink \<Rightarrow> pyfloat option" where
  "printed_at s = (if py_truth (PFloat (ss_last_print s)) then Some (ss_last_print s) else None)"

interpretation stdout_rate: rate_limiter stdout_due stdout_mark printed_at ss_interval "\<lambda>t. \<not> feq t f0"
  by unfold_locales
    (auto simp: stdout_due_def stdout_mark_def printed_at_def num_eq_def split: if_splits)

text \<open>A sequence of publishes and the readings at which a document was printed.\<close>

fun stdout_run ::
  "clock \<Rightarrow> (real \<Rightarrow> string) \<Rightarrow> (string, DiagnosticsMessage) dict list \<Rightarrow> stdout_sink \<Rightarrow> stdout_sink \<times> pyfloat list" where
  "stdout_run clk fr [] s = (s, [])"
| "stdout_run clk fr (st # sts) s =
     (let s1 = fst (stdout_publish clk fr st s); (s2, ts) = stdout_run clk fr sts s1
      in (s2, if ss_printed s1 \<noteq> ss_printed s then clk (ss_reads s) # ts else ts))"

lemma stdout_fired_cong:
  "ss_last_print a = ss_last_print b \<Longrightarrow> ss_interval a = ss_interval b \<Longrightarrow>
   stdout_rate.fired a rs = stdout_rate.fired b rs"
proof (induction rs arbitrary: a b)
  case (Cons r rs)
  obtain d c x where r: "r = (d, c, x)" using prod_cases3 by blast
  have "stdout_rate.fired (stdout_mark a c) rs = stdout_rate.fired (stdout_mark b c) rs"
    using Cons.prems by (intro Cons.IH) (simp_all add: stdout_mark_def)
  moreover have "stdout_rate.fired a rs = stdout_rate.fired b rs" using Cons.prems by (intro Cons.IH)
  moreover have "stdout_due a d = stdout_due b d" using Cons.prems by (simp add: stdout_due_def)
  ultimately show ?case by (simp add: r)
qed simp

lemma stdout_publish_eq:
  "fst (stdout_publish clk fr st s) =
     (if stdout_due s (clk (ss_reads s)) then
        (stdout_mark s (clk (ss_reads s)))\<lparr>ss_reads := ss_reads s + 1,
          ss_printed := ss_printed s @ [json_indented fr 0 (sort_keys (state_json st)) @ [CHR 0x0A]]\<rparr>
      else s\<lparr>ss_reads := ss_reads s + 1\<rparr>)"
  by (simp add: stdout_publish_def stdout_due_def stdout_mark_def Let_def)

lemma stdout_run_fired:
  "\<exists>rs. map (\<lambda>t. (t, t)) (snd (stdout_run clk fr sts s)) = stdout_rate.fired s rs \<and>
    (\<forall>r \<in> set rs. \<exists>n. fst (snd r) = clk n)"
proof (induction sts arbitrary: s)
  case Nil
  have "map (\<lambda>t. (t, t)) (snd (stdout_run clk fr [] s)) = stdout_rate.fired s []" by simp
  then show ?case by (metis empty_iff list.set(1))
next
  case (Cons st sts)
  let ?t = "clk (ss_reads s)" and ?s1 = "fst (stdout_publish clk fr st s)"
  obtain rs where rs: "map (\<lambda>t. (t, t)) (snd (stdout_run clk fr sts ?s1)) = stdout_rate.fired ?s1 rs"
    and clocked: "\<forall>r \<in> set rs. \<exists>n. fst (snd r) = clk n" using Cons.IH by blast
  have "stdout_rate.fired ?s1 rs = stdout_rate.fired (if stdout_due s ?t then stdout_mark s ?t else s) rs"
    by (rule stdout_fired_cong) (simp_all add: stdout_publish_eq stdout_mark_def)
  then have "map (\<lambda>t. (t, t)) (snd (stdout_run clk fr (st # sts) s)) = stdout_rate.fired s ((?t, ?t, True) # rs)"
    using rs by (auto simp: Let_def stdout_publish_eq split: prod.splits)
  moreover have "\<forall>r \<in> set ((?t, ?t, True) # rs). \<exists>n. fst (snd r) = clk n" using clocked by auto
  ultimately show ?case by blast
qed

subsection \<open>The document\<close>

lemma sort_keys_state:
  "wf_dict states \<Longrightarrow>
   sort_keys (state_json states) = PDict (map (\<lambda>(node, msg). (node, sort_keys (node_json msg))) (sort_key fst states))"
proof -
  let ?d = "map (\<lambda>(node, msg). (node, sort_keys (node_json msg))) (sort_key fst states)"
  have "sort_keys (state_json states) = PDict (sort_key fst ?d)"
    by (simp add: state_json_def comp_def case_prod_unfold)
  moreover have "sorted (map fst ?d)" by (simp add: comp_def case_prod_unfold)
  then have "sort_key fst ?d = ?d" by (rule sort_key_id_if_sorted)
  ultimately show ?thesis by simp
qed

subsection \<open>Properties\<close>

text \<open>C33: Documents are printed at least the interval apart, on a clock that never reads 0 (a reading of
  0 counts as never printed); every printed document is one object with each node of the
  state once, in the order of the names.\<close>

theorem stdout_prints_spaced:
  assumes "\<And>n. \<not> feq (clk n) f0"
  shows "successively (\<lambda>t u. \<not> flt (fsub u t) (ss_interval s)) (snd (stdout_run clk fr sts s)) \<and>
    (wf_dict states \<and> ss_printed (fst (stdout_publish clk fr states s)) \<noteq> ss_printed s \<longrightarrow>
      (\<exists>d. ss_printed (fst (stdout_publish clk fr states s)) = ss_printed s @ [json_indented fr 0 (PDict d) @ [CHR 0x0A]] \<and>
        sorted (keys d) \<and> distinct (keys d) \<and> set (keys d) = set (keys states)))"
proof
  obtain rs where rs: "map (\<lambda>t. (t, t)) (snd (stdout_run clk fr sts s)) = stdout_rate.fired s rs"
    and clocked: "\<forall>r \<in> set rs. \<exists>n. fst (snd r) = clk n" using stdout_run_fired by blast
  have "successively (stdout_rate.spaced (ss_interval s)) (map (\<lambda>t. (t, t)) (snd (stdout_run clk fr sts s)))"
    unfolding rs using clocked assms by (intro stdout_rate.fired_spaced) auto
  then show "successively (\<lambda>t u. \<not> flt (fsub u t) (ss_interval s)) (snd (stdout_run clk fr sts s))"
    by (simp add: successively_map stdout_rate.spaced_def)
next
  show "wf_dict states \<and> ss_printed (fst (stdout_publish clk fr states s)) \<noteq> ss_printed s \<longrightarrow>
      (\<exists>d. ss_printed (fst (stdout_publish clk fr states s)) = ss_printed s @ [json_indented fr 0 (PDict d) @ [CHR 0x0A]] \<and>
        sorted (keys d) \<and> distinct (keys d) \<and> set (keys d) = set (keys states))"
  proof
    let ?d = "map (\<lambda>(node, msg). (node, sort_keys (node_json msg))) (sort_key fst states)"
    assume a: "wf_dict states \<and> ss_printed (fst (stdout_publish clk fr states s)) \<noteq> ss_printed s"
    then have p: "ss_printed (fst (stdout_publish clk fr states s)) = ss_printed s @ [json_indented fr 0 (PDict ?d) @ [CHR 0x0A]]"
      using sort_keys_state [of states] by (auto simp: stdout_publish_eq split: if_splits)
    have k: "keys ?d = keys (sort_key fst states)" by (simp add: comp_def case_prod_unfold)
    have "distinct (keys ?d) \<and> set (keys ?d) = set (keys states)"
      using a unfolding k wf_dict_def by (simp add: distinct_map)
    moreover have "sorted (keys ?d)" unfolding k by simp
    ultimately show "\<exists>d. ss_printed (fst (stdout_publish clk fr states s)) = ss_printed s @ [json_indented fr 0 (PDict d) @ [CHR 0x0A]] \<and>
        sorted (keys d) \<and> distinct (keys d) \<and> set (keys d) = set (keys states)" using p by blast
  qed
qed

definition demo_states :: "(string, DiagnosticsMessage) dict" where
  "demo_states = [(''b'', demo_msg ''b'' 1), (''a'', demo_msg ''a'' 0)]"

text \<open>Three publishes of a state of two nodes at readings 1, 2 and 3: the second prints nothing.\<close>

theorem stdout_prints_spaced_witness:
  "snd (stdout_run (\<lambda>n. Fin (1 + real n)) (\<lambda>x. ''0.0'') [demo_states, demo_states, demo_states] (stdout_init (Fin 2))) = [Fin 1, Fin 3] \<and>
   successively (\<lambda>t u. \<not> flt (fsub u t) (Fin 2)) [Fin 1, Fin 3] \<and>
   (\<exists>d. ss_printed (fst (stdout_publish (\<lambda>n. Fin (1 + real n)) (\<lambda>x. ''0.0'') demo_states (stdout_init (Fin 2)))) =
      [json_indented (\<lambda>x. ''0.0'') 0 (PDict d) @ [CHR 0x0A]] \<and> sorted (keys d) \<and> distinct (keys d) \<and> set (keys d) = {''a'', ''b''})"
proof -
  let ?clk = "\<lambda>n. Fin (1 + real n)" and ?fr = "\<lambda>x::real. ''0.0''" and ?st = demo_states and ?s = "stdout_init (Fin 2)"
  have c: "\<not> feq (?clk n) f0" for n by (simp add: feq_def add_eq_0_iff)
  have r: "snd (stdout_run ?clk ?fr [?st, ?st, ?st] ?s) = [Fin 1, Fin 3]"
    by (simp add: stdout_publish_def stdout_due_def stdout_init_def Let_def num_eq_def feq_def)
  have i: "ss_interval ?s = Fin 2" "ss_printed ?s = []" by (simp_all add: stdout_init_def)
  have p: "wf_dict ?st \<and> ss_printed (fst (stdout_publish ?clk ?fr ?st ?s)) \<noteq> ss_printed ?s" "set (keys ?st) = {''a'', ''b''}"
    by (simp_all add: demo_states_def wf_dict_def stdout_publish_def stdout_due_def stdout_init_def Let_def num_eq_def feq_def insert_commute)
  from stdout_prints_spaced [where clk = ?clk and s = ?s and fr = ?fr and sts = "[?st, ?st, ?st]" and states = ?st, OF c]
  have "successively (\<lambda>t u. \<not> flt (fsub u t) (Fin 2)) [Fin 1, Fin 3]"
    and "wf_dict ?st \<and> ss_printed (fst (stdout_publish ?clk ?fr ?st ?s)) \<noteq> ss_printed ?s \<longrightarrow>
      (\<exists>d. ss_printed (fst (stdout_publish ?clk ?fr ?st ?s)) = ss_printed ?s @ [json_indented ?fr 0 (PDict d) @ [CHR 0x0A]] \<and>
        sorted (keys d) \<and> distinct (keys d) \<and> set (keys d) = set (keys ?st))"
    unfolding r i(1) by blast+
  from mp [OF this(2) p(1)] this(1) r show ?thesis unfolding i(2) p(2) append_Nil by blast
qed

end
