(* ===== verification/Ros_Sink.thy ===== *)
theory Ros_Sink
  imports Aggregator Rate_Limit
begin

text \<open>
  \<^verbatim>\<open>sinks/ros_diagnostics_sink.py\<close>: the hierarchy of diagnostic statuses. Every node contributes
  a leaf and a group for each prefix of its path under the aggregation root; a group has the
  worst level below it. \<open>uses_bytes\<close> says which form the installed message type has for a level,
  \<open>str_other\<close> is the text of a value as in the InfluxDB sink, and \<open>ros_env\<close> holds the clock
  readings and the outcome of each call of the publisher (a package). The lemmas characterise
  the published statuses, the rate, and when the sink raises.
\<close>

datatype ros_level = LInt pynum | LByte int

record RosDiagnosticStatus =
  rs_level :: ros_level
  rs_name :: string
  rs_message :: string
  rs_hardware_id :: string
  rs_values :: "(string \<times> string) list"

record ros_env =
  re_rate :: clock
  re_stamp :: clock
  re_publish :: "nat \<Rightarrow> py_exc option"

record ros_sink =
  ro_root :: string
  ro_period :: pyfloat
  ro_last :: "pyfloat option"
  ro_reads :: nat
  ro_stamps :: nat
  ro_arrays :: "(pyfloat \<times> RosDiagnosticStatus list) list"

definition ros_init :: "string \<Rightarrow> pyfloat \<Rightarrow> ros_sink result" where
  "ros_init aggregation_root publish_rate_hz =
     bindE (require (\<not> fle publish_rate_hz f0) (ValueError ''publish_rate_hz must be > 0'')) (\<lambda>_.
       let top_name = strip_chars ''/'' aggregation_root in
       Inr \<lparr>ro_root = (if top_name = [] then ''Robot'' else top_name), ro_period = fdiv (Fin 1) publish_rate_hz,
            ro_last = None, ro_reads = 0, ro_stamps = 0, ro_arrays = []\<rparr>)"

text \<open>\<open>bytes([level])\<close> takes an integer from 0 to 255.\<close>

fun to_level :: "bool \<Rightarrow> pynum \<Rightarrow> ros_level result" where
  "to_level uses_bytes (NInt i) =
     (if uses_bytes then
        (if 0 \<le> i \<and> i \<le> 255 then Inr (LByte i) else Inl (ValueError ''bytes must be in range(0, 256)''))
      else Inr (LInt (NInt i)))"
| "to_level uses_bytes (NFlt f) =
     (if uses_bytes then Inl (TypeError ''float object cannot be interpreted as an integer'') else Inr (LInt (NFlt f)))"

definition to_kv :: "(pyval \<Rightarrow> string) \<Rightarrow> DiagnosticKeyValue \<Rightarrow> string \<times> string" where
  "to_kv str_other kv = (kv_key kv, py_str str_other (kv_value kv))"

definition to_status :: "bool \<Rightarrow> (pyval \<Rightarrow> string) \<Rightarrow> DiagnosticsMessage \<Rightarrow> string option \<Rightarrow> RosDiagnosticStatus result" where
  "to_status uses_bytes str_other msg name =
     bindE (to_level uses_bytes (m_level msg)) (\<lambda>level.
       Inr \<lparr>rs_level = level, rs_name = (case name of None \<Rightarrow> m_node msg | Some n \<Rightarrow> n), rs_message = m_msg msg,
            rs_hardware_id = m_hw_id msg, rs_values = map (to_kv str_other) (m_values msg)\<rparr>)"

definition level_message :: "pynum \<Rightarrow> string" where
  "level_message level =
     (if num_eq level (NInt 0) then ''OK'' else if num_eq level (NInt 1) then ''WARN''
      else if num_eq level (NInt 2) then ''ERROR'' else if num_eq level (NInt 3) then ''STALE'' else ''UNKNOWN'')"

definition to_group_status :: "bool \<Rightarrow> string \<Rightarrow> pynum \<Rightarrow> RosDiagnosticStatus result" where
  "to_group_status uses_bytes name level =
     bindE (to_level uses_bytes level) (\<lambda>l.
       Inr \<lparr>rs_level = l, rs_name = name, rs_message = level_message level, rs_hardware_id = [], rs_values = []\<rparr>)"

definition aggregate_segments :: "string \<Rightarrow> string \<Rightarrow> string list" where
  "aggregate_segments top_name name =
     (let segments = filter (\<lambda>s. s \<noteq> []) (split_on (CHR ''/'') (strip_chars ''/'' name));
          rest = (if segments \<noteq> [] \<and> hd segments = top_name then tl segments else segments)
      in top_name # rest)"

definition aggregate_path :: "string list \<Rightarrow> nat \<Rightarrow> string" where
  "aggregate_path segments n = CHR ''/'' # join ''/'' (take n segments)"

text \<open>The inner loop, over \<open>range(1, len(segments) + 1)\<close>.\<close>

definition raise_groups :: "string list \<Rightarrow> pynum \<Rightarrow> (string, pynum) dict \<Rightarrow> (string, pynum) dict" where
  "raise_groups segments level groups =
     foldl (\<lambda>g n. let path = aggregate_path segments n
                   in dict_set path (num_max (dict_get_or g path (NInt 0)) level) g)
       groups [1..<length segments + 1]"

fun collect_statuses ::
  "bool \<Rightarrow> (pyval \<Rightarrow> string) \<Rightarrow> string \<Rightarrow> DiagnosticsMessage list \<Rightarrow> (string, pynum) dict \<Rightarrow>
   (string, RosDiagnosticStatus) dict \<Rightarrow> ((string, pynum) dict \<times> (string, RosDiagnosticStatus) dict) result" where
  "collect_statuses ub so top_name [] groups leaves = Inr (groups, leaves)"
| "collect_statuses ub so top_name (msg # msgs) groups leaves =
     (let segments = aggregate_segments top_name (m_node msg);
          leaf_path = aggregate_path segments (length segments)
      in bindE (to_status ub so msg (Some leaf_path)) (\<lambda>st.
           collect_statuses ub so top_name msgs (raise_groups segments (m_level msg) groups)
             (dict_set leaf_path st leaves)))"

definition build_aggregated_statuses ::
  "bool \<Rightarrow> (pyval \<Rightarrow> string) \<Rightarrow> string \<Rightarrow> (string, DiagnosticsMessage) dict \<Rightarrow> RosDiagnosticStatus list result" where
  "build_aggregated_statuses ub so top_name states =
     bindE (collect_statuses ub so top_name (map snd (sort_key fst states)) [] []) (\<lambda>(groups, leaves).
       mapE (\<lambda>path. case dict_get leaves path of
                Some st \<Rightarrow> Inr st
              | None \<Rightarrow> to_group_status ub path (dict_get_or groups path (NInt 0)))
         (sort (keys groups)))"

definition ros_due :: "ros_sink \<Rightarrow> pyfloat \<Rightarrow> bool" where
  "ros_due s now = (case ro_last s of None \<Rightarrow> True | Some l \<Rightarrow> \<not> flt (fsub now l) (ro_period s))"

definition ros_publish ::
  "ros_env \<Rightarrow> bool \<Rightarrow> (pyval \<Rightarrow> string) \<Rightarrow> (string, DiagnosticsMessage) dict \<Rightarrow> ros_sink \<Rightarrow> ros_sink \<times> py_exc option" where
  "ros_publish env ub so states s =
     (let now = re_rate env (ro_reads s); s1 = s\<lparr>ro_reads := ro_reads s + 1\<rparr> in
      if \<not> ros_due s1 now then (s1, None)
      else
        (let s2 = s1\<lparr>ro_last := Some now\<rparr>; stamp = re_stamp env (ro_stamps s2); s3 = s2\<lparr>ro_stamps := ro_stamps s2 + 1\<rparr> in
         case build_aggregated_statuses ub so (ro_root s3) states of
           Inl e \<Rightarrow> (s3, Some e)
         | Inr statuses \<Rightarrow>
             (s3\<lparr>ro_arrays := ro_arrays s3 @ [(stamp, statuses)]\<rparr>, re_publish env (length (ro_arrays s3)))))"

definition ros_ops :: "ros_env \<Rightarrow> bool \<Rightarrow> (pyval \<Rightarrow> string) \<Rightarrow> ros_sink sink_ops" where
  "ros_ops env ub so =
     \<lparr>so_handle = (\<lambda>m s. (s, None)), so_publish = ros_publish env ub so, so_close = (\<lambda>s. (s, None))\<rparr>"

subsection \<open>The paths of a message\<close>

definition segs :: "string \<Rightarrow> DiagnosticsMessage \<Rightarrow> string list" where
  "segs r m = aggregate_segments r (m_node m)"

definition leaf_path :: "string \<Rightarrow> DiagnosticsMessage \<Rightarrow> string" where
  "leaf_path r m = aggregate_path (segs r m) (length (segs r m))"

definition paths :: "string \<Rightarrow> DiagnosticsMessage \<Rightarrow> string set" where
  "paths r m = aggregate_path (segs r m) ` {1..length (segs r m)}"

lemma segs_nonempty [simp]: "segs r m \<noteq> []"
  by (simp add: segs_def aggregate_segments_def Let_def)

lemma leaf_in_paths: "leaf_path r m \<in> paths r m"
  by (auto simp: leaf_path_def paths_def Suc_le_eq)

lemma num_max_idem [simp]: "num_max (num_max a b) b = num_max a b"
  by (simp add: num_max_def)

lemma raise_fold:
  "dict_get (foldl (\<lambda>g n. let path = f n in dict_set path (num_max (dict_get_or g path (NInt 0)) level) g) groups ns) p =
     (if p \<in> f ` set ns then Some (num_max (dict_get_or groups p (NInt 0)) level) else dict_get groups p)"
  by (induction ns arbitrary: groups) (auto simp: Let_def dict_get_or_def)

lemma raise_groups_get:
  "dict_get (raise_groups (segs r m) level groups) p =
     (if p \<in> paths r m then Some (num_max (dict_get_or groups p (NInt 0)) level) else dict_get groups p)"
proof -
  have "set [1..<length (segs r m) + 1] = {1..length (segs r m)}" by auto
  then show ?thesis unfolding raise_groups_def raise_fold by (simp only: paths_def)
qed

lemma raise_groups_wf: "wf_dict groups \<Longrightarrow> wf_dict (raise_groups sg level groups)"
proof -
  have "wf_dict groups \<Longrightarrow>
    wf_dict (foldl (\<lambda>g n. let path = f n in dict_set path (num_max (dict_get_or g path (NInt 0)) level) g) groups ns)"
    for f :: "nat \<Rightarrow> string" and ns
    by (induction ns arbitrary: groups) (auto simp: Let_def)
  then show "wf_dict groups \<Longrightarrow> wf_dict (raise_groups sg level groups)" by (simp add: raise_groups_def)
qed

subsection \<open>What the loop collects\<close>

text \<open>The level of a group: the worst level below it, at least 0.\<close>

definition group_level :: "string \<Rightarrow> string \<Rightarrow> DiagnosticsMessage list \<Rightarrow> pynum \<Rightarrow> pynum" where
  "group_level r p msgs g = foldl (\<lambda>a m. if p \<in> paths r m then num_max a (m_level m) else a) g msgs"

text \<open>The last message with a given leaf path, the one that stays in \<open>leaf_statuses\<close>.\<close>

fun leaf_of :: "string \<Rightarrow> string \<Rightarrow> DiagnosticsMessage list \<Rightarrow> DiagnosticsMessage option" where
  "leaf_of r p [] = None"
| "leaf_of r p (m # msgs) =
     (case leaf_of r p msgs of
        Some m' \<Rightarrow> Some m'
      | None \<Rightarrow> if leaf_path r m = p then Some m else None)"

lemma collect_Cons:
  "collect_statuses ub so r (m # msgs) groups leaves =
     bindE (to_status ub so m (Some (leaf_path r m))) (\<lambda>st.
       collect_statuses ub so r msgs (raise_groups (segs r m) (m_level m) groups) (dict_set (leaf_path r m) st leaves))"
  by (simp add: segs_def leaf_path_def Let_def)

declare collect_statuses.simps(2) [simp del]

lemma collect_groups:
  "collect_statuses ub so r msgs groups leaves = Inr (groups', leaves') \<Longrightarrow>
   dict_get groups' p =
     (if \<exists>m \<in> set msgs. p \<in> paths r m then Some (group_level r p msgs (dict_get_or groups p (NInt 0))) else dict_get groups p)"
proof (induction msgs arbitrary: groups leaves)
  case (Cons m msgs)
  from Cons.prems obtain st where
    c: "collect_statuses ub so r msgs (raise_groups (segs r m) (m_level m) groups) (dict_set (leaf_path r m) st leaves) = Inr (groups', leaves')"
    by (auto simp: collect_Cons bindE_Inr_iff)
  have no: "\<forall>m \<in> set msgs. p \<notin> paths r m \<Longrightarrow> group_level r p msgs g = g" for g
    unfolding group_level_def by (induction msgs) auto
  show ?case
    using Cons.IH [OF c] no
    by (auto simp: raise_groups_get group_level_def dict_get_or_def)
qed simp

lemma collect_leaves:
  "collect_statuses ub so r msgs groups leaves = Inr (groups', leaves') \<Longrightarrow>
   (case leaf_of r p msgs of
      None \<Rightarrow> dict_get leaves' p = dict_get leaves p
    | Some m \<Rightarrow> \<exists>st. to_status ub so m (Some p) = Inr st \<and> dict_get leaves' p = Some st)"
proof (induction msgs arbitrary: groups leaves)
  case Nil
  then show ?case by simp
next
  case (Cons m msgs)
  from Cons.prems obtain st where st: "to_status ub so m (Some (leaf_path r m)) = Inr st" and
    c: "collect_statuses ub so r msgs (raise_groups (segs r m) (m_level m) groups) (dict_set (leaf_path r m) st leaves) = Inr (groups', leaves')"
    by (auto simp: collect_Cons bindE_Inr_iff)
  from Cons.IH [OF c] st show ?case
    by (cases "leaf_of r p msgs") auto
qed

lemma collect_wf:
  "collect_statuses ub so r msgs groups leaves = Inr (groups', leaves') \<Longrightarrow> wf_dict groups \<Longrightarrow> wf_dict groups'"
proof (induction msgs arbitrary: groups leaves)
  case (Cons m msgs)
  then show ?case by (auto simp: collect_Cons bindE_Inr_iff raise_groups_wf)
qed simp

lemma leaf_of_Some: "leaf_of r p msgs = Some m \<Longrightarrow> m \<in> set msgs \<and> leaf_path r m = p"
  by (induction msgs) (auto split: option.splits if_splits)

lemma leaf_of_None: "leaf_of r p msgs = None \<longleftrightarrow> (\<forall>m \<in> set msgs. leaf_path r m \<noteq> p)"
  by (induction msgs) (auto split: option.splits if_splits)

text \<open>The published list, status by status.\<close>

definition status_at ::
  "bool \<Rightarrow> (pyval \<Rightarrow> string) \<Rightarrow> string \<Rightarrow> DiagnosticsMessage list \<Rightarrow> string \<Rightarrow> RosDiagnosticStatus result" where
  "status_at ub so r msgs p = (case leaf_of r p msgs of
      Some m \<Rightarrow> to_status ub so m (Some p)
    | None \<Rightarrow> to_group_status ub p (group_level r p msgs (NInt 0)))"

definition all_paths :: "string \<Rightarrow> DiagnosticsMessage list \<Rightarrow> string set" where
  "all_paths r msgs = (\<Union>m \<in> set msgs. paths r m)"

lemma build_eq:
  "build_aggregated_statuses ub so r states =
     (let msgs = map snd (sort_key fst states) in
      bindE (collect_statuses ub so r msgs [] []) (\<lambda>_.
        mapE (status_at ub so r msgs) (sorted_list_of_set (all_paths r msgs))))"
proof -
  let ?msgs = "map snd (sort_key fst states)"
  show ?thesis
  proof (cases "collect_statuses ub so r ?msgs [] []")
    case (Inl e)
    then show ?thesis by (simp add: build_aggregated_statuses_def)
  next
    case (Inr gl)
    obtain groups leaves where "gl = (groups, leaves)" by fastforce
    with Inr have c: "collect_statuses ub so r ?msgs [] [] = Inr (groups, leaves)" by simp
    have fin: "finite (all_paths r ?msgs)" by (simp add: all_paths_def paths_def)
    have k: "p \<in> set (keys groups) \<longleftrightarrow> p \<in> all_paths r ?msgs" for p
      using collect_groups [OF c, of p] dict_get_None_iff [of groups p]
      by (auto simp: all_paths_def split: if_splits)
    have g: "dict_get_or groups p (NInt 0) = group_level r p ?msgs (NInt 0)" if "p \<in> all_paths r ?msgs" for p
      using collect_groups [OF c, of p] that by (auto simp: all_paths_def dict_get_or_def)
    have "sort (keys groups) = sorted_list_of_set (all_paths r ?msgs)"
      using collect_wf [OF c] k fin by (intro sorted_distinct_set_unique) (auto simp: wf_dict_def)
    moreover have "mapE (\<lambda>path. case dict_get leaves path of Some st \<Rightarrow> Inr st
          | None \<Rightarrow> to_group_status ub path (dict_get_or groups path (NInt 0))) ps = mapE (status_at ub so r ?msgs) ps"
      if "set ps \<subseteq> all_paths r ?msgs" for ps
      using that
    proof (induction ps)
      case (Cons p ps)
      have "(case dict_get leaves p of Some st \<Rightarrow> Inr st | None \<Rightarrow> to_group_status ub p (dict_get_or groups p (NInt 0))) =
          status_at ub so r ?msgs p"
        using collect_leaves [OF c, of p] g [of p] Cons.prems by (auto simp: status_at_def split: option.splits)
      with Cons show ?case by simp
    qed simp
    ultimately show ?thesis using fin by (simp add: build_aggregated_statuses_def c Let_def)
  qed
qed

subsection \<open>Which messages the sink accepts\<close>

definition byte_level :: "pynum \<Rightarrow> bool" where
  "byte_level n = (case n of NInt i \<Rightarrow> 0 \<le> i \<and> i \<le> 255 | NFlt _ \<Rightarrow> False)"

definition ros_accepts :: "bool \<Rightarrow> DiagnosticsMessage \<Rightarrow> bool" where
  "ros_accepts uses_bytes m = (uses_bytes \<longrightarrow> byte_level (m_level m))"

lemma to_level_ok: "(\<exists>l. to_level ub n = Inr l) \<longleftrightarrow> (ub \<longrightarrow> byte_level n)"
  by (cases n) (auto simp: byte_level_def)

lemma to_status_ok: "(\<exists>st. to_status ub so m name = Inr st) \<longleftrightarrow> ros_accepts ub m"
  using to_level_ok [of ub "m_level m"] by (auto simp: to_status_def ros_accepts_def bindE_Inr_iff)

lemma byte_level_group:
  "byte_level g \<Longrightarrow> \<forall>m \<in> set msgs. byte_level (m_level m) \<Longrightarrow> byte_level (group_level r p msgs g)"
  unfolding group_level_def by (induction msgs arbitrary: g) (auto simp: num_max_def)

lemma status_at_ok:
  assumes "\<forall>m \<in> set msgs. ros_accepts ub m"
  shows "\<exists>st. status_at ub so r msgs p = Inr st"
proof (cases "leaf_of r p msgs")
  case (Some m)
  then show ?thesis using assms to_status_ok [of ub so m "Some p"] leaf_of_Some [OF Some] by (auto simp: status_at_def)
next
  case None
  have "ub \<longrightarrow> byte_level (group_level r p msgs (NInt 0))"
    using assms byte_level_group [of "NInt 0" msgs r p] by (auto simp: ros_accepts_def byte_level_def)
  then show ?thesis using None to_level_ok [of ub "group_level r p msgs (NInt 0)"]
    by (auto simp: status_at_def to_group_status_def bindE_Inr_iff)
qed

lemma collect_ok: "(\<exists>gl. collect_statuses ub so r msgs groups leaves = Inr gl) \<longleftrightarrow> (\<forall>m \<in> set msgs. ros_accepts ub m)"
proof (induction msgs arbitrary: groups leaves)
  case (Cons m msgs)
  then show ?case
    using to_status_ok [of ub so m "Some (leaf_path r m)"] by (auto simp: collect_Cons bindE_Inr_iff)
qed simp

lemma mapE_total: "(\<And>x. x \<in> set xs \<Longrightarrow> \<exists>y. f x = Inr y) \<Longrightarrow> \<exists>ys. mapE f xs = Inr ys"
proof (induction xs)
  case (Cons x xs)
  obtain y where "f x = Inr y" using Cons.prems [of x] by auto
  moreover obtain ys where "mapE f xs = Inr ys" using Cons by auto
  ultimately show ?case by simp
qed simp

lemma build_ok:
  "(\<exists>sts. build_aggregated_statuses ub so r states = Inr sts) \<longleftrightarrow> (\<forall>e \<in> set states. ros_accepts ub (snd e))"
proof
  let ?msgs = "map snd (sort_key fst states)"
  have msgs: "(\<forall>m \<in> set ?msgs. ros_accepts ub m) \<longleftrightarrow> (\<forall>e \<in> set states. ros_accepts ub (snd e))" by simp
  {
    assume "\<exists>sts. build_aggregated_statuses ub so r states = Inr sts"
    then obtain sts where "build_aggregated_statuses ub so r states = Inr sts" ..
    then have "\<exists>gl. collect_statuses ub so r ?msgs [] [] = Inr gl"
      unfolding build_eq Let_def by (cases "collect_statuses ub so r ?msgs [] []") simp_all
    then show "\<forall>e \<in> set states. ros_accepts ub (snd e)" unfolding collect_ok msgs .
  }
  assume a: "\<forall>e \<in> set states. ros_accepts ub (snd e)"
  then have acc: "\<forall>m \<in> set ?msgs. ros_accepts ub m" unfolding msgs .
  then obtain gl where "collect_statuses ub so r ?msgs [] [] = Inr gl"
    using collect_ok [of ub so r ?msgs "[]" "[]"] by blast
  moreover obtain sts where "mapE (status_at ub so r ?msgs) (sorted_list_of_set (all_paths r ?msgs)) = Inr sts"
    using mapE_total [of _ "status_at ub so r ?msgs"] status_at_ok [OF acc] by blast
  ultimately show "\<exists>sts. build_aggregated_statuses ub so r states = Inr sts" unfolding build_eq Let_def by simp
qed

lemma ros_publish_ok:
  "(\<And>n. re_publish env n = None) \<Longrightarrow> (\<And>e. e \<in> set states \<Longrightarrow> ros_accepts ub (snd e)) \<Longrightarrow>
   snd (ros_publish env ub so states s) = None"
  using build_ok [of ub so "ro_root s" states] by (auto simp: ros_publish_def Let_def split: sum.splits)

text \<open>The sink meets the aggregator's contract as long as its publisher does not raise.\<close>

interpretation ros: sink_contract "ros_ops env ub so" "\<lambda>s. \<forall>n. re_publish env n = None" "ros_accepts ub"
  for env :: ros_env and ub so
  by unfold_locales (auto simp: ros_ops_def ros_publish_ok ros_accepts_def byte_level_def stale_version_def)

subsection \<open>The rate\<close>

definition ros_mark :: "ros_sink \<Rightarrow> pyfloat \<Rightarrow> ros_sink" where
  "ros_mark s now = s\<lparr>ro_last := Some now\<rparr>"

interpretation ros_rate: rate_limiter ros_due ros_mark ro_last ro_period "\<lambda>t. True"
  by unfold_locales (auto simp: ros_due_def ros_mark_def)

text \<open>A run of publishes, up to the first exception, and the readings at which an array was built.\<close>

fun ros_run ::
  "ros_env \<Rightarrow> bool \<Rightarrow> (pyval \<Rightarrow> string) \<Rightarrow> (string, DiagnosticsMessage) dict list \<Rightarrow> ros_sink \<Rightarrow>
   ros_sink \<times> pyfloat list \<times> py_exc option" where
  "ros_run env ub so [] s = (s, [], None)"
| "ros_run env ub so (st # sts) s =
     (let (s1, e) = ros_publish env ub so st s;
          t = (if ros_due s (re_rate env (ro_reads s)) then [re_rate env (ro_reads s)] else [])
      in case e of
           Some x \<Rightarrow> (s1, t, Some x)
         | None \<Rightarrow> (let (s2, ts, e2) = ros_run env ub so sts s1 in (s2, t @ ts, e2)))"

lemma ros_fired_cong: "ro_last a = ro_last b \<Longrightarrow> ro_period a = ro_period b \<Longrightarrow> ros_rate.fired a rs = ros_rate.fired b rs"
proof (induction rs arbitrary: a b)
  case (Cons r rs)
  obtain d c x where r: "r = (d, c, x)" using prod_cases3 by blast
  have "ros_rate.fired (ros_mark a c) rs = ros_rate.fired (ros_mark b c) rs"
    using Cons.prems by (intro Cons.IH) (simp_all add: ros_mark_def)
  moreover have "ros_rate.fired a rs = ros_rate.fired b rs" using Cons.prems by (intro Cons.IH)
  moreover have "ros_due a d = ros_due b d" unfolding ros_due_def Cons.prems ..
  ultimately show ?case by (simp add: r)
qed simp

lemma ros_publish_marks:
  "ro_last (fst (ros_publish env ub so st s)) =
     (if ros_due s (re_rate env (ro_reads s)) then Some (re_rate env (ro_reads s)) else ro_last s)"
  "ro_period (fst (ros_publish env ub so st s)) = ro_period s"
  by (auto simp: ros_publish_def ros_due_def Let_def split: sum.splits option.splits)

lemma ros_run_fired: "\<exists>rs. map (\<lambda>t. (t, t)) (fst (snd (ros_run env ub so sts s))) = ros_rate.fired s rs"
proof (induction sts arbitrary: s)
  case Nil
  have "map (\<lambda>t. (t, t)) (fst (snd (ros_run env ub so [] s))) = ros_rate.fired s []" by simp
  then show ?case ..
next
  case (Cons st sts)
  let ?t = "re_rate env (ro_reads s)"
  obtain s1 e where p: "ros_publish env ub so st s = (s1, e)" by fastforce
  obtain rs where rs: "map (\<lambda>t. (t, t)) (fst (snd (ros_run env ub so sts s1))) = ros_rate.fired s1 rs"
    using Cons.IH by blast
  have "ros_rate.fired s1 rs = ros_rate.fired (if ros_due s ?t then ros_mark s ?t else s) rs"
    using ros_publish_marks [of env ub so st s] by (intro ros_fired_cong) (auto simp: p ros_mark_def)
  then have "map (\<lambda>t. (t, t)) (fst (snd (ros_run env ub so (st # sts) s))) =
      (if e = None then ros_rate.fired s ((?t, ?t, True) # rs) else ros_rate.fired s [(?t, ?t, True)])"
    using rs by (auto simp: p Let_def split: prod.splits option.splits)
  then show ?case by metis
qed

subsection \<open>The level of a group\<close>

lemma num_val_max:
  "num_val a \<noteq> NaN \<Longrightarrow> num_val b \<noteq> NaN \<Longrightarrow> num_val (num_max a b) = max (num_val a) (num_val b)"
  by (cases "num_val a"; cases "num_val b") (auto simp: num_max_def max_def less_eq_pyfloat_def)

lemma level_ok_not_NaN: "level_ok n \<Longrightarrow> num_val n \<noteq> NaN"
  by (auto simp: level_ok_def num_eq_def feq_def)

lemma group_level_Max:
  assumes "\<forall>m \<in> set msgs. num_val (m_level m) \<noteq> NaN" and "num_val g \<noteq> NaN"
  shows "num_val (group_level r p msgs g) =
    Max (insert (num_val g) ((\<lambda>m. num_val (m_level m)) ` {m \<in> set msgs. p \<in> paths r m}))"
  using assms
proof (induction msgs arbitrary: g)
  case (Cons m msgs)
  let ?S = "(\<lambda>m. num_val (m_level m)) ` {m \<in> set msgs. p \<in> paths r m}"
  show ?case
  proof (cases "p \<in> paths r m")
    case True
    have v: "num_val (num_max g (m_level m)) = max (num_val g) (num_val (m_level m))"
      using Cons.prems by (intro num_val_max) auto
    have "num_val (num_max g (m_level m)) \<noteq> NaN" using Cons.prems by (auto simp: v max_def)
    then have "num_val (group_level r p (m # msgs) g) = Max (insert (max (num_val g) (num_val (m_level m))) ?S)"
      using Cons.IH [of "num_max g (m_level m)"] Cons.prems True by (simp add: group_level_def v)
    also have "\<dots> = Max (insert (num_val g) (insert (num_val (m_level m)) ?S))"
    proof (cases "?S = {}")
      case False
      then show ?thesis by (simp add: max.assoc)
    qed (simp del: image_is_empty Collect_empty_eq)
    also have "insert (num_val (m_level m)) ?S = (\<lambda>m. num_val (m_level m)) ` {m' \<in> set (m # msgs). p \<in> paths r m'}"
      using True by auto
    finally show ?thesis .
  next
    case False
    then have "{m' \<in> set (m # msgs). p \<in> paths r m'} = {m' \<in> set msgs. p \<in> paths r m'}" by auto
    with False Cons show ?thesis by (simp add: group_level_def)
  qed
qed (simp add: group_level_def)

lemma status_at_name: "status_at ub so r msgs p = Inr st \<Longrightarrow> rs_name st = p"
  by (auto simp: status_at_def to_status_def to_group_status_def bindE_Inr_iff split: option.splits)

lemma build_Inr:
  assumes "build_aggregated_statuses ub so r states = Inr sts"
  shows "list_all2 (\<lambda>p st. status_at ub so r (map snd (sort_key fst states)) p = Inr st)
      (sorted_list_of_set (all_paths r (map snd states))) sts"
proof -
  have "all_paths r (map snd (sort_key fst states)) = all_paths r (map snd states)" by (simp add: all_paths_def)
  then have "mapE (status_at ub so r (map snd (sort_key fst states))) (sorted_list_of_set (all_paths r (map snd states))) = Inr sts"
    using assms unfolding build_eq Let_def by (auto simp only: bindE_Inr_iff)
  then show ?thesis unfolding mapE_Inr_iff .
qed

lemma build_names:
  "build_aggregated_statuses ub so r states = Inr sts \<Longrightarrow> map rs_name sts = sorted_list_of_set (all_paths r (map snd states))"
  by (drule build_Inr, induction rule: list_all2_induct) (auto dest: status_at_name)

lemma build_member:
  assumes "build_aggregated_statuses ub so r states = Inr sts" and "st \<in> set sts"
  shows "status_at ub so r (map snd (sort_key fst states)) (rs_name st) = Inr st"
proof -
  from assms(2) build_Inr [OF assms(1)] obtain p where "status_at ub so r (map snd (sort_key fst states)) p = Inr st"
    unfolding list_all2_conv_all_nth in_set_conv_nth by force
  then show ?thesis using status_at_name by metis
qed

subsection \<open>Properties\<close>

definition demo_ros_env :: ros_env where
  "demo_ros_env = \<lparr>re_rate = (\<lambda>n. Fin (real n / 2)), re_stamp = (\<lambda>n. f0), re_publish = (\<lambda>n. None)\<rparr>"

definition demo_ros :: ros_sink where
  "demo_ros = \<lparr>ro_root = ''Robot'', ro_period = Fin 1, ro_last = None, ro_reads = 0, ro_stamps = 0, ro_arrays = []\<rparr>"

abbreviation demo_states :: "(string, DiagnosticsMessage) dict" where
  "demo_states \<equiv> [(''/x/b'', demo_msg ''/x/b'' 2), (''x/a'', demo_msg ''x/a'' 0), (''/Robot/x/a/c'', demo_msg ''/Robot/x/a/c'' 1)]"

lemma demo_paths:
  "segs ''Robot'' (demo_msg ''/x/b'' l) = [''Robot'', ''x'', ''b'']"
  "segs ''Robot'' (demo_msg ''x/a'' l) = [''Robot'', ''x'', ''a'']"
  "segs ''Robot'' (demo_msg ''/Robot/x/a/c'' l) = [''Robot'', ''x'', ''a'', ''c'']"
  by (simp_all add: segs_def aggregate_segments_def strip_chars_def strip_by_def demo_msg_def)

lemma demo_build: "\<exists>sts. build_aggregated_statuses ub so r demo_states = Inr sts"
  by (rule build_ok [THEN iffD2]) (simp add: ros_accepts_def byte_level_def demo_msg_def)

text \<open>C34: The published array is the whole hierarchy, each path once and in order: the names of the
  statuses are the sorted list of every prefix, starting at the aggregation root, of the path
  of every node in the state.\<close>

theorem ros_names_hierarchy:
  assumes "build_aggregated_statuses ub so r states = Inr sts"
  shows "map rs_name sts = sorted_list_of_set
    (\<Union>e \<in> set states. aggregate_path (aggregate_segments r (m_node (snd e))) `
       {1..length (aggregate_segments r (m_node (snd e)))})"
proof -
  have "all_paths r (map snd states) =
    (\<Union>e \<in> set states. aggregate_path (aggregate_segments r (m_node (snd e))) `
       {1..length (aggregate_segments r (m_node (snd e)))})"
    by (simp add: all_paths_def paths_def segs_def)
  then show ?thesis using build_names [OF assms] by simp
qed

theorem ros_names_hierarchy_witness:
  "\<exists>sts. build_aggregated_statuses True (\<lambda>v. []) ''Robot'' demo_states = Inr sts \<and>
     ''/Robot/x'' \<in> rs_name ` set sts \<and> ''/Robot/x/a/c'' \<in> rs_name ` set sts"
proof -
  obtain sts where sts: "build_aggregated_statuses True (\<lambda>v. []) ''Robot'' demo_states = Inr sts" using demo_build by blast
  let ?P = "\<lambda>e. aggregate_path (aggregate_segments ''Robot'' (m_node (snd e))) `
       {1..length (aggregate_segments ''Robot'' (m_node (snd e)))}"
  let ?e = "(''/Robot/x/a/c'', demo_msg ''/Robot/x/a/c'' 1)"
  have "aggregate_path [''Robot'', ''x'', ''a'', ''c''] 2 \<in> ?P ?e" "aggregate_path [''Robot'', ''x'', ''a'', ''c''] 4 \<in> ?P ?e"
    unfolding snd_conv demo_paths [unfolded segs_def] by (rule imageI, simp)+
  then have "''/Robot/x'' \<in> ?P ?e" "''/Robot/x/a/c'' \<in> ?P ?e" by (simp_all add: aggregate_path_def)
  then have "''/Robot/x'' \<in> (\<Union>e \<in> set demo_states. ?P e)" "''/Robot/x/a/c'' \<in> (\<Union>e \<in> set demo_states. ?P e)"
    by (auto simp only: UN_iff set_simps insert_iff)
  moreover have "set (map rs_name sts) = (\<Union>e \<in> set demo_states. ?P e)"
    unfolding ros_names_hierarchy [OF sts] by (intro set_sorted_list_of_set finite_UN_I finite_set finite_imageI finite_atLeastAtMost)
  ultimately show ?thesis using sts by auto
qed

text \<open>C35: A group reports the worst level below it: for a path that is no node's own, the level is the
  greatest among 0 and the levels of the nodes whose path passes through it, and the message
  is that level's name.\<close>

theorem ros_group_worst:
  assumes "build_aggregated_statuses ub so r states = Inr sts" and "st \<in> set sts"
    and "\<And>e. e \<in> set states \<Longrightarrow> level_ok (m_level (snd e)) \<and> leaf_path r (snd e) \<noteq> rs_name st"
  shows "\<exists>g. to_level ub g = Inr (rs_level st) \<and> rs_message st = level_message g \<and>
    num_val g = Max (insert f0 ((\<lambda>e. num_val (m_level (snd e))) ` {e \<in> set states. rs_name st \<in> paths r (snd e)}))"
proof -
  let ?msgs = "map snd (sort_key fst states)" and ?p = "rs_name st"
  have "leaf_of r ?p ?msgs = None" unfolding leaf_of_None using assms(3) by auto
  then have s: "to_group_status ub ?p (group_level r ?p ?msgs (NInt 0)) = Inr st"
    using build_member [OF assms(1,2)] by (simp add: status_at_def)
  have "\<forall>m \<in> set ?msgs. num_val (m_level m) \<noteq> NaN" using assms(3) level_ok_not_NaN by auto
  then have "num_val (group_level r ?p ?msgs (NInt 0)) =
      Max (insert (num_val (NInt 0)) ((\<lambda>m. num_val (m_level m)) ` {m \<in> set ?msgs. ?p \<in> paths r m}))"
    by (intro group_level_Max) auto
  moreover have "(\<lambda>m. num_val (m_level m)) ` {m \<in> set ?msgs. ?p \<in> paths r m} =
      (\<lambda>e. num_val (m_level (snd e))) ` {e \<in> set states. ?p \<in> paths r (snd e)}" by force
  moreover obtain l where "to_level ub (group_level r ?p ?msgs (NInt 0)) = Inr l"
    "st = \<lparr>rs_level = l, rs_name = ?p, rs_message = level_message (group_level r ?p ?msgs (NInt 0)),
       rs_hardware_id = [], rs_values = []\<rparr>"
    using s by (auto simp: to_group_status_def bindE_Inr_iff)
  then have "to_level ub (group_level r ?p ?msgs (NInt 0)) = Inr (rs_level st) \<and>
      rs_message st = level_message (group_level r ?p ?msgs (NInt 0))" by (metis RosDiagnosticStatus.select_convs(1,3))
  ultimately show ?thesis by auto
qed

theorem ros_group_worst_witness:
  "\<exists>sts st. build_aggregated_statuses True (\<lambda>v. []) ''Robot'' [(''/x/b'', demo_msg ''/x/b'' 2)] = Inr sts \<and> st \<in> set sts \<and>
     rs_name st = ''/Robot/x'' \<and>
     (\<exists>g. to_level True g = Inr (rs_level st) \<and> rs_message st = level_message g \<and> num_val g = Fin 2)"
proof -
  let ?states = "[(''/x/b'', demo_msg ''/x/b'' 2)]"
  have leaf: "leaf_path ''Robot'' (demo_msg ''/x/b'' 2) = ''/Robot/x/b''" and
    x: "''/Robot/x'' \<in> paths ''Robot'' (demo_msg ''/x/b'' 2)"
    by (auto simp: leaf_path_def paths_def demo_paths aggregate_path_def image_iff intro!: bexI [of _ 2])
  obtain sts where sts: "build_aggregated_statuses True (\<lambda>v. []) ''Robot'' ?states = Inr sts"
    using build_ok [of True "\<lambda>v. []" "''Robot''" ?states] by (auto simp: ros_accepts_def byte_level_def demo_msg_def)
  have "finite (all_paths ''Robot'' (map snd ?states))" by (simp add: all_paths_def paths_def)
  then have "''/Robot/x'' \<in> set (map rs_name sts)" unfolding build_names [OF sts] using x by (simp add: all_paths_def)
  then obtain st where st: "st \<in> set sts" "rs_name st = ''/Robot/x''" by auto
  have "((\<lambda>e. num_val (m_level (snd e))) ` {e \<in> set ?states. rs_name st \<in> paths ''Robot'' (snd e)}) = {Fin 2}"
    using x st(2) by (auto simp: demo_msg_def)
  then have "Max (insert f0 ((\<lambda>e. num_val (m_level (snd e))) ` {e \<in> set ?states. rs_name st \<in> paths ''Robot'' (snd e)})) = Fin 2"
    by (simp add: max_def)
  with ros_group_worst [OF sts st(1)] show ?thesis
    using sts st leaf by (auto simp: demo_msg_def level_ok_NInt)
qed

text \<open>A node keeps its own status whatever lies below it: when no other node has the same path, the
  status published under the path carries the node's own level, message, hardware id and
  values, even where a node deeper in the hierarchy is worse.\<close>

theorem ros_leaf_own_status:
  assumes "build_aggregated_statuses ub so r states = Inr sts" and "e \<in> set states"
    and "\<And>e'. e' \<in> set states \<Longrightarrow> leaf_path r (snd e') = leaf_path r (snd e) \<Longrightarrow> snd e' = snd e"
  shows "\<exists>st \<in> set sts. rs_name st = leaf_path r (snd e) \<and> to_level ub (m_level (snd e)) = Inr (rs_level st) \<and>
    rs_message st = m_msg (snd e) \<and> rs_hardware_id st = m_hw_id (snd e) \<and>
    rs_values st = map (to_kv so) (m_values (snd e))"
proof -
  let ?msgs = "map snd (sort_key fst states)" and ?p = "leaf_path r (snd e)"
  have "\<exists>m. leaf_of r ?p ?msgs = Some m"
    using leaf_of_None [of r ?p ?msgs] assms(2) by (cases "leaf_of r ?p ?msgs") auto
  then obtain m where m: "leaf_of r ?p ?msgs = Some m" ..
  from leaf_of_Some [OF m] assms(3) have "m = snd e" by auto
  then have own: "status_at ub so r ?msgs ?p = to_status ub so (snd e) (Some ?p)" using m by (simp add: status_at_def)
  have "finite (all_paths r (map snd states))" by (simp add: all_paths_def paths_def)
  moreover have "?p \<in> all_paths r (map snd states)" using assms(2) leaf_in_paths [of r "snd e"] by (auto simp: all_paths_def)
  ultimately have "?p \<in> set (map rs_name sts)" unfolding build_names [OF assms(1)] by simp
  then obtain st where st: "st \<in> set sts" "rs_name st = ?p" by auto
  with build_member [OF assms(1) st(1)] own have "to_status ub so (snd e) (Some ?p) = Inr st" by simp
  then show ?thesis using st by (auto simp: to_status_def bindE_Inr_iff intro!: bexI [OF _ st(1)])
qed

text \<open>Here the node \<open>/Robot/x/a\<close> stays OK above the WARN of \<open>/Robot/x/a/c\<close>.\<close>

theorem ros_leaf_own_status_witness:
  "\<exists>sts. build_aggregated_statuses False (\<lambda>v. []) ''Robot'' demo_states = Inr sts \<and>
     (\<exists>st \<in> set sts. rs_name st = ''/Robot/x/a'' \<and> rs_level st = LInt (NInt 0))"
proof -
  obtain sts where sts: "build_aggregated_statuses False (\<lambda>v. []) ''Robot'' demo_states = Inr sts" using demo_build by blast
  have leaf: "leaf_path ''Robot'' (demo_msg ''/x/b'' 2) = ''/Robot/x/b''" "leaf_path ''Robot'' (demo_msg ''x/a'' 0) = ''/Robot/x/a''"
    "leaf_path ''Robot'' (demo_msg ''/Robot/x/a/c'' 1) = ''/Robot/x/a/c''"
    by (simp_all add: leaf_path_def demo_paths aggregate_path_def)
  have only: "e' \<in> set demo_states \<Longrightarrow> leaf_path ''Robot'' (snd e') = ''/Robot/x/a'' \<Longrightarrow> snd e' = demo_msg ''x/a'' 0" for e'
    by (auto simp: leaf)
  have "\<exists>st \<in> set sts. rs_name st = ''/Robot/x/a'' \<and> to_level False (m_level (demo_msg ''x/a'' 0)) = Inr (rs_level st)"
    using ros_leaf_own_status [OF sts, of "(''x/a'', demo_msg ''x/a'' 0)"] only unfolding snd_conv leaf by auto
  with sts show ?thesis by (auto simp: demo_msg_def)
qed

text \<open>C36: The sink raises on publishing exactly when the rate limit lets it publish and, with a message
  type whose level is a byte, some node's level is not an integer between 0 and 255. JSON
  writes of the level 1.0, which the schema counts as an integer, are such levels.\<close>

theorem ros_publish_raises_iff:
  assumes "\<And>n. re_publish env n = None"
  shows "snd (ros_publish env ub so states s) \<noteq> None \<longleftrightarrow>
    ros_due s (re_rate env (ro_reads s)) \<and> ub \<and> (\<exists>e \<in> set states. \<forall>i. m_level (snd e) = NInt i \<longrightarrow> i < 0 \<or> 255 < i)"
proof -
  have b: "ub \<and> (\<exists>e \<in> set states. \<forall>i. m_level (snd e) = NInt i \<longrightarrow> i < 0 \<or> 255 < i) \<longleftrightarrow>
      (\<forall>sts. build_aggregated_statuses ub so (ro_root s) states \<noteq> Inr sts)"
  proof -
    have "byte_level n \<longleftrightarrow> \<not> (\<forall>i. n = NInt i \<longrightarrow> i < 0 \<or> 255 < i)" for n
      by (cases n) (auto simp: byte_level_def)
    then show ?thesis using build_ok [of ub so "ro_root s" states] by (auto simp: ros_accepts_def)
  qed
  have d: "ros_due (s\<lparr>ro_reads := n\<rparr>) t = ros_due s t" for n t by (cases "ro_last s") (simp_all add: ros_due_def)
  show ?thesis unfolding b using assms
    by (cases "build_aggregated_statuses ub so (ro_root s) states") (auto simp: ros_publish_def Let_def d)
qed

theorem ros_publish_raises_iff_witness:
  "message_schema (PDict [(''v'', PInt 1), (''node'', PStr ''n1''), (''hw_id'', PStr ''hw''), (''stamp'', PInt 1),
      (''level'', PFloat (Fin 1)), (''msg'', PStr ''WARN''), (''values'', PList [])]) \<and>
   snd (ros_publish demo_ros_env True (\<lambda>v. []) [(''n1'', (demo_msg ''n1'' 0)\<lparr>m_level := NFlt (Fin 1)\<rparr>)] demo_ros) \<noteq> None"
proof
  show "message_schema (PDict [(''v'', PInt 1), (''node'', PStr ''n1''), (''hw_id'', PStr ''hw''), (''stamp'', PInt 1),
      (''level'', PFloat (Fin 1)), (''msg'', PStr ''WARN''), (''values'', PList [])])"
    by (simp add: message_schema_def has_def is_string_def is_nonempty_string_def is_number_def
        is_level_def is_entries_def num_eq_def feq_def)
  show "snd (ros_publish demo_ros_env True (\<lambda>v. []) [(''n1'', (demo_msg ''n1'' 0)\<lparr>m_level := NFlt (Fin 1)\<rparr>)] demo_ros) \<noteq> None"
    by (subst ros_publish_raises_iff) (auto simp: demo_ros_env_def demo_ros_def ros_due_def)
qed

text \<open>Arrays are built at most at the configured rate: for two consecutive publishes that go past
  the rate limit, the readings of the rate clock differ by no less than the period.\<close>

theorem ros_publishes_spaced:
  "successively (\<lambda>t u. \<not> flt (fsub u t) (ro_period s)) (fst (snd (ros_run env ub so sts s)))"
proof -
  obtain rs where "map (\<lambda>t. (t, t)) (fst (snd (ros_run env ub so sts s))) = ros_rate.fired s rs"
    using ros_run_fired by blast
  then have "successively (ros_rate.spaced (ro_period s)) (map (\<lambda>t. (t, t)) (fst (snd (ros_run env ub so sts s))))"
    using ros_rate.fired_spaced [of rs s] by simp
  then show ?thesis by (simp add: successively_map ros_rate.spaced_def)
qed

end
