(* ===== verification/Ros_Source.thy ===== *)
theory Ros_Source
  imports Aggregator
begin

text \<open>
  \<^verbatim>\<open>sources/ros_diagnostics_source.py\<close>: ROS diagnostic arrays become normalised messages. The
  middleware is an environment: \<open>se_spin n\<close> gives the arrays its n-th call of \<open>spin_once\<close> hands
  to the callback and the exception it raises, if any, \<open>se_time\<close> the clock readings. An array
  is what the code reads of it: the stamp with its optional parts, and the statuses. The
  lemmas show the message each status becomes, that a poll hands over every pending message
  once and in order, and when a poll raises.
\<close>

datatype ros_in_level = LvBytes "int list" | LvStr string | LvVal pyval

record ros_in_status =
  ri_name :: string
  ri_hardware_id :: string
  ri_message :: string
  ri_level :: ros_in_level
  ri_values :: "(string \<times> string) list"

record ros_array =
  ra_stamp :: "(int option \<times> int option) option"
  ra_status :: "ros_in_status list"

record source_env =
  se_time :: clock
  se_spin :: "nat \<Rightarrow> ros_array list \<times> py_exc option"

record ros_source =
  rq_pending :: "DiagnosticsMessage list"
  rq_reads :: nat
  rq_spins :: nat
  rq_subscribed :: bool
  rq_node :: bool
  rq_shut_down :: bool

definition ros_source_init :: ros_source where
  "ros_source_init = \<lparr>rq_pending = [], rq_reads = 0, rq_spins = 0, rq_subscribed = True, rq_node = True, rq_shut_down = False\<rparr>"

text \<open>\<open>str.isdigit\<close> also holds of the superscripts two, three and one.\<close>

definition py_isdigit :: "string \<Rightarrow> bool" where
  "py_isdigit s = (s \<noteq> [] \<and> list_all (\<lambda>c. is_digit c \<or> code_pt c \<in> {178, 179, 185}) s)"

definition level_to_int :: "ros_in_level \<Rightarrow> int result" where
  "level_to_int level =
     (case level of
        LvBytes bs \<Rightarrow> Inr (case bs of [] \<Rightarrow> 0 | b # _ \<Rightarrow> b)
      | LvStr s \<Rightarrow>
          (if py_isdigit s then py_int (PStr s)
           else case s of
             [c] \<Rightarrow> Inr (int (code_pt c))
           | _ \<Rightarrow> py_int (PStr s))
      | LvVal v \<Rightarrow> py_int v)"

definition stamp_to_seconds :: "(int option \<times> int option) option \<Rightarrow> pyfloat \<Rightarrow> pyfloat result" where
  "stamp_to_seconds stamp fallback =
     (case stamp of
        Some (Some sec, Some nanosec) \<Rightarrow>
          bindE (float_of_int sec) (\<lambda>s.
          bindE (float_of_int nanosec) (\<lambda>n. Inr (fadd s (fmul n (Fin (1 / 10 ^ 9))))))
      | _ \<Rightarrow> Inr fallback)"

definition status_message :: "pyfloat \<Rightarrow> ros_in_status \<Rightarrow> DiagnosticsMessage result" where
  "status_message stamp st =
     bindE (level_to_int (ri_level st)) (\<lambda>level.
       Inr \<lparr>m_v = 1, m_node = ri_name st, m_hw_id = ri_hardware_id st, m_stamp = stamp, m_level = NInt level,
            m_msg = ri_message st,
            m_values = map (\<lambda>(k, v). \<lparr>kv_key = k, kv_value = PStr v\<rparr>) (ri_values st)\<rparr>)"

text \<open>The loop of the callback; what was appended before an exception stays pending.\<close>

fun handle_statuses :: "pyfloat \<Rightarrow> ros_in_status list \<Rightarrow> DiagnosticsMessage list \<Rightarrow> DiagnosticsMessage list \<times> py_exc option" where
  "handle_statuses stamp [] pending = (pending, None)"
| "handle_statuses stamp (st # sts) pending =
     (case status_message stamp st of
        Inl e \<Rightarrow> (pending, Some e)
      | Inr m \<Rightarrow> handle_statuses stamp sts (pending @ [m]))"

definition handle_array :: "source_env \<Rightarrow> ros_array \<Rightarrow> ros_source \<Rightarrow> ros_source \<times> py_exc option" where
  "handle_array env array src =
     (let receive_time = se_time env (rq_reads src); src1 = src\<lparr>rq_reads := rq_reads src + 1\<rparr> in
      case stamp_to_seconds (ra_stamp array) receive_time of
        Inl e \<Rightarrow> (src1, Some e)
      | Inr stamp \<Rightarrow>
          (case handle_statuses stamp (ra_status array) (rq_pending src1) of
             (pending, e) \<Rightarrow> (src1\<lparr>rq_pending := pending\<rparr>, e)))"

fun handle_arrays :: "source_env \<Rightarrow> ros_array list \<Rightarrow> ros_source \<Rightarrow> ros_source \<times> py_exc option" where
  "handle_arrays env [] src = (src, None)"
| "handle_arrays env (a # as) src =
     (case handle_array env a src of
        (src1, Some e) \<Rightarrow> (src1, Some e)
      | (src1, None) \<Rightarrow> handle_arrays env as src1)"

definition ros_poll :: "source_env \<Rightarrow> int \<Rightarrow> ros_source \<Rightarrow> ros_source \<times> DiagnosticsMessage list result" where
  "ros_poll env timeout_ms src =
     (let (arrays, spin_error) = se_spin env (rq_spins src); src1 = src\<lparr>rq_spins := rq_spins src + 1\<rparr> in
      case handle_arrays env arrays src1 of
        (src2, Some e) \<Rightarrow> (src2, Inl e)
      | (src2, None) \<Rightarrow>
          (case spin_error of
             Some e \<Rightarrow> (src2, Inl e)
           | None \<Rightarrow> (src2\<lparr>rq_pending := []\<rparr>, Inr (rq_pending src2))))"

text \<open>\<open>close\<close>: what is destroyed depends on what the node offers and whether a shutdown was given.\<close>

definition ros_source_close :: "bool \<Rightarrow> bool \<Rightarrow> bool \<Rightarrow> ros_source \<Rightarrow> ros_source \<times> py_exc option" where
  "ros_source_close has_destroy_subscription has_destroy_node has_shutdown src =
     (let src1 = (if has_destroy_subscription then src\<lparr>rq_subscribed := False\<rparr> else src);
          src2 = (if has_destroy_node then src1\<lparr>rq_node := False\<rparr> else src1)
      in (if has_shutdown then src2\<lparr>rq_shut_down := True\<rparr> else src2, None))"

definition ros_source_ops :: "source_env \<Rightarrow> ros_source source_ops" where
  "ros_source_ops env = \<lparr>sr_poll = ros_poll env, sr_close = ros_source_close True True True\<rparr>"

subsection \<open>Arrays the source can take\<close>

definition level_fine :: "ros_in_level \<Rightarrow> bool" where
  "level_fine level = (case level of
      LvBytes bs \<Rightarrow> list_all (\<lambda>b. 0 \<le> b \<and> b \<le> 255) bs
    | LvVal (PNum (NInt i)) \<Rightarrow> 0 \<le> i \<and> i \<le> 255
    | LvStr [c] \<Rightarrow> code_pt c \<notin> {178, 179, 185}
    | _ \<Rightarrow> False)"

definition array_fine :: "ros_array \<Rightarrow> bool" where
  "array_fine a = ((case ra_stamp a of Some (Some s, Some n) \<Rightarrow> \<bar>s\<bar> < float_bound \<and> \<bar>n\<bar> < float_bound | _ \<Rightarrow> True) \<and>
     (\<forall>st \<in> set (ra_status a). level_fine (ri_level st)))"

definition spins_fine :: "source_env \<Rightarrow> bool" where
  "spins_fine env = (\<forall>n. snd (se_spin env n) = None \<and> (\<forall>a \<in> set (fst (se_spin env n)). array_fine a))"

text \<open>What every message of the source satisfies: texts as values, a level that fits a byte.\<close>

definition ros_message :: "DiagnosticsMessage \<Rightarrow> bool" where
  "ros_message m = ((\<exists>i. m_level m = NInt i \<and> 0 \<le> i \<and> i \<le> 255) \<and> (\<forall>kv \<in> set (m_values m). \<exists>s. kv_value kv = PStr s))"

lemma digit_code: "is_digit c \<Longrightarrow> py_int (PStr [c]) = Inr (int (code_pt c) - 48)"
proof -
  assume d: "is_digit c"
  then have "strip [c] = [c]" by (simp add: strip_def strip_by_id digit_not_space)
  then show ?thesis using d digit_not_sign [OF d] digit_not_underscore [OF d]
    by (simp add: parse_int_def split_sign_def us_digits_val_def digits_val_def digit_val_def is_digit_def)
qed

lemma level_fine_int: "level_fine level \<Longrightarrow> \<exists>i. level_to_int level = Inr i \<and> 0 \<le> i \<and> i \<le> 255"
proof (cases level)
  case (LvBytes bs)
  then show "level_fine level \<Longrightarrow> ?thesis" by (cases bs) (auto simp: level_fine_def level_to_int_def)
next
  case (LvStr s)
  assume f: "level_fine level"
  then obtain c where c: "s = [c]" "code_pt c \<notin> {178, 179, 185}"
    using LvStr by (auto simp: level_fine_def split: list.splits)
  have "code_pt c < 256" by (simp add: code_pt_def)
  then show ?thesis using LvStr c digit_code [of c]
    by (cases "is_digit c") (auto simp: level_to_int_def py_isdigit_def is_digit_def)
next
  case (LvVal v)
  assume f: "level_fine level"
  then show ?thesis using LvVal by (auto simp: level_fine_def level_to_int_def split: pyval.splits pynum.splits)
qed

lemma status_message_fine:
  "level_fine (ri_level st) \<Longrightarrow> \<exists>m. status_message stamp st = Inr m \<and> ros_message m"
  using level_fine_int [of "ri_level st"]
  by (auto simp: status_message_def ros_message_def)

lemma handle_statuses_fine:
  "\<forall>st \<in> set sts. level_fine (ri_level st) \<Longrightarrow> \<forall>m \<in> set pending. ros_message m \<Longrightarrow>
   \<exists>p. handle_statuses stamp sts pending = (p, None) \<and> (\<forall>m \<in> set p. ros_message m)"
proof (induction sts arbitrary: pending)
  case (Cons st sts)
  obtain m where m: "status_message stamp st = Inr m" "ros_message m" using Cons.prems(1) status_message_fine by fastforce
  then show ?case using Cons.IH [of "pending @ [m]"] Cons.prems by auto
qed simp

lemma stamp_fine: "array_fine a \<Longrightarrow> \<exists>stamp. stamp_to_seconds (ra_stamp a) t = Inr stamp"
  by (auto simp: stamp_to_seconds_def array_fine_def float_of_int_def split: option.splits prod.splits)

lemma handle_array_fine:
  assumes "array_fine a" and "\<forall>m \<in> set (rq_pending src). ros_message m"
  shows "\<exists>src'. handle_array env a src = (src', None) \<and> (\<forall>m \<in> set (rq_pending src'). ros_message m)"
proof -
  obtain stamp where s: "stamp_to_seconds (ra_stamp a) (se_time env (rq_reads src)) = Inr stamp"
    using stamp_fine [OF assms(1)] by blast
  obtain p where "handle_statuses stamp (ra_status a) (rq_pending src) = (p, None)" "\<forall>m \<in> set p. ros_message m"
    using handle_statuses_fine [of "ra_status a" "rq_pending src" stamp] assms by (auto simp: array_fine_def)
  then show ?thesis using s by (simp add: handle_array_def Let_def)
qed

lemma handle_arrays_fine:
  "\<forall>a \<in> set as. array_fine a \<Longrightarrow> \<forall>m \<in> set (rq_pending src). ros_message m \<Longrightarrow>
   \<exists>src'. handle_arrays env as src = (src', None) \<and> (\<forall>m \<in> set (rq_pending src'). ros_message m)"
proof (induction as arbitrary: src)
  case (Cons a as)
  then obtain src1 where "handle_array env a src = (src1, None)" "\<forall>m \<in> set (rq_pending src1). ros_message m"
    using handle_array_fine [of a src env] by auto
  then show ?case using Cons.IH [of src1] Cons.prems by auto
qed simp

lemma ros_poll_fine:
  assumes "spins_fine env" and "\<forall>m \<in> set (rq_pending src). ros_message m"
  shows "\<exists>src' ms. ros_poll env t src = (src', Inr ms) \<and> rq_pending src' = [] \<and> (\<forall>m \<in> set ms. ros_message m)"
proof -
  obtain arrays where a: "se_spin env (rq_spins src) = (arrays, None)" "\<forall>a \<in> set arrays. array_fine a"
    using assms(1) unfolding spins_fine_def by (metis prod.collapse)
  obtain src' where "handle_arrays env arrays (src\<lparr>rq_spins := rq_spins src + 1\<rparr>) = (src', None)"
    "\<forall>m \<in> set (rq_pending src'). ros_message m"
    using handle_arrays_fine [OF a(2), of "src\<lparr>rq_spins := rq_spins src + 1\<rparr>" env] assms(2) by auto
  then show ?thesis by (simp add: ros_poll_def a Let_def)
qed

text \<open>The source meets the aggregator's contract as long as the middleware delivers such arrays.\<close>

interpretation ros_in: source_contract "ros_source_ops env" "\<lambda>src. spins_fine env \<and> (\<forall>m \<in> set (rq_pending src). ros_message m)" ros_message
  for env :: source_env
proof
  fix src :: ros_source and t
  assume "spins_fine env \<and> (\<forall>m \<in> set (rq_pending src). ros_message m)"
  then show "\<exists>src' ms. sr_poll (ros_source_ops env) t src = (src', Inr ms) \<and>
      (spins_fine env \<and> (\<forall>m \<in> set (rq_pending src'). ros_message m)) \<and> (\<forall>m \<in> set ms. ros_message m)"
    using ros_poll_fine [of env src t] by (auto simp: ros_source_ops_def)
qed

subsection \<open>What a poll delivers\<close>

lemma handle_statuses_ok:
  "handle_statuses stamp sts pending = (p, None) \<longleftrightarrow>
   (\<exists>ms. p = pending @ ms \<and> list_all2 (\<lambda>st m. status_message stamp st = Inr m) sts ms)"
proof (induction sts arbitrary: pending)
  case (Cons st sts)
  then show ?case by (cases "status_message stamp st") (auto simp: list_all2_Cons1)
qed auto

text \<open>The messages of the arrays of one spin, each array with the reading its callback takes.\<close>

definition array_messages :: "source_env \<Rightarrow> nat \<times> ros_array \<Rightarrow> DiagnosticsMessage list \<Rightarrow> bool" where
  "array_messages env ia ms = (case ia of (i, a) \<Rightarrow>
     \<exists>stamp. stamp_to_seconds (ra_stamp a) (se_time env i) = Inr stamp \<and>
       list_all2 (\<lambda>st m. status_message stamp st = Inr m) (ra_status a) ms)"

lemma handle_array_ok:
  "handle_array env a src = (src', None) \<Longrightarrow>
   rq_reads src' = rq_reads src + 1 \<and>
   (\<exists>ms. rq_pending src' = rq_pending src @ ms \<and> array_messages env (rq_reads src, a) ms)"
  by (auto simp: handle_array_def array_messages_def handle_statuses_ok Let_def split: sum.splits prod.splits)

lemma handle_arrays_ok:
  "handle_arrays env as src = (src', None) \<Longrightarrow>
   \<exists>mss. rq_pending src' = rq_pending src @ concat mss \<and>
     list_all2 (array_messages env) (enumerate (rq_reads src) as) mss"
proof (induction as arbitrary: src)
  case Nil
  then show ?case by (intro exI [of _ "[]"]) simp
next
  case (Cons a as)
  then obtain src1 where a: "handle_array env a src = (src1, None)" and r: "handle_arrays env as src1 = (src', None)"
    by (auto split: prod.splits option.splits)
  from handle_array_ok [OF a] obtain ms where ms: "rq_reads src1 = rq_reads src + 1"
    "rq_pending src1 = rq_pending src @ ms" "array_messages env (rq_reads src, a) ms" by blast
  from Cons.IH [OF r] obtain mss where "rq_pending src' = rq_pending src1 @ concat mss"
    "list_all2 (array_messages env) (enumerate (rq_reads src1) as) mss" by blast
  with ms show ?case by (intro exI [of _ "ms # mss"]) simp
qed

text \<open>C37: A poll of the ROS source that returns hands over everything received and not handed over yet,
  each status once and in order: first what was left pending by a callback that failed, then,
  array by array, the message each status becomes; nothing stays pending.\<close>

theorem ros_poll_delivers_all:
  assumes "ros_poll env t src = (src', Inr ms)"
  shows "rq_pending src' = [] \<and> (\<exists>mss. ms = rq_pending src @ concat mss \<and>
    list_all2 (array_messages env) (enumerate (rq_reads src) (fst (se_spin env (rq_spins src)))) mss)"
proof -
  let ?src1 = "src\<lparr>rq_spins := rq_spins src + 1\<rparr>"
  obtain arrays e where sp: "se_spin env (rq_spins src) = (arrays, e)" by fastforce
  obtain src2 where h: "handle_arrays env arrays ?src1 = (src2, None)" "src' = src2\<lparr>rq_pending := []\<rparr>" "ms = rq_pending src2"
    using assms by (auto simp: ros_poll_def sp Let_def split: prod.splits option.splits)
  from handle_arrays_ok [OF h(1)] h sp show ?thesis by auto
qed

definition demo_source_env :: source_env where
  "demo_source_env = \<lparr>se_time = (\<lambda>n. Fin 7),
     se_spin = (\<lambda>n. ([\<lparr>ra_stamp = Some (Some 5, Some 500000000),
       ra_status = [\<lparr>ri_name = ''a'', ri_hardware_id = ''hw'', ri_message = ''OK'', ri_level = LvBytes [1],
         ri_values = [(''k'', ''v'')]\<rparr>]\<rparr>], None))\<rparr>"

theorem ros_poll_delivers_all_witness:
  "\<exists>src' m. ros_poll demo_source_env 100 ros_source_init = (src', Inr [m]) \<and> rq_pending src' = [] \<and>
     m_stamp m = Fin (11 / 2) \<and> m_level m = NInt 1"
proof -
  obtain src' m where r: "ros_poll demo_source_env 100 ros_source_init = (src', Inr [m])"
    and m: "m_stamp m = Fin (11 / 2)" "m_level m = NInt 1"
    by (simp add: ros_poll_def demo_source_env_def ros_source_init_def handle_array_def stamp_to_seconds_def
        status_message_def level_to_int_def float_of_int_small)
  with ros_poll_delivers_all [OF r] show ?thesis by blast
qed

end
