(* ===== verification/Pipeline.thy ===== *)
theory Pipeline
  imports Publisher Influx_Sink Json_File_Sink Stdout_Sink Ros_Sink Ros_Source
begin

text \<open>
  The aggregator on the program's own sinks and sources. A list of sinks of different classes
  is a list over the sum \<open>any_sink\<close>, and each operation is the method of the sink's class; the
  same for \<open>any_source\<close>. The contracts of the classes, interpreted in their own theories, give
  the contract of the sum, and with it the theorem that the aggregator keeps running.
\<close>

datatype any_sink = KInflux influx_sink | KJson json_sink | KStdout stdout_sink | KRos ros_sink

record sinks_env =
  ke_influx :: influx_env
  ke_disk :: json_env
  ke_clock :: clock
  ke_ros :: ros_env
  ke_uses_bytes :: bool
  ke_str_other :: "pyval \<Rightarrow> string"
  ke_float_repr :: "real \<Rightarrow> string"

definition wrap :: "('a \<Rightarrow> 'b) \<Rightarrow> 'a \<times> 'e \<Rightarrow> 'b \<times> 'e" where
  "wrap C r = (C (fst r), snd r)"

lemma wrap_simps [simp]: "fst (wrap C r) = C (fst r)" "snd (wrap C r) = snd r"
  by (simp_all add: wrap_def)

definition influx_of :: "sinks_env \<Rightarrow> influx_sink sink_ops" where
  "influx_of env = influx_ops (ke_influx env) (ke_str_other env)"

definition json_of :: "sinks_env \<Rightarrow> json_sink sink_ops" where
  "json_of env = json_ops (ke_disk env) (ke_float_repr env)"

definition stdout_of :: "sinks_env \<Rightarrow> stdout_sink sink_ops" where
  "stdout_of env = stdout_ops (ke_clock env) (ke_float_repr env)"

definition ros_of :: "sinks_env \<Rightarrow> ros_sink sink_ops" where
  "ros_of env = ros_ops (ke_ros env) (ke_uses_bytes env) (ke_str_other env)"

definition any_sink_ops :: "sinks_env \<Rightarrow> any_sink sink_ops" where
  "any_sink_ops env =
     \<lparr>so_handle = (\<lambda>m k. case k of
         KInflux s \<Rightarrow> wrap KInflux (so_handle (influx_of env) m s)
       | KJson s \<Rightarrow> wrap KJson (so_handle (json_of env) m s)
       | KStdout s \<Rightarrow> wrap KStdout (so_handle (stdout_of env) m s)
       | KRos s \<Rightarrow> wrap KRos (so_handle (ros_of env) m s)),
      so_publish = (\<lambda>st k. case k of
         KInflux s \<Rightarrow> wrap KInflux (so_publish (influx_of env) st s)
       | KJson s \<Rightarrow> wrap KJson (so_publish (json_of env) st s)
       | KStdout s \<Rightarrow> wrap KStdout (so_publish (stdout_of env) st s)
       | KRos s \<Rightarrow> wrap KRos (so_publish (ros_of env) st s)),
      so_close = (\<lambda>k. case k of
         KInflux s \<Rightarrow> wrap KInflux (so_close (influx_of env) s)
       | KJson s \<Rightarrow> wrap KJson (so_close (json_of env) s)
       | KStdout s \<Rightarrow> wrap KStdout (so_close (stdout_of env) s)
       | KRos s \<Rightarrow> wrap KRos (so_close (ros_of env) s))\<rparr>"

text \<open>An environment that lets the sinks work, and the messages all of them take.\<close>

definition sinks_env_ok :: "sinks_env \<Rightarrow> bool" where
  "sinks_env_ok env = ((\<forall>n. isfinite (ie_time (ke_influx env) n)) \<and> disk_ok (ke_disk env) \<and>
     (\<forall>n. re_publish (ke_ros env) n = None))"

definition all_accept :: "bool \<Rightarrow> DiagnosticsMessage \<Rightarrow> bool" where
  "all_accept uses_bytes m = (influx_accepts m \<and> ros_accepts uses_bytes m)"

interpretation sinks: sink_contract "any_sink_ops env" "\<lambda>k. sinks_env_ok env" "all_accept (ke_uses_bytes env)"
  for env :: sinks_env
proof
  fix k m
  assume e: "sinks_env_ok env" and a: "all_accept (ke_uses_bytes env) m"
  show "snd (so_handle (any_sink_ops env) m k) = None \<and> sinks_env_ok env"
    using e a influx.handle_ok [of "ke_influx env" m] json.handle_ok [of "ke_disk env"]
      stdout.handle_ok ros.handle_ok [of "ke_ros env" "ke_uses_bytes env" m]
    by (cases k) (auto simp: any_sink_ops_def influx_of_def json_of_def stdout_of_def ros_of_def sinks_env_ok_def all_accept_def)
next
  fix k and states :: "(string, DiagnosticsMessage) dict"
  assume e: "sinks_env_ok env" and a: "\<And>e. e \<in> set states \<Longrightarrow> all_accept (ke_uses_bytes env) (snd e)"
  show "snd (so_publish (any_sink_ops env) states k) = None \<and> sinks_env_ok env"
    using e a influx.publish_ok [of "ke_influx env" states] json.publish_ok [of "ke_disk env" states]
      stdout.publish_ok [of states] ros.publish_ok [of "ke_ros env" states "ke_uses_bytes env"]
    by (cases k) (auto simp: any_sink_ops_def influx_of_def json_of_def stdout_of_def ros_of_def sinks_env_ok_def all_accept_def)
next
  fix k
  assume e: "sinks_env_ok env"
  show "snd (so_close (any_sink_ops env) k) = None"
    using e influx.close_ok [of "ke_influx env"] json.close_ok [of "ke_disk env"] stdout.close_ok ros.close_ok [of "ke_ros env"]
    by (cases k) (auto simp: any_sink_ops_def influx_of_def json_of_def stdout_of_def ros_of_def sinks_env_ok_def)
next
  fix m t
  assume "all_accept (ke_uses_bytes env) m"
  then show "all_accept (ke_uses_bytes env) (stale_version t m)"
    using influx.accepts_stale ros.accepts_stale by (auto simp: all_accept_def)
qed

subsection \<open>Sources\<close>

datatype 'b any_source = SZmq "'b zmq_source" | SRos ros_source

definition any_source_ops ::
  "(pyval \<Rightarrow> bool) \<Rightarrow> ('b \<Rightarrow> pyval result) \<Rightarrow> source_env \<Rightarrow> 'b any_source source_ops" where
  "any_source_ops validate loads env =
     \<lparr>sr_poll = (\<lambda>t src. case src of
         SZmq z \<Rightarrow> wrap SZmq (zmq_source_poll validate loads t z)
       | SRos r \<Rightarrow> wrap SRos (sr_poll (ros_source_ops env) t r)),
      sr_close = (\<lambda>src. case src of
         SZmq z \<Rightarrow> (SZmq (zmq_source_close z), None)
       | SRos r \<Rightarrow> wrap SRos (sr_close (ros_source_ops env) r))\<rparr>"

text \<open>
  A payload that does no harm: it violates the schema, or its time stamp is no huge integer,
  its level is an integer and its values are no huge integers.
\<close>

definition payload_harmless :: "pyval \<Rightarrow> bool" where
  "payload_harmless raw = (message_schema raw \<longrightarrow>
     (\<forall>i. subscript raw ''stamp'' = Inr (PInt i) \<longrightarrow> \<bar>i\<bar> < float_bound) \<and>
     (\<exists>i. subscript raw ''level'' = Inr (PInt i)) \<and>
     (case subscript raw ''values'' of
        Inr (PList entries) \<Rightarrow> (\<forall>entry \<in> set entries. \<forall>kv. entry_of entry kv \<longrightarrow> convertible (kv_value kv))
      | _ \<Rightarrow> True))"

definition zmq_harmless :: "('b \<Rightarrow> pyval result) \<Rightarrow> 'b zmq_source \<Rightarrow> bool" where
  "zmq_harmless loads z = (\<forall>d. Some d \<in> set (zs_inbox z) \<longrightarrow>
     (case loads d of Inl e \<Rightarrow> \<exists>msg. e = ValueError msg | Inr raw \<Rightarrow> payload_harmless raw))"

definition source_harmless :: "('b \<Rightarrow> pyval result) \<Rightarrow> source_env \<Rightarrow> 'b any_source \<Rightarrow> bool" where
  "source_harmless loads env src = (case src of
      SZmq z \<Rightarrow> zmq_harmless loads z
    | SRos r \<Rightarrow> spins_fine env \<and> (\<forall>m \<in> set (rq_pending r). ros_message m))"

lemma level_ok_byte: "level_ok (NInt i) \<Longrightarrow> byte_level (NInt i)"
  by (auto simp: level_ok_NInt byte_level_def)

lemma harmless_accepted:
  assumes "message_schema raw" and "payload_harmless raw"
  shows "\<exists>m. validate_and_normalize_message message_schema raw = Inr m \<and> message_of raw m \<and> all_accept ub m"
proof -
  have "\<not> huge_stamp raw"
    using assms by (auto simp: payload_harmless_def huge_stamp_def split: sum.splits pyval.splits pynum.splits)
  then obtain m where m: "validate_and_normalize_message message_schema raw = Inr m" "message_ok m" "message_of raw m"
    using normalize_valid [of message_schema raw, OF refl assms(1)] by auto
  obtain i where i: "subscript raw ''level'' = Inr (PInt i)" using assms by (auto simp: payload_harmless_def)
  then have "m_level m = NInt i" using m(3) by (simp add: message_of_def)
  then have "byte_level (m_level m)" using m(2) level_ok_byte by (simp add: message_ok_def)
  moreover have "influx_accepts m"
    using m(3) assms by (fastforce simp: influx_accepts_def message_of_def payload_harmless_def in_set_conv_nth list_all2_conv_all_nth
        split: sum.splits pyval.splits)
  ultimately show ?thesis using m by (auto simp: all_accept_def ros_accepts_def)
qed

lemma zmq_poll_harmless:
  assumes "case rcv of None \<Rightarrow> True | Some d \<Rightarrow> (case loads d of Inl e \<Rightarrow> \<exists>msg. e = ValueError msg | Inr raw \<Rightarrow> payload_harmless raw)"
  shows "\<exists>ms. zmq_poll message_schema loads rcv = Inr ms \<and> (\<forall>m \<in> set ms. all_accept ub m)"
proof (cases rcv)
  case (Some d)
  show ?thesis
  proof (cases "loads d")
    case (Inl e)
    then show ?thesis using assms Some by (auto simp: zmq_poll_def)
  next
    case (Inr raw)
    show ?thesis
    proof (cases "message_schema raw")
      case True
      then show ?thesis using harmless_accepted [OF True, of ub] assms Some Inr by (auto simp: zmq_poll_def)
    next
      case False
      then show ?thesis using Some Inr by (simp add: zmq_poll_def normalize_rejected)
    qed
  qed
qed (simp add: zmq_poll_def)

lemma zmq_source_poll_harmless:
  assumes "zmq_harmless loads z"
  shows "\<exists>z' ms. zmq_source_poll message_schema loads t z = (z', Inr ms) \<and> zmq_harmless loads z' \<and> (\<forall>m \<in> set ms. all_accept ub m)"
proof (cases "zs_inbox z")
  case Nil
  then show ?thesis using assms by (simp add: zmq_source_poll_def)
next
  case (Cons x xs)
  have "\<exists>ms. zmq_poll message_schema loads x = Inr ms \<and> (\<forall>m \<in> set ms. all_accept ub m)"
    using assms Cons by (intro zmq_poll_harmless) (auto simp: zmq_harmless_def split: option.splits)
  moreover have "zmq_harmless loads (z\<lparr>zs_inbox := xs\<rparr>)" using assms Cons by (auto simp: zmq_harmless_def)
  ultimately show ?thesis using Cons by (auto simp: zmq_source_poll_def)
qed

lemma ros_message_accepted: "ros_message m \<Longrightarrow> all_accept ub m"
proof -
  assume m: "ros_message m"
  have "convertible (kv_value kv)" if "kv \<in> set (m_values m)" for kv
    using m that by (auto simp: ros_message_def convertible_def split: pyval.splits)
  moreover have "byte_level (m_level m)" using m by (auto simp: ros_message_def byte_level_def)
  ultimately show "all_accept ub m" by (simp add: all_accept_def influx_accepts_def ros_accepts_def)
qed

interpretation pipeline: aggregator_contract "any_sink_ops env" "\<lambda>k. sinks_env_ok env" "all_accept (ke_uses_bytes env)"
    "any_source_ops message_schema loads senv" "source_harmless loads senv"
  for env :: sinks_env and loads :: "'b \<Rightarrow> pyval result" and senv :: source_env
proof unfold_locales
  fix src :: "'b any_source" and t
  assume h: "source_harmless loads senv src"
  show "\<exists>src' ms. sr_poll (any_source_ops message_schema loads senv) t src = (src', Inr ms) \<and>
      source_harmless loads senv src' \<and> (\<forall>m \<in> set ms. all_accept (ke_uses_bytes env) m)"
  proof (cases src)
    case (SZmq z)
    then show ?thesis
      using zmq_source_poll_harmless [of loads z t "ke_uses_bytes env"] h
      by (auto simp: any_source_ops_def source_harmless_def wrap_def)
  next
    case (SRos r)
    then obtain r' ms where "sr_poll (ros_source_ops senv) t r = (r', Inr ms)"
      "spins_fine senv \<and> (\<forall>m \<in> set (rq_pending r'). ros_message m)" "\<forall>m \<in> set ms. ros_message m"
      using ros_in.poll_ok [of senv r t] h by (auto simp: source_harmless_def)
    then show ?thesis using SRos ros_message_accepted by (auto simp: any_source_ops_def source_harmless_def wrap_def)
  qed
qed

subsection \<open>Properties\<close>

lemma any_source_close: "snd (sr_close (any_source_ops validate loads senv) src) = None"
  by (cases src) (auto simp: any_source_ops_def ros_source_ops_def ros_source_close_def Let_def)

text \<open>\<open>n\<close> polls take \<open>n\<close> receptions from the inbox of a ZMQ source that is the first source.\<close>

lemma polls_inbox:
  "snd (polls ops (any_source_ops validate loads senv) clk n ag) = None \<Longrightarrow> ag_sources ag = SZmq z # rest \<Longrightarrow>
   \<exists>rest'. ag_sources (fst (polls ops (any_source_ops validate loads senv) clk n ag)) =
     SZmq (z\<lparr>zs_inbox := drop n (zs_inbox z)\<rparr>) # rest'"
proof (induction n arbitrary: ag z rest)
  case (Suc n)
  let ?sops = "any_source_ops validate loads senv"
  obtain ag1 r where po: "poll_once ops ?sops clk 100 ag = (ag1, r)" by fastforce
  then obtain p where r: "r = Inr p" using Suc.prems(1) by (cases r) auto
  have z1: "fst (sr_poll ?sops 100 (SZmq z)) = SZmq (z\<lparr>zs_inbox := drop 1 (zs_inbox z)\<rparr>)"
    by (cases "zs_inbox z") (simp_all add: any_source_ops_def zmq_source_poll_def)
  have "ag_sources ag1 = SZmq (z\<lparr>zs_inbox := drop 1 (zs_inbox z)\<rparr>) # map (\<lambda>s. fst (sr_poll ?sops 0 s)) rest"
    using poll_once_polled [of ops ?sops clk 100 ag p] Suc.prems(2) z1 by (simp add: po r)
  with Suc.IH [of ag1] Suc.prems(1) show ?case by (simp add: po r)
qed auto

text \<open>What a run on harmless payloads comes to: its polls, and everything closed.\<close>

definition ran :: "sinks_env \<Rightarrow> ('b \<Rightarrow> pyval result) \<Rightarrow> source_env \<Rightarrow> clock \<Rightarrow> nat \<Rightarrow>
    (any_sink, 'b any_source) DiagnosticsAggregator \<Rightarrow> (any_sink, 'b any_source) DiagnosticsAggregator \<Rightarrow> bool" where
  "ran env loads senv clk n ag ag' =
     (\<exists>ag1. polls (any_sink_ops env) (any_source_ops message_schema loads senv) clk n (ag\<lparr>ag_running := True\<rparr>) = (ag1, None) \<and>
        \<not> ag_running ag' \<and> ag_cache ag' = ag_cache ag1 \<and>
        ag_sinks ag' = map (\<lambda>k. fst (so_close (any_sink_ops env) k)) (ag_sinks ag1) \<and>
        ag_sources ag' = map (\<lambda>s. fst (sr_close (any_source_ops message_schema loads senv) s)) (ag_sources ag1))"

lemma pipeline_run:
  fixes sources :: "'b any_source list"
  assumes "sinks_env_ok env" and "signals n"
    and "\<And>src. src \<in> set sources \<Longrightarrow> source_harmless loads senv src" and "sources \<noteq> []"
  shows "\<exists>ag. run (any_sink_ops env) (any_source_ops message_schema loads senv) clk signals
      (aggregator_init clk timeout interval (Some sinks) (Some sources) z) = Some (ag, None) \<and>
    ran env loads senv clk (Suc (LEAST k. signals k)) (aggregator_init clk timeout interval (Some sinks) (Some sources) z) ag"
proof -
  let ?ops = "any_sink_ops env" and ?sops = "any_source_ops message_schema loads senv"
  let ?ag0 = "aggregator_init clk timeout interval (Some sinks) (Some sources) z"
  have "pipeline.running_ok env loads senv (?ag0\<lparr>ag_running := True\<rparr>)"
    unfolding pipeline.running_ok_def sinks.sinks_inv_def using assms(1,3,4) by (auto simp: aggregator_init_def agg_inv_def)
  from pipeline.polls_ok [OF this, of clk "Suc (LEAST k. signals k)"] obtain ag1
    where p: "polls ?ops ?sops clk (Suc (LEAST k. signals k)) (?ag0\<lparr>ag_running := True\<rparr>) = (ag1, None)"
    by (metis prod.collapse)
  have "snd (so_close ?ops k) = None" for k using sinks.close_ok [OF assms(1)] .
  then have close: "run_sinks (so_close ?ops) ks = (map (\<lambda>k. fst (so_close ?ops k)) ks, None)" for ks by (rule run_sinks_total)
  have close': "run_sinks (sr_close ?sops) ss = (map (\<lambda>s. fst (sr_close ?sops s)) ss, None)" for ss
    by (rule run_sinks_total) (rule any_source_close)
  obtain ag where c: "close_all ?ops ?sops (stop ag1) = (ag, None)"
    and ag: "ag = (stop ag1)\<lparr>ag_sinks := map (\<lambda>k. fst (so_close ?ops k)) (ag_sinks ag1),
      ag_sources := map (\<lambda>s. fst (sr_close ?sops s)) (ag_sources ag1)\<rparr>"
    by (simp add: close_all_def close close' stop_def)
  have "run ?ops ?sops clk signals ?ag0 = Some (ag, if None = (None :: py_exc option) then None else None)"
    using c by (intro run_polls [where signals = signals and n = n, OF assms(2) p]) simp
  moreover have "ran env loads senv clk (Suc (LEAST k. signals k)) ?ag0 ag"
    unfolding ran_def using p by (auto simp: ag stop_def simp del: polls.simps)
  ultimately show ?thesis by auto
qed

text \<open>The aggregator on its real sinks and sources keeps running until it is told to stop. Whatever
  mix of InfluxDB, JSON file, stdout and ROS sinks and of ZMQ and ROS sources it is built
  with, if no payload carries a huge integer or a float level, ROS delivers well-formed
  arrays, the file operations succeed and the ROS publisher does not raise, then it makes every
  poll up to the one of the signal, and its run ends there, without an exception, and with every
  sink and source closed.\<close>

theorem aggregator_runs_until_signal:
  fixes sources :: "'b any_source list"
  assumes "sinks_env_ok env" and "signals n"
    and "\<And>src. src \<in> set sources \<Longrightarrow> source_harmless loads senv src" and "sources \<noteq> []"
  shows "\<exists>ag. run (any_sink_ops env) (any_source_ops message_schema loads senv) clk signals
      (aggregator_init clk timeout interval (Some sinks) (Some sources) z) = Some (ag, None) \<and>
    ran env loads senv clk (Suc (LEAST k. signals k)) (aggregator_init clk timeout interval (Some sinks) (Some sources) z) ag"
  using assms by (rule pipeline_run)

definition demo_sinks_env :: sinks_env where
  "demo_sinks_env = \<lparr>ke_influx = demo_influx_env, ke_disk = demo_disk, ke_clock = (\<lambda>n. Fin 1),
     ke_ros = demo_ros_env, ke_uses_bytes = True, ke_str_other = (\<lambda>v. []), ke_float_repr = (\<lambda>x. ''0.0'')\<rparr>"

text \<open>All four sinks, the ROS source, and a ZMQ source that yields nothing, bad bytes, then a message.\<close>

definition demo_inbox :: "nat option list" where
  "demo_inbox = [None, Some 0, Some 1]"

definition demo_loads :: "nat \<Rightarrow> pyval result" where
  "demo_loads d = (if d = 0 then Inl (ValueError ''Expecting value'') else Inr demo_raw)"

lemma demo_harmless:
  "source_harmless demo_loads demo_source_env (SZmq (zmq_source_init False demo_inbox))"
  "source_harmless demo_loads demo_source_env (SRos ros_source_init)"
proof -
  have "convertible (kv_value kv)"
    if "entry_of (PList [PStr ''temperature'', PFloat (Fin 42)]) kv \<or> entry_of (PDict [(''key'', PStr ''x''), (''value'', PInt 1)]) kv" for kv
    using that by (cases kv) (auto simp: entry_of_def convertible_def float_bound_def)
  then have "payload_harmless demo_raw"
    by (simp add: payload_harmless_def demo_raw_def subscript_def float_bound_def)
  then show "source_harmless demo_loads demo_source_env (SZmq (zmq_source_init False demo_inbox))"
    by (auto simp: source_harmless_def zmq_harmless_def zmq_source_init_def demo_inbox_def demo_loads_def)
  show "source_harmless demo_loads demo_source_env (SRos ros_source_init)"
    by (simp add: source_harmless_def spins_fine_def demo_source_env_def ros_source_init_def array_fine_def level_fine_def float_bound_def)
qed

theorem aggregator_runs_until_signal_witness:
  "\<exists>ag. run (any_sink_ops demo_sinks_env) (any_source_ops message_schema demo_loads demo_source_env) (\<lambda>n. Fin (real n)) (\<lambda>k. k = 5)
      (aggregator_init (\<lambda>n. Fin (real n)) (Fin 5) (Fin 1)
        (Some [KInflux demo_influx, KJson demo_json_sink, KStdout (stdout_init (Fin 1)), KRos demo_ros])
        (Some [SZmq (zmq_source_init False demo_inbox), SRos ros_source_init]) (SRos ros_source_init)) = Some (ag, None) \<and>
    \<not> ag_running ag"
proof -
  have "sinks_env_ok demo_sinks_env"
    by (simp add: sinks_env_ok_def demo_sinks_env_def demo_influx_env_def demo_ros_env_def demo_disk_def disk_ok_def)
  moreover have "source_harmless demo_loads demo_source_env src"
    if "src \<in> set [SZmq (zmq_source_init False demo_inbox), SRos ros_source_init]" for src
    using that demo_harmless by auto
  ultimately show ?thesis
    using aggregator_runs_until_signal [of demo_sinks_env "\<lambda>k. k = 5" 5 "[SZmq (zmq_source_init False demo_inbox), SRos ros_source_init]"
        demo_loads demo_source_env] unfolding ran_def by (metis list.distinct(1))
qed

subsection \<open>From a publisher to the aggregator\<close>

lemma publish_sends:
  assumes "publish env p level msg values w = (p', w', Inr True)"
  shows "w_sent w' = w_sent w @ [next_payload env p level msg values w]"
proof (cases "throttle_open p (env_mono env (w_mono w))")
  case True
  let ?w1 = "w\<lparr>w_mono := w_mono w + 1\<rparr>"
  have s: "snd (send env p level msg values ?w1) = Inr True"
    using publish_eqs(3) [OF True refl] assms by fastforce
  from publish_eqs(2) [OF True s] assms have "w_sent w' = w_sent (fst (send env p level msg values ?w1))" by auto
  then show ?thesis using send_results(1) [OF s] by simp
next
  case False
  then show ?thesis using assms by (simp add: publish_eqs(1))
qed

lemma payload_schema:
  assumes "dp_node p \<noteq> []" and "level \<in> {0, 1, 2, 3}" and "\<And>k v. (k, v) \<in> set d \<Longrightarrow> k \<noteq> []"
  shows "message_schema (payload_of p stamp level msg d)"
proof -
  have "list_all is_entry (map (\<lambda>(k, v). PList [PStr k, v]) d)"
    using assms(3) by (fastforce simp: list_all_iff is_entry_def is_nonempty_string_def)
  moreover have "level_ok (NInt level)" using assms(2) by (simp add: level_ok_NInt)
  ultimately show ?thesis
    using assms(1) by (simp add: payload_of_def message_schema_def has_def schema_iffs num_eq_def feq_def)
qed

lemma payload_entries:
  "(\<And>k v. (k, v) \<in> set d \<Longrightarrow> k \<noteq> []) \<Longrightarrow>
   mapE normalize_entry (map (\<lambda>(k, v). PList [PStr k, v]) d) = Inr (map (\<lambda>(k, v). \<lparr>kv_key = k, kv_value = v\<rparr>) d)"
proof (induction d)
  case (Cons kv d)
  obtain k v where kv: "kv = (k, v)" by fastforce
  have "k \<noteq> []" using Cons.prems [of k v] by (simp add: kv)
  then have "normalize_entry (PList [PStr k, v]) = Inr \<lparr>kv_key = k, kv_value = v\<rparr>" by (simp add: normalize_entry_def)
  moreover have "mapE normalize_entry (map (\<lambda>(k, v). PList [PStr k, v]) d) = Inr (map (\<lambda>(k, v). \<lparr>kv_key = k, kv_value = v\<rparr>) d)"
    using Cons.prems by (intro Cons.IH) auto
  ultimately show ?case by (simp add: kv)
qed simp

lemma payload_received:
  assumes "dp_node p \<noteq> []" and "level \<in> {0, 1, 2, 3}" and "\<And>k v. (k, v) \<in> set d \<Longrightarrow> k \<noteq> []"
    and "loads data = Inr (payload_of p stamp level msg d)"
  shows "zmq_poll message_schema loads (Some data) =
    Inr [\<lparr>m_v = 1, m_node = dp_node p, m_hw_id = dp_hw_id p, m_stamp = stamp, m_level = NInt level,
          m_msg = msg, m_values = map (\<lambda>(k, v). \<lparr>kv_key = k, kv_value = v\<rparr>) d\<rparr>]"
proof -
  have "message_schema (payload_of p stamp level msg d)" using assms by (intro payload_schema)
  with assms(4) payload_entries [of d] assms(3) show ?thesis
    by (simp add: zmq_poll_def validate_and_normalize_message_def)
      (simp add: payload_of_def subscript_def iterate_def as_str_def as_num_def)
qed

text \<open>C16: What a publisher sends, the aggregator understands: a payload that went out with a non-empty
  node name, a level from 0 to 3 and non-empty value names is schema-valid and normalises to
  the message with the publisher's node, hardware id, time stamp, level, text and values, so
  the ZMQ source delivers exactly that message.\<close>

theorem published_message_received:
  assumes "publish env p level msg (Some d) w = (p', w', Inr True)"
    and "dp_node p \<noteq> []" and "level \<in> {0, 1, 2, 3}" and "\<And>k v. (k, v) \<in> set d \<Longrightarrow> k \<noteq> []"
    and "loads data = Inr (last (w_sent w'))"
  shows "zmq_poll message_schema loads (Some data) =
    Inr [\<lparr>m_v = 1, m_node = dp_node p, m_hw_id = dp_hw_id p, m_stamp = env_time env (w_time w), m_level = NInt level,
          m_msg = msg, m_values = map (\<lambda>(k, v). \<lparr>kv_key = k, kv_value = v\<rparr>) d\<rparr>]"
proof -
  have l: "loads data = Inr (payload_of p (env_time env (w_time w)) level msg d)"
    using assms(5) publish_sends [OF assms(1)] by simp
  show ?thesis by (rule payload_received) (fact assms(2-4) l)+
qed

theorem published_message_received_witness:
  "zmq_poll message_schema (\<lambda>d. Inr (last (w_sent (fst (snd (publish demo_env demo_publisher 1 ''WARN'' (Some [(''t'', PInt 4)]) demo_world)))))) (Some ()) =
     Inr [\<lparr>m_v = 1, m_node = ''n'', m_hw_id = ''hw'', m_stamp = Fin 100, m_level = NInt 1, m_msg = ''WARN'',
           m_values = [\<lparr>kv_key = ''t'', kv_value = PInt 4\<rparr>]\<rparr>]"
proof -
  obtain p' w' r where pu: "publish demo_env demo_publisher 1 ''WARN'' (Some [(''t'', PInt 4)]) demo_world = (p', w', r)"
    using prod_cases3 by blast
  have "r = Inr True"
    using pu by (simp add: publish_def should_publish_def read_mono_def read_time_def throttle_open_def send_def payload_of_def
        note_sent_def demo_env_def demo_world_def demo_publisher_def Let_def)
  with pu have pu': "publish demo_env demo_publisher 1 ''WARN'' (Some [(''t'', PInt 4)]) demo_world = (p', w', Inr True)" by simp
  from published_message_received [OF pu', of "\<lambda>d. Inr (last (w_sent w'))" "()"] show ?thesis
    unfolding pu by (simp add: demo_publisher_def demo_env_def demo_world_def)
qed

end
