(* ===== verification/Py_Config.thy ===== *)
theory Py_Config
  imports Py_Text
begin

text \<open>
  What the two configuration loaders share: expansion of environment variables in the text of
  a file (\<^verbatim>\<open>os.path.expandvars\<close>), the reading of a boolean, and the outside world of a loader.
  \<open>lw_read\<close> is the reading of a file, \<open>lw_yaml\<close> the YAML parser (a package) with the expanded
  text, \<open>lw_environ\<close> the process environment, \<open>lw_hostname\<close> the name of the machine, \<open>lw_str\<close> the
  text of a value that is neither a string, an integer, a boolean nor None. YAML mappings are
  taken to have string keys.
\<close>

record load_world =
  lw_environ :: "string \<Rightarrow> string option"
  lw_read :: "string \<Rightarrow> string result"
  lw_yaml :: "string \<Rightarrow> pyval result"
  lw_hostname :: string
  lw_str :: "pyval \<Rightarrow> string"

subsection \<open>Environment variables in a text\<close>

definition is_word :: "char \<Rightarrow> bool" where
  "is_word c = (let n = code_pt c in is_digit c \<or> (65 \<le> n \<and> n \<le> 90) \<or> (97 \<le> n \<and> n \<le> 122) \<or> n = 95)"

text \<open>
  The match of \<^verbatim>\<open>\w+\<close> or \<^verbatim>\<open>{...}\<close> after a dollar sign: the variable's name, the text matched and
  the rest.
\<close>

definition var_match :: "string \<Rightarrow> (string \<times> string \<times> string) option" where
  "var_match s =
     (case s of
        [] \<Rightarrow> None
      | c # r \<Rightarrow>
          if c = CHR ''{'' then
            (let name = takeWhile (\<lambda>d. d \<noteq> CHR ''}'') r; rest = dropWhile (\<lambda>d. d \<noteq> CHR ''}'') r in
             if rest = [] then None else Some (name, [c] @ name @ ''}'', tl rest))
          else
            (let name = takeWhile is_word s in
             if name = [] then None else Some (name, name, dropWhile is_word s)))"

lemma var_match_split: "var_match s = Some (name, matched, rest) \<Longrightarrow> s = matched @ rest \<and> matched \<noteq> []"
proof -
  assume m: "var_match s = Some (name, matched, rest)"
  then obtain c r where s: "s = c # r" by (cases s) (auto simp: var_match_def)
  show ?thesis
  proof (cases "c = CHR ''{''")
    case True
    let ?rest = "dropWhile (\<lambda>d. d \<noteq> CHR ''}'') r"
    have ne: "?rest \<noteq> []" using m s True by (auto simp: var_match_def Let_def split: if_splits)
    then have "hd ?rest = CHR ''}''" using hd_dropWhile [of "\<lambda>d. d \<noteq> CHR ''}''" r] by auto
    then have "r = takeWhile (\<lambda>d. d \<noteq> CHR ''}'') r @ CHR ''}'' # tl ?rest"
      using takeWhile_dropWhile_id [of "\<lambda>d. d \<noteq> CHR ''}''" r] ne by (metis list.collapse)
    moreover have "matched = CHR ''{'' # takeWhile (\<lambda>d. d \<noteq> CHR ''}'') r @ ''}'' \<and> rest = tl ?rest"
      using m s True ne by (auto simp: var_match_def Let_def split: if_splits)
    ultimately show ?thesis using s True by simp
  next
    case False
    then show ?thesis using m s takeWhile_dropWhile_id [of is_word s]
      by (auto simp: var_match_def Let_def simp del: takeWhile.simps dropWhile.simps split: if_splits)
  qed
qed

lemma var_match_shorter: "var_match s = Some (name, matched, rest) \<Longrightarrow> length rest < length s"
  by (drule var_match_split) auto

text \<open>An undefined variable stays as it is; what a variable stands for is not expanded again.\<close>

function expandvars :: "(string \<Rightarrow> string option) \<Rightarrow> string \<Rightarrow> string" where
  "expandvars env [] = []"
| "expandvars env (c # s) =
     (if c \<noteq> CHR ''$'' then c # expandvars env s
      else (case var_match s of
              None \<Rightarrow> c # expandvars env s
            | Some (name, matched, rest) \<Rightarrow>
                (case env name of Some v \<Rightarrow> v | None \<Rightarrow> c # matched) @ expandvars env rest))"
  by pat_completeness auto
termination by (relation "measure (\<lambda>(env, s). length s)") (auto dest: var_match_shorter)

lemma expandvars_no_dollar: "CHR ''$'' \<notin> set s \<Longrightarrow> expandvars env s = s"
  by (induction s) auto

lemma expandvars_undefined: "(\<And>name. env name = None) \<Longrightarrow> expandvars env s = s"
  by (induction env s rule: expandvars.induct) (auto dest!: var_match_split split: option.splits)

lemma expandvars_known:
  assumes "CHR ''$'' \<notin> set p" and "name \<noteq> []" and "list_all is_word name" and "env name = Some v"
  shows "expandvars env (p @ ''${'' @ name @ CHR ''}'' # s) = p @ v @ expandvars env s"
  using assms(1)
proof (induction p)
  case Nil
  have word: "d \<noteq> CHR ''}''" if "d \<in> set name" for d
    using assms(3) that by (auto simp: list_all_iff is_word_def is_digit_def code_pt_def Let_def)
  have "takeWhile (\<lambda>d. d \<noteq> CHR ''}'') (name @ CHR ''}'' # s) = name"
    "dropWhile (\<lambda>d. d \<noteq> CHR ''}'') (name @ CHR ''}'' # s) = CHR ''}'' # s"
    using word by (simp_all add: takeWhile_append2 dropWhile_append2)
  then show ?case using assms by (simp add: var_match_def Let_def)
next
  case (Cons a p)
  then show ?case by auto
qed

subsection \<open>Booleans\<close>

definition as_bool :: "pyval \<Rightarrow> bool \<Rightarrow> bool" where
  "as_bool value dflt =
     (case value of
        PNone \<Rightarrow> dflt
      | PBool b \<Rightarrow> b
      | PStr s \<Rightarrow> lower (strip s) \<in> {''1'', ''true'', ''yes'', ''on''}
      | v \<Rightarrow> py_truth v)"

text \<open>\<open>d.get(k)\<close>, None when the key is missing.\<close>

definition get_none :: "(string, pyval) dict \<Rightarrow> string \<Rightarrow> pyval" where
  "get_none d k = dict_get_or d k PNone"

lemma get_none_Nil [simp]: "get_none [] k = PNone"
  by (simp add: get_none_def dict_get_or_def)

lemma dict_get_or_Nil [simp]: "dict_get_or [] k x = x"
  by (simp add: dict_get_or_def)

lemma as_bool_None [simp]: "as_bool PNone b = b"
  by (simp add: as_bool_def)

text \<open>The document of a file: an empty or otherwise false document counts as an empty mapping.\<close>

definition load_document :: "load_world \<Rightarrow> string \<Rightarrow> (string, pyval) dict result" where
  "load_document lw path =
     bindE (lw_read lw path) (\<lambda>text.
     bindE (lw_yaml lw (expandvars (lw_environ lw) text)) (\<lambda>loaded.
       case (if py_truth loaded then loaded else PDict []) of
         PDict d \<Rightarrow> Inr d
       | _ \<Rightarrow> Inl (ValueError ''Top-level configuration must be a mapping'')))"

text \<open>\<open>path or os.environ.get(var)\<close>, None when that is empty too.\<close>

definition config_path :: "load_world \<Rightarrow> string \<Rightarrow> string option \<Rightarrow> string option" where
  "config_path lw var path =
     (let p = (case path of Some p \<Rightarrow> if p \<noteq> [] then Some p else lw_environ lw var | None \<Rightarrow> lw_environ lw var)
      in if p = Some [] then None else p)"

end
