(* ===== verification/Agg_Config.thy ===== *)
theory Agg_Config
  imports Py_Config
begin

text \<open>
  \<^verbatim>\<open>aggregator/config.py\<close>: the configuration of the aggregator, its defaults, and its loading
  from YAML. The lemmas show which configurations a load can return, that an empty document
  loads as the defaults, and what a null in the document becomes.
\<close>

record AggregatorSection =
  ac_zmq_endpoint :: string
  ac_stale_timeout :: pyfloat
  ac_check_interval :: pyfloat

record InfluxDBSection =
  ic_enabled :: bool
  ic_url :: string
  ic_token :: string
  ic_org :: string
  ic_bucket :: string

record RosDiagnosticsSection =
  rc_enabled :: bool
  rc_input_topic :: string
  rc_aggregated_topic :: string
  rc_publish_aggregated :: bool
  rc_publish_rate :: pyfloat
  rc_root :: string

record JsonFileSection =
  jc_enabled :: bool
  jc_path :: string
  jc_max_mb :: pyfloat

record StdoutSection =
  sc_enabled :: bool
  sc_interval :: pyfloat

record AggregatorConfig =
  cfg_aggregator :: AggregatorSection
  cfg_influxdb :: InfluxDBSection
  cfg_ros :: RosDiagnosticsSection
  cfg_json :: JsonFileSection
  cfg_stdout :: StdoutSection

definition default_config :: AggregatorConfig where
  "default_config =
     \<lparr>cfg_aggregator = \<lparr>ac_zmq_endpoint = ''tcp://localhost:9268'', ac_stale_timeout = Fin 5, ac_check_interval = Fin 1\<rparr>,
      cfg_influxdb = \<lparr>ic_enabled = False, ic_url = [], ic_token = [], ic_org = [], ic_bucket = []\<rparr>,
      cfg_ros = \<lparr>rc_enabled = False, rc_input_topic = ''/diagnostics'', rc_aggregated_topic = ''/diagnostics_agg'',
        rc_publish_aggregated = True, rc_publish_rate = Fin 1, rc_root = ''Robot''\<rparr>,
      cfg_json = \<lparr>jc_enabled = False, jc_path = ''/tmp/diagnostics.jsonl'', jc_max_mb = Fin 100\<rparr>,
      cfg_stdout = \<lparr>sc_enabled = False, sc_interval = Fin 10\<rparr>\<rparr>"

text \<open>\<open>_section\<close>: a missing or null section is empty.\<close>

definition section_of :: "(string, pyval) dict \<Rightarrow> string \<Rightarrow> (string, pyval) dict result" where
  "section_of data key =
     (case dict_get_or data key (PDict []) of
        PNone \<Rightarrow> Inr []
      | PDict d \<Rightarrow> Inr d
      | _ \<Rightarrow> Inl (ValueError (''Section '' @ key @ '' must be a mapping'')))"

text \<open>\<open>str(d.get(k, x))\<close> and \<open>float(d.get(k, x))\<close>.\<close>

definition get_str :: "(pyval \<Rightarrow> string) \<Rightarrow> (string, pyval) dict \<Rightarrow> string \<Rightarrow> string \<Rightarrow> string" where
  "get_str str_other d k x = py_str str_other (dict_get_or d k (PStr x))"

definition get_float :: "(string, pyval) dict \<Rightarrow> string \<Rightarrow> pyfloat \<Rightarrow> pyfloat result" where
  "get_float d k x = py_float (dict_get_or d k (PFloat x))"

definition build_config :: "(pyval \<Rightarrow> string) \<Rightarrow> (string, pyval) dict \<Rightarrow> AggregatorConfig result" where
  "build_config str_other raw =
     bindE (section_of raw ''aggregator'') (\<lambda>agg.
     bindE (section_of raw ''sinks'') (\<lambda>sinks.
     bindE (section_of sinks ''influxdb'') (\<lambda>influxdb.
     bindE (section_of sinks ''ros_diagnostics'') (\<lambda>ros.
     bindE (section_of sinks ''json_file'') (\<lambda>json_file.
     bindE (section_of sinks ''stdout'') (\<lambda>stdout.
     bindE (get_float agg ''stale_timeout_sec'' (Fin 5)) (\<lambda>stale_timeout.
     bindE (get_float agg ''stale_check_interval_sec'' (Fin 1)) (\<lambda>check_interval.
     bindE (get_float ros ''publish_rate_hz'' (Fin 1)) (\<lambda>rate.
     bindE (get_float json_file ''max_file_size_mb'' (Fin 100)) (\<lambda>max_mb.
     bindE (get_float stdout ''interval_sec'' (Fin 10)) (\<lambda>interval.
       Inr \<lparr>cfg_aggregator = \<lparr>ac_zmq_endpoint = get_str str_other agg ''zmq_endpoint'' ''tcp://localhost:9268'',
              ac_stale_timeout = stale_timeout, ac_check_interval = check_interval\<rparr>,
            cfg_influxdb = \<lparr>ic_enabled = as_bool (get_none influxdb ''enabled'') False,
              ic_url = get_str str_other influxdb ''url'' [], ic_token = get_str str_other influxdb ''token'' [],
              ic_org = get_str str_other influxdb ''org'' [], ic_bucket = get_str str_other influxdb ''bucket'' []\<rparr>,
            cfg_ros = \<lparr>rc_enabled = as_bool (get_none ros ''enabled'') False,
              rc_input_topic = get_str str_other ros ''input_topic'' ''/diagnostics'',
              rc_aggregated_topic = get_str str_other ros ''aggregated_topic'' ''/diagnostics_agg'',
              rc_publish_aggregated = as_bool (get_none ros ''publish_aggregated'') True, rc_publish_rate = rate,
              rc_root = get_str str_other ros ''aggregation_root'' ''Robot''\<rparr>,
            cfg_json = \<lparr>jc_enabled = as_bool (get_none json_file ''enabled'') False,
              jc_path = get_str str_other json_file ''path'' ''/tmp/diagnostics.jsonl'', jc_max_mb = max_mb\<rparr>,
            cfg_stdout = \<lparr>sc_enabled = as_bool (get_none stdout ''enabled'') False, sc_interval = interval\<rparr>\<rparr>)))))))))))"

text \<open>The checks at the end of \<open>load_config\<close>, in order.\<close>

definition check_config :: "AggregatorConfig \<Rightarrow> unit result" where
  "check_config cfg =
     bindE (require (\<not> fle (ac_stale_timeout (cfg_aggregator cfg)) f0) (ValueError ''aggregator.stale_timeout_sec must be > 0'')) (\<lambda>_.
     bindE (require (\<not> fle (ac_check_interval (cfg_aggregator cfg)) f0) (ValueError ''aggregator.stale_check_interval_sec must be > 0'')) (\<lambda>_.
     bindE (require (\<not> fle (sc_interval (cfg_stdout cfg)) f0) (ValueError ''sinks.stdout.interval_sec must be > 0'')) (\<lambda>_.
     bindE (require (\<not> fle (jc_max_mb (cfg_json cfg)) f0) (ValueError ''sinks.json_file.max_file_size_mb must be > 0'')) (\<lambda>_.
       if \<not> rc_enabled (cfg_ros cfg) then Inr ()
       else
         bindE (require (rc_input_topic (cfg_ros cfg) \<noteq> []) (ValueError ''sinks.ros_diagnostics.input_topic must be non-empty'')) (\<lambda>_.
         bindE (require (\<not> (rc_publish_aggregated (cfg_ros cfg) \<and> rc_aggregated_topic (cfg_ros cfg) = []))
                  (ValueError ''sinks.ros_diagnostics.aggregated_topic must be non-empty'')) (\<lambda>_.
         bindE (require (\<not> fle (rc_publish_rate (cfg_ros cfg)) f0) (ValueError ''sinks.ros_diagnostics.publish_rate_hz must be > 0'')) (\<lambda>_.
           require (strip_chars ''/'' (rc_root (cfg_ros cfg)) \<noteq> []) (ValueError ''sinks.ros_diagnostics.aggregation_root must be non-empty''))))))))"

definition load_config :: "load_world \<Rightarrow> string option \<Rightarrow> AggregatorConfig result" where
  "load_config lw path =
     (case config_path lw ''XBOT2_DIAGNOSTICS_CONFIG'' path of
        None \<Rightarrow> Inr default_config
      | Some p \<Rightarrow>
          bindE (load_document lw p) (\<lambda>raw.
          bindE (build_config (lw_str lw) raw) (\<lambda>cfg.
          bindE (check_config cfg) (\<lambda>_. Inr cfg))))"

subsection \<open>What the checks give\<close>

text \<open>Greater than zero, or NaN: that is what the test \<open>x <= 0\<close> excludes no more than.\<close>

definition positive_or_nan :: "pyfloat \<Rightarrow> bool" where
  "positive_or_nan x = (flt f0 x \<or> x = NaN)"

lemma positive_or_nan_iff: "positive_or_nan x \<longleftrightarrow> \<not> fle x f0"
  by (cases x) (auto simp: positive_or_nan_def)

definition config_ok :: "AggregatorConfig \<Rightarrow> bool" where
  "config_ok cfg =
     (positive_or_nan (ac_stale_timeout (cfg_aggregator cfg)) \<and> positive_or_nan (ac_check_interval (cfg_aggregator cfg)) \<and>
      positive_or_nan (sc_interval (cfg_stdout cfg)) \<and> positive_or_nan (jc_max_mb (cfg_json cfg)) \<and>
      (rc_enabled (cfg_ros cfg) \<longrightarrow>
         rc_input_topic (cfg_ros cfg) \<noteq> [] \<and>
         (rc_publish_aggregated (cfg_ros cfg) \<longrightarrow> rc_aggregated_topic (cfg_ros cfg) \<noteq> []) \<and>
         positive_or_nan (rc_publish_rate (cfg_ros cfg)) \<and> strip_chars ''/'' (rc_root (cfg_ros cfg)) \<noteq> []))"

lemma check_config_iff: "check_config cfg = Inr () \<longleftrightarrow> config_ok cfg"
  by (auto simp: check_config_def config_ok_def positive_or_nan_iff bindE_Inr_iff)

lemma check_config_error: "check_config cfg = Inl e \<Longrightarrow> \<exists>m. e = ValueError m"
  by (auto simp: check_config_def bindE_Inl_iff split: if_splits)

lemma default_config_ok: "config_ok default_config"
  by (simp add: config_ok_def default_config_def positive_or_nan_def strip_chars_def strip_by_def)

lemma load_config_ok: "load_config lw path = Inr cfg \<Longrightarrow> config_ok cfg"
  using default_config_ok check_config_iff [of cfg]
  by (auto simp: load_config_def bindE_Inr_iff split: option.splits)

lemma build_config_empty: "build_config so [] = Inr default_config"
  by (simp add: build_config_def section_of_def get_float_def get_str_def default_config_def)

subsection \<open>Properties\<close>

text \<open>C38: A load either raises or returns a configuration whose timeouts, intervals and size limit are
  not below or equal to zero and, with ROS enabled, whose topics and aggregation root are not
  empty. The checks are comparisons, so a NaN (YAML \<open>.nan\<close>) passes each of them.\<close>

theorem load_config_validated:
  assumes "load_config lw path = Inr cfg"
  shows "config_ok cfg"
  using assms by (rule load_config_ok)

definition demo_world_yaml :: "pyval \<Rightarrow> load_world" where
  "demo_world_yaml doc = \<lparr>lw_environ = (\<lambda>v. None), lw_read = (\<lambda>p. Inr ''x''), lw_yaml = (\<lambda>t. Inr doc),
     lw_hostname = ''robot'', lw_str = (\<lambda>v. [])\<rparr>"

text \<open>A NaN time-out is accepted.\<close>

theorem load_config_validated_witness:
  "\<exists>cfg. load_config (demo_world_yaml (PDict [(''aggregator'', PDict [(''stale_timeout_sec'', PFloat NaN)])])) (Some ''c.yaml'') = Inr cfg \<and>
     ac_stale_timeout (cfg_aggregator cfg) = NaN \<and> config_ok cfg"
proof -
  let ?doc = "PDict [(''aggregator'', PDict [(''stale_timeout_sec'', PFloat NaN)])]"
  obtain cfg where l: "load_config (demo_world_yaml ?doc) (Some ''c.yaml'') = Inr cfg"
    and t: "ac_stale_timeout (cfg_aggregator cfg) = NaN"
    by (simp add: load_config_def demo_world_yaml_def config_path_def load_document_def build_config_def section_of_def
        dict_get_or_def get_float_def get_str_def check_config_def get_none_def)
  from load_config_validated [OF l] l t show ?thesis by blast
qed

text \<open>The defaults are written twice, in the dataclasses and in the loader, and agree: with no
  configuration path, and for a file that is empty or whose sections are all missing, the
  loaded configuration is the default one, for any environment.\<close>

theorem load_config_defaults:
  assumes "config_path lw ''XBOT2_DIAGNOSTICS_CONFIG'' path = None \<or>
    (\<exists>p text doc. config_path lw ''XBOT2_DIAGNOSTICS_CONFIG'' path = Some p \<and> lw_read lw p = Inr text \<and>
       lw_yaml lw (expandvars (lw_environ lw) text) = Inr doc \<and> (\<not> py_truth doc \<or> doc = PDict []))"
  shows "load_config lw path = Inr default_config"
  using assms check_config_iff [of default_config] default_config_ok
  by (auto simp: load_config_def load_document_def build_config_empty)

theorem load_config_defaults_witness:
  "load_config (demo_world_yaml PNone) (Some ''c.yaml'') = Inr default_config \<and>
   load_config (demo_world_yaml PNone) None = Inr default_config"
  by (intro conjI load_config_defaults) (auto simp: demo_world_yaml_def config_path_def)

text \<open>A null is not a missing key: the text of a key whose value is null becomes the four letters
  None, so an InfluxDB section with null credentials counts as configured.\<close>

theorem load_config_null_text:
  assumes "build_config so raw = Inr cfg" and "section_of raw ''sinks'' = Inr sinks"
    and "section_of sinks ''influxdb'' = Inr influxdb" and "dict_get influxdb ''token'' = Some PNone"
  shows "ic_token (cfg_influxdb cfg) = ''None''"
  using assms by (auto simp: build_config_def bindE_Inr_iff get_str_def dict_get_or_def)

theorem load_config_null_text_witness:
  "\<exists>cfg. build_config (\<lambda>v. []) [(''sinks'', PDict [(''influxdb'', PDict [(''enabled'', PBool True), (''token'', PNone)])])] = Inr cfg \<and>
     ic_enabled (cfg_influxdb cfg) \<and> ic_token (cfg_influxdb cfg) = ''None''"
proof -
  let ?ix = "[(''enabled'', PBool True), (''token'', PNone)]"
  let ?raw = "[(''sinks'', PDict [(''influxdb'', PDict ?ix)])]"
  obtain cfg where b: "build_config (\<lambda>v. []) ?raw = Inr cfg" and e: "ic_enabled (cfg_influxdb cfg)"
    by (simp add: build_config_def section_of_def dict_get_or_def get_float_def get_str_def get_none_def as_bool_def)
  have "section_of ?raw ''sinks'' = Inr [(''influxdb'', PDict ?ix)]" "section_of [(''influxdb'', PDict ?ix)] ''influxdb'' = Inr ?ix"
    by (simp_all add: section_of_def dict_get_or_def)
  from load_config_null_text [OF b this] b e show ?thesis by auto
qed

end
