(* ===== verification/Agg_Node.thy ===== *)
theory Agg_Node
  imports Pipeline Agg_Config
begin

text \<open>
  \<^verbatim>\<open>aggregator/aggregator_node.py\<close>: from a configuration to a running aggregator.
  \<open>node_world\<close> is what start-up meets outside the program: the configuration's world, whether
  the InfluxDB client and the ROS packages can be imported, the outcomes of initialising ROS,
  of making the log directory and of binding the socket, and what the log files hold. The
  lemmas show which sinks and sources a configuration gives, when start-up fails, and that
  the process exits with code 0 on the signal.
\<close>

record node_world =
  nw_load :: load_world
  nw_influx_client :: bool
  nw_ros_packages :: bool
  nw_ros_up :: "unit result"
  nw_mkdir :: "string \<Rightarrow> unit result"
  nw_disk :: "string \<Rightarrow> string option \<times> string option"
  nw_bind :: "string \<Rightarrow> unit result"

text \<open>\<open>_build_ros_io\<close>: a missing package disables ROS.\<close>

definition build_ros_io :: "node_world \<Rightarrow> AggregatorConfig \<Rightarrow> (ros_source option \<times> ros_sink option) result" where
  "build_ros_io nw config =
     (let rc = cfg_ros config in
      if \<not> rc_enabled rc then Inr (None, None)
      else if \<not> nw_ros_packages nw then Inr (None, None)
      else bindE (nw_ros_up nw) (\<lambda>_.
             if \<not> rc_publish_aggregated rc then Inr (Some ros_source_init, None)
             else bindE (ros_init (rc_root rc) (rc_publish_rate rc)) (\<lambda>sink. Inr (Some ros_source_init, Some sink))))"

definition build_sinks :: "node_world \<Rightarrow> AggregatorConfig \<Rightarrow> ros_sink option \<Rightarrow> any_sink list result" where
  "build_sinks nw config ros_sink =
     (let ic = cfg_influxdb config; jc = cfg_json config; sc = cfg_stdout config;
          influx = [KInflux (influx_init (ic_enabled ic) (ic_url ic) (ic_token ic) (ic_org ic) (ic_bucket ic) False
                      (nw_influx_client nw))]
      in bindE (if jc_enabled jc then
                  bindE (json_init (nw_mkdir nw (jc_path jc)) (nw_disk nw (jc_path jc)) (jc_max_mb jc)) (\<lambda>k. Inr [KJson k])
                else Inr []) (\<lambda>json.
           Inr (influx @ json @ (if sc_enabled sc then [KStdout (stdout_init (sc_interval sc))] else []) @
             (case ros_sink of None \<Rightarrow> [] | Some k \<Rightarrow> [KRos k]))))"

text \<open>\<open>main\<close> up to the aggregator; \<open>inbox\<close> is what the socket will yield.\<close>

definition node_setup ::
  "node_world \<Rightarrow> clock \<Rightarrow> 'b option list \<Rightarrow> string option \<Rightarrow> (any_sink, 'b any_source) DiagnosticsAggregator result" where
  "node_setup nw clk inbox path =
     bindE (load_config (nw_load nw) path) (\<lambda>config.
     bindE (build_ros_io nw config) (\<lambda>(ros_source, ros_sink).
     bindE (nw_bind nw (ac_zmq_endpoint (cfg_aggregator config))) (\<lambda>_.
     bindE (build_sinks nw config ros_sink) (\<lambda>sinks.
       let zmq = SZmq (zmq_source_init False inbox);
           sources = [zmq] @ (case ros_source of None \<Rightarrow> [] | Some src \<Rightarrow> [SRos src])
       in Inr (aggregator_init clk (ac_stale_timeout (cfg_aggregator config)) (ac_check_interval (cfg_aggregator config))
                 (Some sinks) (Some sources) zmq)))))"

text \<open>
  The whole of \<open>main\<close>: None if it never returns; otherwise the exception that leaves it (None for
  the exit code 0), with the closed aggregator when one was made.
\<close>

definition node_main ::
  "node_world \<Rightarrow> sinks_env \<Rightarrow> ('b \<Rightarrow> pyval result) \<Rightarrow> source_env \<Rightarrow> clock \<Rightarrow> (nat \<Rightarrow> bool) \<Rightarrow> 'b option list \<Rightarrow>
   string option \<Rightarrow> (py_exc option \<times> (any_sink, 'b any_source) DiagnosticsAggregator option) option" where
  "node_main nw kenv loads senv clk signals inbox path =
     (case node_setup nw clk inbox path of
        Inl e \<Rightarrow> Some (Some e, None)
      | Inr ag \<Rightarrow>
          (case run (any_sink_ops kenv) (any_source_ops message_schema loads senv) clk signals ag of
             None \<Rightarrow> None
           | Some (ag', e) \<Rightarrow> Some (e, Some ag')))"

subsection \<open>Start-up\<close>

definition world_up :: "node_world \<Rightarrow> bool" where
  "world_up nw = (nw_ros_up nw = Inr () \<and> (\<forall>p. nw_mkdir nw p = Inr ()) \<and> (\<forall>ep. nw_bind nw ep = Inr ()))"

text \<open>The kind of a sink, in the order the configuration lists them.\<close>

datatype sink_kind = InfluxKind | JsonKind | StdoutKind | RosKind

definition kind_of :: "any_sink \<Rightarrow> sink_kind" where
  "kind_of k = (case k of KInflux _ \<Rightarrow> InfluxKind | KJson _ \<Rightarrow> JsonKind | KStdout _ \<Rightarrow> StdoutKind | KRos _ \<Rightarrow> RosKind)"

definition ros_on :: "node_world \<Rightarrow> AggregatorConfig \<Rightarrow> bool" where
  "ros_on nw cfg = (rc_enabled (cfg_ros cfg) \<and> nw_ros_packages nw)"

definition configured_kinds :: "node_world \<Rightarrow> AggregatorConfig \<Rightarrow> sink_kind list" where
  "configured_kinds nw cfg =
     [InfluxKind] @ (if jc_enabled (cfg_json cfg) then [JsonKind] else []) @
     (if sc_enabled (cfg_stdout cfg) then [StdoutKind] else []) @
     (if ros_on nw cfg \<and> rc_publish_aggregated (cfg_ros cfg) then [RosKind] else [])"

lemma ros_init_ok: "\<not> fle rate f0 \<Longrightarrow> \<exists>k. ros_init root_name rate = Inr k"
  by (simp add: ros_init_def Let_def)

lemma build_ros_io_ok:
  assumes "config_ok cfg" and "world_up nw"
  shows "\<exists>src sink. build_ros_io nw cfg = Inr (src, sink) \<and> (src \<noteq> None \<longleftrightarrow> ros_on nw cfg) \<and>
    (sink \<noteq> None \<longleftrightarrow> ros_on nw cfg \<and> rc_publish_aggregated (cfg_ros cfg)) \<and> (src \<noteq> None \<longrightarrow> src = Some ros_source_init)"
proof (cases "ros_on nw cfg \<and> rc_publish_aggregated (cfg_ros cfg)")
  case True
  then have "\<not> fle (rc_publish_rate (cfg_ros cfg)) f0"
    using assms(1) by (simp add: config_ok_def ros_on_def positive_or_nan_iff)
  then obtain k where "ros_init (rc_root (cfg_ros cfg)) (rc_publish_rate (cfg_ros cfg)) = Inr k" using ros_init_ok by blast
  with True assms(2) show ?thesis by (simp add: build_ros_io_def ros_on_def world_up_def)
next
  case False
  with assms(2) show ?thesis by (auto simp: build_ros_io_def ros_on_def world_up_def Let_def)
qed

lemma json_init_ok: "isfinite mb \<Longrightarrow> \<exists>k. json_init (Inr ()) disk mb = Inr k"
  by (cases mb) (auto simp: json_init_def)

lemma json_init_bad: "positive_or_nan mb \<Longrightarrow> \<not> isfinite mb \<Longrightarrow> \<exists>e. json_init (Inr ()) disk mb = Inl e"
  by (cases mb) (auto simp: json_init_def positive_or_nan_def inf_sgn_def)

lemma build_sinks_cases:
  assumes "config_ok cfg" and "world_up nw"
  shows "if jc_enabled (cfg_json cfg) \<and> \<not> isfinite (jc_max_mb (cfg_json cfg))
    then \<exists>e. build_sinks nw cfg sink = Inl e
    else \<exists>ks. build_sinks nw cfg sink = Inr ks \<and>
      map kind_of ks = [InfluxKind] @ (if jc_enabled (cfg_json cfg) then [JsonKind] else []) @
        (if sc_enabled (cfg_stdout cfg) then [StdoutKind] else []) @ (if sink \<noteq> None then [RosKind] else [])"
proof (cases "jc_enabled (cfg_json cfg)")
  case True
  let ?jc = "cfg_json cfg"
  have mk: "nw_mkdir nw (jc_path ?jc) = Inr ()" using assms(2) by (simp add: world_up_def)
  show ?thesis
  proof (cases "isfinite (jc_max_mb ?jc)")
    case True
    then obtain k where "json_init (Inr ()) (nw_disk nw (jc_path ?jc)) (jc_max_mb ?jc) = Inr k" using json_init_ok by blast
    with \<open>jc_enabled ?jc\<close> True mk show ?thesis by (auto simp: build_sinks_def kind_of_def Let_def split: option.splits)
  next
    case False
    moreover have "positive_or_nan (jc_max_mb ?jc)" using assms(1) by (simp add: config_ok_def)
    ultimately obtain e where "json_init (Inr ()) (nw_disk nw (jc_path ?jc)) (jc_max_mb ?jc) = Inl e" using json_init_bad by blast
    with \<open>jc_enabled ?jc\<close> False mk show ?thesis by (simp add: build_sinks_def Let_def)
  qed
next
  case False
  then show ?thesis by (auto simp: build_sinks_def kind_of_def Let_def split: option.splits)
qed

lemma node_setup_cases:
  assumes "load_config (nw_load nw) path = Inr cfg" and "world_up nw"
  shows "if jc_enabled (cfg_json cfg) \<and> \<not> isfinite (jc_max_mb (cfg_json cfg))
    then \<exists>e. node_setup nw clk inbox path = Inl e
    else \<exists>ks sources z. node_setup nw clk inbox path =
        Inr (aggregator_init clk (ac_stale_timeout (cfg_aggregator cfg)) (ac_check_interval (cfg_aggregator cfg)) (Some ks) (Some sources) z) \<and>
      map kind_of ks = configured_kinds nw cfg \<and>
      sources = SZmq (zmq_source_init False inbox) # (if ros_on nw cfg then [SRos ros_source_init] else [])"
proof -
  have ok: "config_ok cfg" using load_config_ok [OF assms(1)] .
  obtain src sink where io: "build_ros_io nw cfg = Inr (src, sink)" and s: "src \<noteq> None \<longleftrightarrow> ros_on nw cfg"
    "sink \<noteq> None \<longleftrightarrow> ros_on nw cfg \<and> rc_publish_aggregated (cfg_ros cfg)" "src \<noteq> None \<longrightarrow> src = Some ros_source_init"
    using build_ros_io_ok [OF ok assms(2)] by blast
  have b: "nw_bind nw ep = Inr ()" for ep using assms(2) by (simp add: world_up_def)
  have srcs: "(case src of None \<Rightarrow> [] | Some x \<Rightarrow> [SRos x]) = (if ros_on nw cfg then [SRos ros_source_init] else [])"
    using s by (cases src) auto
  let ?srcs = "SZmq (zmq_source_init False inbox) # (if ros_on nw cfg then [SRos ros_source_init] else [])"
  have st: "node_setup nw clk inbox path = bindE (build_sinks nw cfg sink) (\<lambda>ks. Inr (aggregator_init clk
      (ac_stale_timeout (cfg_aggregator cfg)) (ac_check_interval (cfg_aggregator cfg)) (Some ks) (Some ?srcs)
      (SZmq (zmq_source_init False inbox))))"
    by (simp add: node_setup_def assms(1) io b srcs Let_def)
  show ?thesis
  proof (cases "jc_enabled (cfg_json cfg) \<and> \<not> isfinite (jc_max_mb (cfg_json cfg))")
    case True
    then show ?thesis using build_sinks_cases [OF ok assms(2), of sink] st by auto
  next
    case False
    then obtain ks where ks: "build_sinks nw cfg sink = Inr ks" "map kind_of ks = configured_kinds nw cfg"
      using build_sinks_cases [OF ok assms(2), of sink] unfolding configured_kinds_def s(2) [symmetric] by (simp only: if_False) blast
    have "node_setup nw clk inbox path = Inr (aggregator_init clk
      (ac_stale_timeout (cfg_aggregator cfg)) (ac_check_interval (cfg_aggregator cfg)) (Some ks) (Some ?srcs)
      (SZmq (zmq_source_init False inbox)))" by (simp only: st ks(1) bindE_simps)
    then show ?thesis using False ks(2) by auto
  qed
qed

lemma ran_inbox:
  assumes "ran kenv loads senv clk n ag ag'" and "ag_sources ag = SZmq (zmq_source_init False inbox) # rest"
  shows "\<exists>z rest'. ag_sources ag' = SZmq z # rest' \<and> zs_inbox z = drop n inbox \<and> \<not> zs_open z"
proof -
  from assms(1) obtain ag1 where p: "polls (any_sink_ops kenv) (any_source_ops message_schema loads senv) clk n (ag\<lparr>ag_running := True\<rparr>) = (ag1, None)"
    and c: "ag_sources ag' = map (\<lambda>s. fst (sr_close (any_source_ops message_schema loads senv) s)) (ag_sources ag1)"
    unfolding ran_def by blast
  have "ag_sources (ag\<lparr>ag_running := True\<rparr>) = SZmq (zmq_source_init False inbox) # rest" using assms(2) by simp
  from polls_inbox [OF _ this, of "any_sink_ops kenv" message_schema loads senv clk n] obtain rest' where
    "ag_sources ag1 = SZmq ((zmq_source_init False inbox)\<lparr>zs_inbox := drop n inbox\<rparr>) # rest'"
    by (auto simp: p zmq_source_init_def)
  then show ?thesis by (simp add: c any_source_ops_def zmq_source_close_def zmq_source_init_def Let_def)
qed

subsection \<open>Properties\<close>

text \<open>Start-up builds what the configuration asks for: with a loadable configuration and a working
  outside world, the aggregator has the configuration's time-out and interval, an InfluxDB
  sink first and then exactly the enabled sinks in a fixed order, and a ZMQ source first and
  the ROS source when ROS is enabled and installed. The one thing that stops it is a size
  limit that is infinite or NaN, which the loading let through.\<close>

theorem node_setup_configured:
  assumes "load_config (nw_load nw) path = Inr cfg" and "world_up nw"
  shows "if jc_enabled (cfg_json cfg) \<and> \<not> isfinite (jc_max_mb (cfg_json cfg))
    then \<exists>e. node_setup nw clk inbox path = Inl e
    else \<exists>ag. node_setup nw clk inbox path = Inr ag \<and>
      ag_stale_timeout ag = ac_stale_timeout (cfg_aggregator cfg) \<and> ag_check_interval ag = ac_check_interval (cfg_aggregator cfg) \<and>
      map kind_of (ag_sinks ag) = configured_kinds nw cfg \<and>
      ag_sources ag = SZmq (zmq_source_init False inbox) # (if ros_on nw cfg then [SRos ros_source_init] else []) \<and>
      ag_cache ag = [] \<and> \<not> ag_running ag"
  using node_setup_cases [where nw = nw and path = path and cfg = cfg and clk = clk and inbox = inbox, OF assms]
  by (auto simp: aggregator_init_def split: if_splits)

definition demo_node_world :: "pyval \<Rightarrow> node_world" where
  "demo_node_world doc = \<lparr>nw_load = demo_world_yaml doc, nw_influx_client = False, nw_ros_packages = True,
     nw_ros_up = Inr (), nw_mkdir = (\<lambda>p. Inr ()), nw_disk = (\<lambda>p. (None, None)), nw_bind = (\<lambda>ep. Inr ())\<rparr>"

text \<open>An infinite size limit loads and then fails.\<close>

theorem node_setup_configured_witness:
  "\<exists>e. node_setup (demo_node_world (PDict [(''sinks'', PDict [(''json_file'', PDict [(''enabled'', PBool True), (''max_file_size_mb'', PFloat PInf)])])]))
     (\<lambda>n. f0) ([] :: nat option list) (Some ''c.yaml'') = Inl e"
proof -
  let ?doc = "PDict [(''sinks'', PDict [(''json_file'', PDict [(''enabled'', PBool True), (''max_file_size_mb'', PFloat PInf)])])]"
  obtain cfg where l: "load_config (nw_load (demo_node_world ?doc)) (Some ''c.yaml'') = Inr cfg"
    and c: "jc_enabled (cfg_json cfg)" "jc_max_mb (cfg_json cfg) = PInf"
    by (simp add: demo_node_world_def load_config_def demo_world_yaml_def config_path_def load_document_def build_config_def
        section_of_def dict_get_or_def get_float_def get_str_def check_config_def get_none_def as_bool_def)
  have "world_up (demo_node_world ?doc)" by (simp add: world_up_def demo_node_world_def)
  from node_setup_configured [where inbox = "[] :: nat option list" and clk = "\<lambda>n. f0", OF l this] c
  show ?thesis by simp
qed

text \<open>C12: The process ends well. Started from a loadable configuration in a working outside world, on
  a socket that yields only harmless payloads or garbage, the aggregator process polls until the
  signal, through the poll during which it first comes: that many receptions have then been taken
  from the ZMQ socket, every sink and source is closed, and it exits with code 0. The one
  configuration it does not start from enables the JSON sink with an infinite or NaN size limit,
  which the loading let through: the start-up raises then.\<close>

theorem node_exits_zero:
  assumes "load_config (nw_load nw) path = Inr cfg" and "world_up nw"
    and "sinks_env_ok kenv" and "signals n" and "zmq_harmless loads (zmq_source_init False inbox)" and "spins_fine senv"
  shows "if jc_enabled (cfg_json cfg) \<and> \<not> isfinite (jc_max_mb (cfg_json cfg))
    then \<exists>e. node_main nw kenv loads senv clk signals inbox path = Some (Some e, None)
    else \<exists>ag0 ag z rest. node_setup nw clk inbox path = Inr ag0 \<and>
      node_main nw kenv loads senv clk signals inbox path = Some (None, Some ag) \<and>
      ran kenv loads senv clk (Suc (LEAST k. signals k)) ag0 ag \<and>
      ag_sources ag = SZmq z # rest \<and> zs_inbox z = drop (Suc (LEAST k. signals k)) inbox \<and> \<not> zs_open z"
proof (cases "jc_enabled (cfg_json cfg) \<and> \<not> isfinite (jc_max_mb (cfg_json cfg))")
  case True
  then obtain e where "node_setup nw clk inbox path = Inl e"
    using node_setup_cases [where nw = nw and path = path and cfg = cfg and clk = clk and inbox = inbox, OF assms(1,2)] by auto
  with True show ?thesis by (simp add: node_main_def)
next
  case False
  then obtain ks sources z where st: "node_setup nw clk inbox path =
      Inr (aggregator_init clk (ac_stale_timeout (cfg_aggregator cfg)) (ac_check_interval (cfg_aggregator cfg)) (Some ks) (Some sources) z)"
    and src: "sources = SZmq (zmq_source_init False inbox) # (if ros_on nw cfg then [SRos ros_source_init] else [])"
    using node_setup_cases [where nw = nw and path = path and cfg = cfg and clk = clk and inbox = inbox, OF assms(1,2)]
    by (auto split: if_splits)
  let ?ag0 = "aggregator_init clk (ac_stale_timeout (cfg_aggregator cfg)) (ac_check_interval (cfg_aggregator cfg)) (Some ks) (Some sources) z"
  have h: "source_harmless loads senv s" if "s \<in> set sources" for s
    using that assms(5,6) by (auto simp: src source_harmless_def ros_source_init_def split: if_splits)
  have ne: "sources \<noteq> []" by (simp add: src)
  obtain ag where ag: "run (any_sink_ops kenv) (any_source_ops message_schema loads senv) clk signals ?ag0 = Some (ag, None)"
    and r: "ran kenv loads senv clk (Suc (LEAST k. signals k)) ?ag0 ag"
    using pipeline_run [where env = kenv and signals = signals and n = n and sources = sources and loads = loads and senv = senv
        and sinks = ks and z = z and clk = clk and timeout = "ac_stale_timeout (cfg_aggregator cfg)"
        and interval = "ac_check_interval (cfg_aggregator cfg)", OF assms(3,4) h ne] by blast
  have main: "node_main nw kenv loads senv clk signals inbox path = Some (None, Some ag)" by (simp add: node_main_def st ag)
  from ran_inbox [OF r, of inbox] obtain z' rest where
    "ag_sources ag = SZmq z' # rest" "zs_inbox z' = drop (Suc (LEAST k. signals k)) inbox" "\<not> zs_open z'"
    by (auto simp: src aggregator_init_def)
  with False st main r show ?thesis by auto
qed

text \<open>With the signal during poll 1, two of the three receptions of the demo inbox are taken.\<close>

theorem node_exits_zero_witness:
  "\<exists>ag z rest. node_main (demo_node_world (PDict [(''sinks'', PDict [(''stdout'', PDict [(''enabled'', PStr '' On '')]),
       (''ros_diagnostics'', PDict [(''enabled'', PBool True)])])]))
     demo_sinks_env demo_loads demo_source_env (\<lambda>n. Fin (real n)) (\<lambda>k. k = 1) demo_inbox (Some ''c.yaml'') = Some (None, Some ag) \<and>
     ag_sources ag = SZmq z # rest \<and> zs_inbox z = [Some 1] \<and> \<not> zs_open z"
proof -
  let ?doc = "PDict [(''sinks'', PDict [(''stdout'', PDict [(''enabled'', PStr '' On '')]),
       (''ros_diagnostics'', PDict [(''enabled'', PBool True)])])]"
  obtain cfg where l: "load_config (nw_load (demo_node_world ?doc)) (Some ''c.yaml'') = Inr cfg" and j: "\<not> jc_enabled (cfg_json cfg)"
    by (simp add: demo_node_world_def load_config_def demo_world_yaml_def config_path_def load_document_def build_config_def
        section_of_def dict_get_or_def get_float_def get_str_def check_config_def get_none_def as_bool_def
        strip_chars_def strip_by_def)
  have w: "world_up (demo_node_world ?doc)" by (simp add: world_up_def demo_node_world_def)
  have k: "sinks_env_ok demo_sinks_env"
    by (simp add: sinks_env_ok_def demo_sinks_env_def demo_influx_env_def demo_ros_env_def demo_disk_def disk_ok_def)
  have z: "zmq_harmless demo_loads (zmq_source_init False demo_inbox)" "spins_fine demo_source_env"
    using demo_harmless by (auto simp: source_harmless_def)
  have "(LEAST k. k = (1::nat)) = 1" by (rule Least_equality) auto
  then show ?thesis
    using node_exits_zero [where signals = "\<lambda>k. k = 1" and n = 1 and clk = "\<lambda>n. Fin (real n)", OF l w k refl z] j
    by (auto simp: demo_inbox_def)
qed

end
