(* ===== verification/Health.thy ===== *)
theory Health
  imports Py_Text
begin

text \<open>
  \<^verbatim>\<open>host_monitor/health.py\<close>: threshold evaluation with hysteresis (\<open>target\<close>) and debounce
  (\<open>debounce\<close>), one state per alert key, and the level and message of a batch of observations
  (\<open>evaluate\<close>). \<open>evaluate\<close> returns the new evaluator with its result, so that the state a raised
  exception leaves behind is visible. The lemmas show the hysteresis band, the debounce, that
  keys do not influence each other, the reported level, and that no exception is raised on
  observations of the shape the collectors build.
\<close>

record AlertObservation =
  ob_key :: string
  ob_label :: string
  ob_value :: pyfloat
  ob_warn :: pyfloat
  ob_error :: "pyfloat option"
  ob_direction :: string
  ob_unit :: string

record AlertState =
  al_level :: int
  al_candidate :: int
  al_count :: int

definition AlertState_init :: AlertState where
  "AlertState_init = \<lparr>al_level = 0, al_candidate = 0, al_count = 0\<rparr>"

record HealthEvaluator =
  he_consecutive :: int
  he_margin :: pyfloat
  he_states :: "(string, AlertState) dict"

definition HealthEvaluator_init :: "int \<Rightarrow> pyfloat \<Rightarrow> HealthEvaluator" where
  "HealthEvaluator_init consecutive_samples recovery_margin =
     \<lparr>he_consecutive = consecutive_samples, he_margin = recovery_margin, he_states = []\<rparr>"

definition target_high :: "pyfloat \<Rightarrow> AlertObservation \<Rightarrow> int \<Rightarrow> int" where
  "target_high margin ob current =
     (let v = ob_value ob;
          ge_error = (\<lambda>d. case ob_error ob of None \<Rightarrow> False | Some e \<Rightarrow> fge v (d e))
      in if current = 2 \<and> ge_error (\<lambda>e. fsub e margin) then 2
         else if ge_error (\<lambda>e. e) then 2
         else if current \<ge> 1 \<and> fge v (fsub (ob_warn ob) margin) then 1
         else if fge v (ob_warn ob) then 1 else 0)"

definition target_low :: "pyfloat \<Rightarrow> AlertObservation \<Rightarrow> int \<Rightarrow> int" where
  "target_low margin ob current =
     (let v = ob_value ob;
          le_error = (\<lambda>d. case ob_error ob of None \<Rightarrow> False | Some e \<Rightarrow> fle v (d e))
      in if current = 2 \<and> le_error (\<lambda>e. fadd e margin) then 2
         else if le_error (\<lambda>e. e) then 2
         else if current \<ge> 1 \<and> fle v (fadd (ob_warn ob) margin) then 1
         else if fle v (ob_warn ob) then 1 else 0)"

definition target :: "HealthEvaluator \<Rightarrow> AlertObservation \<Rightarrow> int \<Rightarrow> int result" where
  "target he ob current =
     (if ob_direction ob = ''high'' then Inr (target_high (he_margin he) ob current)
      else if ob_direction ob \<noteq> ''low'' then Inl (ValueError (''Unsupported alert direction: '' @ ob_direction ob))
      else Inr (target_low (he_margin he) ob current))"

definition debounce :: "int \<Rightarrow> int \<Rightarrow> AlertState \<Rightarrow> AlertState" where
  "debounce consecutive tgt st =
     (if tgt = al_level st then st\<lparr>al_candidate := tgt, al_count := 0\<rparr>
      else
        (let st1 = (if al_candidate st = tgt then st\<lparr>al_count := al_count st + 1\<rparr>
                    else st\<lparr>al_candidate := tgt, al_count := 1\<rparr>)
         in if al_count st1 \<ge> consecutive then st1\<lparr>al_level := tgt, al_count := 0\<rparr> else st1))"

text \<open>The message of an active alert; formatting a missing threshold raises TypeError.\<close>

definition alert_message :: "AlertObservation \<Rightarrow> int \<Rightarrow> string result" where
  "alert_message ob level =
     (let threshold = (if level = 2 then ob_error ob else Some (ob_warn ob));
          operator = (if ob_direction ob = ''high'' then ''>='' else ''<='')
      in case threshold of
           None \<Rightarrow> Inl (TypeError ''unsupported format string passed to NoneType.__format__'')
         | Some th \<Rightarrow> Inr (ob_label ob @ '' '' @ fmt_fixed 1 (ob_value ob) @ ob_unit ob @ '' '' @
                        operator @ '' '' @ fmt_fixed 1 th @ ob_unit ob))"

definition state_of :: "HealthEvaluator \<Rightarrow> string \<Rightarrow> AlertState" where
  "state_of he k = dict_get_or (he_states he) k AlertState_init"

definition set_state :: "string \<Rightarrow> AlertState \<Rightarrow> HealthEvaluator \<Rightarrow> HealthEvaluator" where
  "set_state k st he = he\<lparr>he_states := dict_set k st (he_states he)\<rparr>"

text \<open>
  One turn of the loop: \<open>setdefault\<close>, the target, the debounce, and the message if the level is
  not 0. The state the turn leaves is returned with its result.
\<close>

definition observe :: "HealthEvaluator \<Rightarrow> AlertObservation \<Rightarrow> HealthEvaluator \<times> (int \<times> string) option result" where
  "observe he ob =
     (let st = state_of he (ob_key ob); he1 = set_state (ob_key ob) st he
      in case target he ob (al_level st) of
           Inl e \<Rightarrow> (he1, Inl e)
         | Inr tgt \<Rightarrow>
             (let st' = debounce (he_consecutive he) tgt st; he2 = set_state (ob_key ob) st' he1
              in if al_level st' \<noteq> 0 then
                   (case alert_message ob (al_level st') of
                      Inl e \<Rightarrow> (he2, Inl e)
                    | Inr m \<Rightarrow> (he2, Inr (Some (al_level st', m))))
                 else (he2, Inr None)))"

fun evaluate_loop :: "HealthEvaluator \<Rightarrow> AlertObservation list \<Rightarrow> HealthEvaluator \<times> (int \<times> string) list result" where
  "evaluate_loop he [] = (he, Inr [])"
| "evaluate_loop he (ob # obs) =
     (case observe he ob of
        (he1, Inl e) \<Rightarrow> (he1, Inl e)
      | (he1, Inr r) \<Rightarrow>
          (case evaluate_loop he1 obs of
             (he2, Inl e) \<Rightarrow> (he2, Inl e)
           | (he2, Inr active) \<Rightarrow> (he2, Inr (case r of None \<Rightarrow> active | Some a \<Rightarrow> a # active))))"

definition health_report :: "(int \<times> string) list \<Rightarrow> int \<times> string" where
  "health_report active =
     (if active = [] then (0, ''OK'')
      else
        (let level = Max (set (map fst active));
             prefix = (if level = 2 then ''ERROR'' else ''WARN'');
             messages = map snd (filter (\<lambda>a. fst a = level) active)
         in (level, prefix @ '': '' @ join ''; '' (take 3 messages))))"

definition evaluate :: "HealthEvaluator \<Rightarrow> AlertObservation list \<Rightarrow> HealthEvaluator \<times> (int \<times> string) result" where
  "evaluate he obs =
     (case evaluate_loop he obs of
        (he', Inl e) \<Rightarrow> (he', Inl e)
      | (he', Inr active) \<Rightarrow> (he', Inr (health_report active)))"

subsection \<open>Targets: levels, thresholds, hysteresis\<close>

lemmas target_defs = target_def target_high_def target_low_def Let_def

lemma target_range: "target he ob c = Inr t \<Longrightarrow> t \<in> {0, 1, 2}"
  by (auto simp: target_defs split: if_splits)

lemma target_2_error: "target he ob c = Inr 2 \<Longrightarrow> ob_error ob \<noteq> None"
  by (cases "ob_error ob") (auto simp: target_defs split: if_splits)

lemma target_ok: "ob_direction ob \<in> {''high'', ''low''} \<Longrightarrow> \<exists>t. target he ob c = Inr t"
  by (auto simp: target_def)

subsection \<open>Debounce\<close>

definition debounce_run :: "int \<Rightarrow> int list \<Rightarrow> AlertState \<Rightarrow> AlertState" where
  "debounce_run n ts st = foldl (\<lambda>s t. debounce n t s) st ts"

lemma debounce_run_simps [simp]:
  "debounce_run n [] st = st"
  "debounce_run n (t # ts) st = debounce_run n ts (debounce n t st)"
  "debounce_run n (ts @ [t]) st = debounce n t (debounce_run n ts st)"
  by (simp_all add: debounce_run_def)

text \<open>A pending change is backed by that many equal targets at the end of the run.\<close>

definition pending_ok :: "int list \<Rightarrow> AlertState \<Rightarrow> bool" where
  "pending_ok ts st =
     (0 \<le> al_count st \<and> nat (al_count st) \<le> length ts \<and>
      (\<forall>t \<in> set (drop (length ts - nat (al_count st)) ts). t = al_candidate st))"

lemma pending_ok_snoc_same:
  "pending_ok ts st \<Longrightarrow> al_candidate st = t \<Longrightarrow> pending_ok (ts @ [t]) (st\<lparr>al_count := al_count st + 1\<rparr>)"
  by (auto simp: pending_ok_def nat_add_distrib)

lemma pending_ok_run: "pending_ok ts (debounce_run n ts AlertState_init)"
proof (induction ts rule: rev_induct)
  case Nil
  then show ?case by (simp add: pending_ok_def AlertState_init_def)
next
  case (snoc t ts)
  let ?st = "debounce_run n ts AlertState_init"
  show ?case
    using snoc.IH pending_ok_snoc_same [OF snoc.IH, of t]
    by (auto simp: debounce_def Let_def) (auto simp: pending_ok_def)
qed

lemma debounce_level_change:
  assumes "al_level (debounce n t st) \<noteq> al_level st"
  shows "al_level (debounce n t st) = t \<and> t \<noteq> al_level st \<and>
    n \<le> (if al_candidate st = t then al_count st + 1 else 1)"
  using assms by (auto simp: debounce_def Let_def split: if_splits)

subsection \<open>States of keys\<close>

lemma state_of_set [simp]: "state_of (set_state k st he) k' = (if k' = k then st else state_of he k')"
  by (simp add: state_of_def set_state_def dict_get_or_def)

lemma set_state_frame [simp]:
  "he_consecutive (set_state k st he) = he_consecutive he" "he_margin (set_state k st he) = he_margin he"
  by (simp_all add: set_state_def)

lemma target_frame [simp]: "target (set_state k st he) ob c = target he ob c"
  by (simp add: target_def)

text \<open>The effect of one observation on the state of its own key.\<close>

definition observe_state :: "HealthEvaluator \<Rightarrow> AlertObservation \<Rightarrow> AlertState \<Rightarrow> AlertState" where
  "observe_state he ob st =
     (case target he ob (al_level st) of Inl e \<Rightarrow> st | Inr t \<Rightarrow> debounce (he_consecutive he) t st)"

lemma observe_frame [simp]:
  "he_consecutive (fst (observe he ob)) = he_consecutive he"
  "he_margin (fst (observe he ob)) = he_margin he"
  by (auto simp: observe_def Let_def split: sum.splits)

lemma observe_state_of:
  "state_of (fst (observe he ob)) k =
     (if k = ob_key ob then observe_state he ob (state_of he k) else state_of he k)"
  by (auto simp: observe_def observe_state_def Let_def split: sum.splits)

lemma observe_state_cong: "he_consecutive a = he_consecutive b \<Longrightarrow> he_margin a = he_margin b \<Longrightarrow>
    observe_state a ob st = observe_state b ob st"
  by (simp add: observe_state_def target_def)

lemma evaluate_loop_frame:
  "he_consecutive (fst (evaluate_loop he obs)) = he_consecutive he \<and>
   he_margin (fst (evaluate_loop he obs)) = he_margin he"
proof (induction obs arbitrary: he)
  case (Cons ob obs)
  obtain he1 r where o: "observe he ob = (he1, r)" by fastforce
  have "he_consecutive he1 = he_consecutive he" "he_margin he1 = he_margin he"
    using observe_frame [of he ob] by (simp_all add: o)
  with Cons.IH [of he1] show ?case by (cases r) (auto simp: o split: prod.splits sum.splits)
qed simp

lemma evaluate_fst: "fst (evaluate he obs) = fst (evaluate_loop he obs)"
  by (auto simp: evaluate_def split: prod.splits sum.splits)

lemma evaluate_loop_Cons_Inr:
  assumes "snd (evaluate_loop he (ob # obs)) = Inr act"
  obtains r act' where "snd (observe he ob) = Inr r"
    and "snd (evaluate_loop (fst (observe he ob)) obs) = Inr act'"
    and "fst (evaluate_loop he (ob # obs)) = fst (evaluate_loop (fst (observe he ob)) obs)"
    and "act = (case r of None \<Rightarrow> act' | Some a \<Rightarrow> a # act')"
  using assms by (auto split: prod.splits sum.splits)

text \<open>The targets one key sees along a list of observations.\<close>

fun key_targets :: "HealthEvaluator \<Rightarrow> string \<Rightarrow> AlertObservation list \<Rightarrow> AlertState \<Rightarrow> int list" where
  "key_targets he k [] st = []"
| "key_targets he k (ob # obs) st =
     (if ob_key ob = k then
        (case target he ob (al_level st) of
           Inl e \<Rightarrow> key_targets he k obs st
         | Inr t \<Rightarrow> t # key_targets he k obs (debounce (he_consecutive he) t st))
      else key_targets he k obs st)"

definition key_run :: "HealthEvaluator \<Rightarrow> AlertObservation list \<Rightarrow> AlertState \<Rightarrow> AlertState" where
  "key_run he obs st = foldl (\<lambda>s ob. observe_state he ob s) st obs"

lemma key_run_simps [simp]:
  "key_run he [] st = st"
  "key_run he (ob # obs) st = key_run he obs (observe_state he ob st)"
  by (simp_all add: key_run_def)

lemma key_run_targets:
  "key_run he (filter (\<lambda>ob. ob_key ob = k) obs) st = debounce_run (he_consecutive he) (key_targets he k obs st) st"
  by (induction obs arbitrary: st) (auto simp: observe_state_def split: sum.splits)

lemma key_run_cong: "he_consecutive a = he_consecutive b \<Longrightarrow> he_margin a = he_margin b \<Longrightarrow> key_run a obs st = key_run b obs st"
proof -
  assume "he_consecutive a = he_consecutive b" "he_margin a = he_margin b"
  then have "(\<lambda>s ob. observe_state a ob s) = (\<lambda>s ob. observe_state b ob s)"
    by (intro ext observe_state_cong)
  then show ?thesis by (simp add: key_run_def)
qed

lemma evaluate_loop_state:
  "snd (evaluate_loop he obs) = Inr act \<Longrightarrow>
   state_of (fst (evaluate_loop he obs)) k = key_run he (filter (\<lambda>ob. ob_key ob = k) obs) (state_of he k)"
proof (induction obs arbitrary: he act)
  case (Cons ob obs)
  let ?he1 = "fst (observe he ob)"
  obtain r act' where "snd (observe he ob) = Inr r" and e1: "snd (evaluate_loop ?he1 obs) = Inr act'"
    and e2: "fst (evaluate_loop he (ob # obs)) = fst (evaluate_loop ?he1 obs)"
    and "act = (case r of None \<Rightarrow> act' | Some a \<Rightarrow> a # act')"
    using Cons.prems by (rule evaluate_loop_Cons_Inr)
  have c: "key_run ?he1 = key_run he"
    by (intro ext key_run_cong) simp_all
  have "state_of (fst (evaluate_loop he (ob # obs))) k =
      key_run he (filter (\<lambda>ob. ob_key ob = k) obs) (state_of ?he1 k)"
    unfolding e2 Cons.IH [OF e1] c ..
  then show ?case
    by (cases "ob_key ob = k") (simp_all add: observe_state_of del: evaluate_loop.simps)
qed simp

subsection \<open>The shape of the collectors' observations raises nothing\<close>

text \<open>
  \<open>E\<close> is the set of keys that carry an ERROR threshold. The collectors give a key the same
  shape every time, so a state at level 2 belongs to such a key.
\<close>

definition obs_ok :: "(string \<Rightarrow> bool) \<Rightarrow> AlertObservation \<Rightarrow> bool" where
  "obs_ok E ob = (ob_direction ob \<in> {''high'', ''low''} \<and> (E (ob_key ob) \<longleftrightarrow> ob_error ob \<noteq> None))"

definition states_ok :: "(string \<Rightarrow> bool) \<Rightarrow> HealthEvaluator \<Rightarrow> bool" where
  "states_ok E he = (\<forall>k. al_level (state_of he k) \<in> {0, 1, 2} \<and> (al_level (state_of he k) = 2 \<longrightarrow> E k))"

lemma states_ok_init [simp]: "states_ok E (HealthEvaluator_init n m)"
  by (simp add: states_ok_def state_of_def HealthEvaluator_init_def dict_get_or_def AlertState_init_def)

lemma debounce_level_cases: "al_level (debounce n t st) = t \<or> al_level (debounce n t st) = al_level st"
  by (simp add: debounce_def Let_def)

lemma observe_ok:
  assumes ok: "obs_ok E ob" and st: "states_ok E he"
  shows "states_ok E (fst (observe he ob))"
    and "\<exists>r. snd (observe he ob) = Inr r \<and>
      map_option fst r = (let l = al_level (state_of (fst (observe he ob)) (ob_key ob)) in
        if l \<noteq> 0 then Some l else None)"
proof -
  let ?st = "state_of he (ob_key ob)"
  obtain t where t: "target he ob (al_level ?st) = Inr t"
    using ok target_ok [of ob he "al_level ?st"] by (auto simp: obs_ok_def)
  let ?st' = "debounce (he_consecutive he) t ?st"
  have lvl: "al_level ?st' \<in> {0, 1, 2}" "al_level ?st' = 2 \<Longrightarrow> E (ob_key ob)"
    using debounce_level_cases [of "he_consecutive he" t ?st] target_range [OF t] st ok target_2_error [of he ob "al_level ?st"] t
    by (auto simp: states_ok_def obs_ok_def)
  have s: "state_of (fst (observe he ob)) k = (if k = ob_key ob then ?st' else state_of he k)" for k
    by (simp add: observe_state_of observe_state_def t)
  show "states_ok E (fst (observe he ob))"
    unfolding states_ok_def s using st lvl by (auto simp: states_ok_def)
  have "\<exists>m. alert_message ob (al_level ?st') = Inr m"
    using lvl(2) ok by (auto simp: alert_message_def obs_ok_def Let_def split: option.splits)
  then show "\<exists>r. snd (observe he ob) = Inr r \<and>
      map_option fst r = (let l = al_level (state_of (fst (observe he ob)) (ob_key ob)) in
        if l \<noteq> 0 then Some l else None)"
    by (auto simp: observe_def t Let_def split: sum.splits)
qed

lemma observe_ok_Inr: "obs_ok E ob \<Longrightarrow> states_ok E he \<Longrightarrow> \<exists>r. snd (observe he ob) = Inr r"
  using observe_ok(2) by blast

lemma evaluate_loop_ok:
  "(\<And>ob. ob \<in> set obs \<Longrightarrow> obs_ok E ob) \<Longrightarrow> states_ok E he \<Longrightarrow>
   states_ok E (fst (evaluate_loop he obs)) \<and> (\<exists>act. snd (evaluate_loop he obs) = Inr act)"
proof (induction obs arbitrary: he)
  case (Cons ob obs)
  obtain he1 r where o: "observe he ob = (he1, Inr r)"
    using Cons.prems observe_ok_Inr [of E ob he] by (metis list.set_intros(1) prod.collapse)
  have "states_ok E he1"
    using observe_ok(1) [of E ob he] Cons.prems by (simp add: o)
  with Cons show ?case by (fastforce simp: o split: prod.splits sum.splits)
qed simp

lemma evaluate_Inr: "snd (evaluate_loop he obs) = Inr act \<Longrightarrow> evaluate he obs = (fst (evaluate_loop he obs), Inr (health_report act))"
  by (auto simp: evaluate_def split: prod.splits)

subsection \<open>The reported level\<close>

lemma health_report_level: "fst (health_report act) = (if act = [] then 0 else Max (set (map fst act)))"
  by (simp add: health_report_def Let_def)

lemma evaluate_loop_range:
  "(\<And>ob. ob \<in> set obs \<Longrightarrow> obs_ok E ob) \<Longrightarrow> states_ok E he \<Longrightarrow> snd (evaluate_loop he obs) = Inr act \<Longrightarrow>
   set (map fst act) \<subseteq> {1, 2}"
proof (induction obs arbitrary: he act)
  case (Cons ob obs)
  have ok: "obs_ok E ob" using Cons.prems(1) by simp
  obtain he1 r where o: "observe he ob = (he1, Inr r)" using observe_ok_Inr [OF ok Cons.prems(2)] by (metis prod.collapse)
  have st: "states_ok E he1" using observe_ok(1) [OF ok Cons.prems(2)] by (simp add: o)
  obtain act' where a: "snd (evaluate_loop he1 obs) = Inr act'" "act = (case r of None \<Rightarrow> act' | Some x \<Rightarrow> x # act')"
    using Cons.prems(3) by (auto simp: o split: prod.splits sum.splits)
  have "al_level (state_of he1 (ob_key ob)) \<in> {0, 1, 2}" using st by (auto simp: states_ok_def)
  then have "\<forall>x. r = Some x \<longrightarrow> fst x \<in> {1, 2}"
    using observe_ok(2) [OF ok Cons.prems(2)] by (auto simp: o Let_def split: if_splits)
  moreover have "set (map fst act') \<subseteq> {1, 2}" using Cons.IH [OF _ st a(1)] Cons.prems(1) by simp
  ultimately show ?case by (auto simp: a(2) split: option.splits)
qed simp

lemma evaluate_range:
  assumes "\<And>ob. ob \<in> set obs \<Longrightarrow> obs_ok E ob" and "states_ok E he" and "snd (evaluate he obs) = Inr (l, m)"
  shows "l \<in> {0, 1, 2}"
proof -
  obtain act where act: "snd (evaluate_loop he obs) = Inr act" using evaluate_loop_ok [of obs E he] assms(1,2) by blast
  have l: "l = (if act = [] then 0 else Max (set (map fst act)))"
    using assms(3) health_report_level [of act] by (simp add: evaluate_Inr [OF act])
  show ?thesis
  proof (cases "act = []")
    case False
    then have "Max (set (map fst act)) \<in> set (map fst act)" by (intro Max_in) auto
    then have "Max (set (map fst act)) \<in> {1, 2}" using evaluate_loop_range [OF assms(1,2) act] by blast
    then show ?thesis using False by (simp add: l)
  qed (simp add: l)
qed

text \<open>Observations of distinct keys: each key's level after the batch is what was reported for it.\<close>

lemma evaluate_loop_other_key:
  "snd (evaluate_loop he obs) = Inr act \<Longrightarrow> k \<notin> ob_key ` set obs \<Longrightarrow>
   state_of (fst (evaluate_loop he obs)) k = state_of he k"
proof (subst evaluate_loop_state, assumption)
  assume "k \<notin> ob_key ` set obs"
  then have "filter (\<lambda>ob. ob_key ob = k) obs = []" by (auto simp: filter_empty_conv)
  then show "key_run he (filter (\<lambda>ob. ob_key ob = k) obs) (state_of he k) = state_of he k" by simp
qed

lemma evaluate_loop_levels:
  "(\<And>ob. ob \<in> set obs \<Longrightarrow> obs_ok E ob) \<Longrightarrow> states_ok E he \<Longrightarrow> distinct (map ob_key obs) \<Longrightarrow>
   snd (evaluate_loop he obs) = Inr act \<Longrightarrow>
   map fst act = filter (\<lambda>l. l \<noteq> 0) (map (\<lambda>ob. al_level (state_of (fst (evaluate_loop he obs)) (ob_key ob))) obs)"
proof (induction obs arbitrary: he act)
  case (Cons ob obs)
  let ?he1 = "fst (observe he ob)"
  obtain r act' where r: "snd (observe he ob) = Inr r" and e1: "snd (evaluate_loop ?he1 obs) = Inr act'"
    and e2: "fst (evaluate_loop he (ob # obs)) = fst (evaluate_loop ?he1 obs)"
    and a: "act = (case r of None \<Rightarrow> act' | Some a \<Rightarrow> a # act')"
    using Cons.prems(4) by (rule evaluate_loop_Cons_Inr)
  have ok: "obs_ok E ob" using Cons.prems(1) by simp
  have "state_of (fst (evaluate_loop ?he1 obs)) (ob_key ob) = state_of ?he1 (ob_key ob)"
    using evaluate_loop_other_key [OF e1] Cons.prems(3) by simp
  moreover have "map_option fst r = (let l = al_level (state_of ?he1 (ob_key ob)) in if l \<noteq> 0 then Some l else None)"
    using observe_ok(2) [OF ok Cons.prems(2)] r by auto
  moreover have "map fst act' = filter (\<lambda>l. l \<noteq> 0)
      (map (\<lambda>ob. al_level (state_of (fst (evaluate_loop ?he1 obs)) (ob_key ob))) obs)"
    by (rule Cons.IH) (use Cons.prems observe_ok(1) [OF ok Cons.prems(2)] e1 in auto)
  ultimately show ?case unfolding e2 a
    by (cases r) (auto simp: Let_def split: if_splits)
qed simp

lemma key_targets_snoc:
  "key_targets he k (obs @ [ob]) st = key_targets he k obs st @
     (if ob_key ob = k then
        (case target he ob (al_level (debounce_run (he_consecutive he) (key_targets he k obs st) st)) of
           Inl e \<Rightarrow> [] | Inr t \<Rightarrow> [t])
      else [])"
  by (induction obs arbitrary: st) (auto split: sum.splits)

lemma pending_ok_tail:
  assumes "pending_ok ts st" and "n \<le> (if al_candidate st = t then nat (al_count st) + 1 else 1)"
  shows "n \<le> length (ts @ [t]) \<and> (\<forall>u \<in> set (drop (length (ts @ [t]) - n) (ts @ [t])). u = t)"
proof (cases n)
  case (Suc j)
  have c: "nat (al_count st) \<le> length ts" "\<forall>u \<in> set (drop (length ts - nat (al_count st)) ts). u = al_candidate st"
    using assms(1) by (auto simp: pending_ok_def)
  have j: "j \<le> length ts" "j \<noteq> 0 \<Longrightarrow> al_candidate st = t" "j \<le> nat (al_count st) \<or> j = 0"
    using assms(2) c(1) Suc by (auto split: if_splits)
  have "set (drop (length ts - j) ts) \<subseteq> {t}"
  proof (cases "j = 0")
    case False
    with j(3) have "set (drop (length ts - j) ts) \<subseteq> set (drop (length ts - nat (al_count st)) ts)"
      by (intro set_drop_subset_set_drop) simp
    with c(2) j(2) False show ?thesis by auto
  qed simp
  then show ?thesis using Suc j(1) by auto
qed simp

lemma evaluate_ok:
  assumes "\<And>ob. ob \<in> set obs \<Longrightarrow> obs_ok E ob" and "states_ok E he"
  shows "states_ok E (fst (evaluate he obs)) \<and> (\<exists>r. snd (evaluate he obs) = Inr r)"
proof -
  have "states_ok E (fst (evaluate_loop he obs)) \<and> (\<exists>act. snd (evaluate_loop he obs) = Inr act)"
    by (rule evaluate_loop_ok) (use assms in auto)
  then show ?thesis by (auto simp: evaluate_Inr)
qed

lemma evaluate_state:
  assumes "snd (evaluate he obs) = Inr r"
  shows "state_of (fst (evaluate he obs)) k =
    debounce_run (he_consecutive he) (key_targets he k obs (state_of he k)) (state_of he k)"
proof -
  have "\<exists>act. snd (evaluate_loop he obs) = Inr act"
    using assms by (auto simp: evaluate_def split: prod.splits sum.splits)
  then show ?thesis
    using evaluate_loop_state key_run_targets by (metis evaluate_fst)
qed

subsection \<open>The same observation again and again\<close>

definition evaluate_times :: "nat \<Rightarrow> AlertObservation \<Rightarrow> HealthEvaluator \<Rightarrow> HealthEvaluator" where
  "evaluate_times j ob he = ((\<lambda>h. fst (evaluate h [ob])) ^^ j) he"

lemma evaluate_single: "fst (evaluate he [ob]) = fst (observe he ob)"
  by (auto simp: evaluate_fst split: prod.splits sum.splits)

lemma evaluate_times_simps [simp]:
  "evaluate_times 0 ob he = he"
  "evaluate_times (Suc j) ob he = fst (observe (evaluate_times j ob he) ob)"
  by (simp_all add: evaluate_times_def evaluate_single)

lemma evaluate_times_frame [simp]:
  "he_consecutive (evaluate_times j ob he) = he_consecutive he"
  "he_margin (evaluate_times j ob he) = he_margin he"
  by (induction j) simp_all

text \<open>The target of an observation does not depend on the level once it has been taken over.\<close>

lemma target_settles:
  "target he ob l = Inr t \<Longrightarrow> l \<in> {0, 1, 2} \<Longrightarrow> target he ob t = Inr t"
  by (cases "ob_error ob") (auto simp: target_defs split: if_splits)

lemma evaluate_times_state:
  assumes t: "target he ob (al_level st) = Inr t" "al_level st \<in> {0, 1, 2}" "t \<noteq> al_level st"
    and n: "he_consecutive he = int n" "1 \<le> n"
    and st: "state_of he (ob_key ob) = st" "al_candidate st = al_level st" "al_count st = 0"
  shows "state_of (evaluate_times j ob he) (ob_key ob) =
    (if j = 0 then st
     else if j < n then st\<lparr>al_candidate := t, al_count := int j\<rparr>
     else st\<lparr>al_level := t, al_candidate := t, al_count := 0\<rparr>)"
proof (induction j)
  case 0
  then show ?case by (simp add: st)
next
  case (Suc j)
  have tt: "target he ob t = Inr t" using target_settles [OF t(1,2)] .
  have f: "observe_state (evaluate_times j ob he) ob = observe_state he ob"
    by (intro ext observe_state_cong) simp_all
  show ?case
    using Suc t st n tt
    by (auto simp: observe_state_of f observe_state_def debounce_def Let_def)
qed

subsection \<open>Properties\<close>

text \<open>C18: With a margin of at least 0, a high alert moves to ERROR exactly when the value reaches ERROR,
  keeps ERROR down to ERROR minus the margin, and returns to OK only below WARN minus the margin
  once it has left OK; a low alert is the mirror image. So inside the band the target keeps the
  current severity.\<close>

theorem target_hysteresis:
  assumes "ob_value ob = Fin v" "ob_warn ob = Fin w" "ob_error ob = Some (Fin e)"
    and "he_margin he = Fin m" "0 \<le> m" "c \<in> {0, 1, 2}"
  shows "(ob_direction ob = ''high'' \<longrightarrow> target he ob c = Inr
      (if e \<le> v \<or> (c = 2 \<and> e - m \<le> v) then 2 else if v < (if c = 0 then w else w - m) then 0 else 1)) \<and>
    (ob_direction ob = ''low'' \<longrightarrow> target he ob c = Inr
      (if v \<le> e \<or> (c = 2 \<and> v \<le> e + m) then 2 else if (if c = 0 then w else w + m) < v then 0 else 1))"
  using assms by (auto simp: target_defs)

definition cpu_alert :: "pyfloat \<Rightarrow> AlertObservation" where
  "cpu_alert v = \<lparr>ob_key = ''cpu.usage'', ob_label = ''CPU usage'', ob_value = v,
     ob_warn = Fin 90, ob_error = Some (Fin 98), ob_direction = ''high'', ob_unit = ''%''\<rparr>"

theorem target_hysteresis_witness:
  "target (HealthEvaluator_init 3 (Fin 5)) (cpu_alert (Fin 94)) 2 = Inr 2 \<and>
   target (HealthEvaluator_init 3 (Fin 5)) (cpu_alert (Fin 94)) 0 = Inr 1"
  using target_hysteresis [of "cpu_alert (Fin 94)" 94 90 98 "HealthEvaluator_init 3 (Fin 5)" 5 2]
    target_hysteresis [of "cpu_alert (Fin 94)" 94 90 98 "HealthEvaluator_init 3 (Fin 5)" 5 0]
  by (simp add: cpu_alert_def HealthEvaluator_init_def)

text \<open>C5: Debounce. Whatever observations a fresh evaluator has processed, if one more observation
  changes the level of its key, then at least the configured number of targets of that key
  have been seen and the latest that many are all equal to the new level: a single outlier
  never changes the reported severity (for two or more consecutive samples).\<close>

theorem level_change_debounced:
  assumes "snd (evaluate (HealthEvaluator_init (int n) m) obs) = Inr r"
    and "snd (evaluate (HealthEvaluator_init (int n) m) (obs @ [ob])) = Inr r'"
    and "al_level (state_of (fst (evaluate (HealthEvaluator_init (int n) m) obs)) (ob_key ob)) \<noteq> l'"
    and "al_level (state_of (fst (evaluate (HealthEvaluator_init (int n) m) (obs @ [ob]))) (ob_key ob)) = l'"
  shows "let ts = key_targets (HealthEvaluator_init (int n) m) (ob_key ob) (obs @ [ob]) AlertState_init
    in n \<le> length ts \<and> (\<forall>t \<in> set (drop (length ts - n) ts). t = l')"
proof -
  let ?he = "HealthEvaluator_init (int n) m" and ?k = "ob_key ob"
  let ?ts = "key_targets ?he ?k obs AlertState_init"
  let ?st = "debounce_run (int n) ?ts AlertState_init"
  have 0: "state_of ?he ?k = AlertState_init" "he_consecutive ?he = int n"
    by (simp_all add: state_of_def HealthEvaluator_init_def dict_get_or_def)
  have 1: "state_of (fst (evaluate ?he obs)) ?k = ?st"
    using evaluate_state [OF assms(1), of ?k] by (simp add: 0)
  have 2: "state_of (fst (evaluate ?he (obs @ [ob]))) ?k =
      debounce_run (int n) (key_targets ?he ?k (obs @ [ob]) AlertState_init) AlertState_init"
    using evaluate_state [OF assms(2), of ?k] by (simp add: 0)
  have a3: "al_level ?st \<noteq> l'"
    and a4: "al_level (debounce_run (int n) (key_targets ?he ?k (obs @ [ob]) AlertState_init) AlertState_init) = l'"
    using assms(3,4) unfolding 1 2 by blast+
  obtain t where t: "key_targets ?he ?k (obs @ [ob]) AlertState_init = ?ts @ [t]"
  proof (cases "target ?he ob (al_level ?st)")
    case (Inl e)
    then have "key_targets ?he ?k (obs @ [ob]) AlertState_init = ?ts" by (simp add: key_targets_snoc 0)
    with a3 a4 show ?thesis by simp
  next
    case (Inr t)
    then show ?thesis using that by (simp add: key_targets_snoc 0)
  qed
  have "al_level (debounce (int n) t ?st) \<noteq> al_level ?st" and l': "l' = al_level (debounce (int n) t ?st)"
    using a3 a4 unfolding t by simp_all
  from debounce_level_change [OF this(1)] l'
  have lt: "l' = t" and "n \<le> (if al_candidate ?st = t then nat (al_count ?st) + 1 else 1)"
    by (auto split: if_splits)
  from pending_ok_tail [OF pending_ok_run this(2)]
  show ?thesis unfolding t Let_def lt .
qed

theorem level_change_debounced_witness:
  "let ts = key_targets (HealthEvaluator_init 2 (Fin 5)) ''cpu.usage'' [cpu_alert (Fin 92), cpu_alert (Fin 93)] AlertState_init
   in 2 \<le> length ts \<and> (\<forall>t \<in> set (drop (length ts - 2) ts). t = 1)"
proof -
  let ?he = "HealthEvaluator_init (int 2) (Fin 5)" and ?a = "cpu_alert (Fin 92)" and ?b = "cpu_alert (Fin 93)"
  have ok: "obs_ok (\<lambda>k. k = ''cpu.usage'') (cpu_alert v)" for v by (simp add: obs_ok_def cpu_alert_def)
  have "\<exists>r. snd (evaluate ?he obs) = Inr r" if "set obs \<subseteq> {?a, ?b}" for obs
    using evaluate_ok [of obs "\<lambda>k. k = ''cpu.usage''" ?he] that ok by auto
  then obtain r r' where r: "snd (evaluate ?he [?a]) = Inr r" "snd (evaluate ?he ([?a] @ [?b])) = Inr r'"
    by (metis empty_subsetI insert_subset append.simps insert_iff list.set)
  have k: "ob_key (cpu_alert v) = ''cpu.usage''" for v by (simp add: cpu_alert_def)
  have h: "state_of ?he ''cpu.usage'' = AlertState_init"
    by (simp add: state_of_def HealthEvaluator_init_def dict_get_or_def)
  note ev = target_defs cpu_alert_def HealthEvaluator_init_def debounce_def AlertState_init_def
  have "al_level (state_of (fst (evaluate ?he [?a])) (ob_key ?b)) \<noteq> 1"
    unfolding evaluate_state [OF r(1)] k h by (simp add: ev)
  moreover have "al_level (state_of (fst (evaluate ?he ([?a] @ [?b]))) (ob_key ?b)) = 1"
    unfolding evaluate_state [OF r(2)] k h by (simp add: ev)
  ultimately show ?thesis
    using level_change_debounced [OF r, of 1] unfolding k by (simp only: append.simps of_nat_numeral) blast
qed

text \<open>A sustained change goes through. From a settled state, evaluating the same observation
  again and again keeps the level for fewer than the configured number of samples and has the
  observation's target as the level from that number on, for good: raising and clearing both
  take exactly that many samples.\<close>

theorem sustained_change:
  assumes "target he ob (al_level st) = Inr t" "al_level st \<in> {0, 1, 2}" "t \<noteq> al_level st"
    and "he_consecutive he = int n" "1 \<le> n"
    and "state_of he (ob_key ob) = st" "al_candidate st = al_level st" "al_count st = 0"
  shows "al_level (state_of (evaluate_times j ob he) (ob_key ob)) = (if j < n then al_level st else t)"
  using evaluate_times_state [OF assms, of j] assms(5) by auto

theorem sustained_change_witness:
  "al_level (state_of (evaluate_times 2 (cpu_alert (Fin 99)) (HealthEvaluator_init 3 (Fin 5))) ''cpu.usage'') = 0 \<and>
   al_level (state_of (evaluate_times 3 (cpu_alert (Fin 99)) (HealthEvaluator_init 3 (Fin 5))) ''cpu.usage'') = 2"
proof -
  let ?he = "HealthEvaluator_init 3 (Fin 5)" and ?ob = "cpu_alert (Fin 99)"
  have h: "target ?he ?ob (al_level AlertState_init) = Inr 2" "al_level AlertState_init \<in> {0, 1, 2}"
    "2 \<noteq> al_level AlertState_init" "he_consecutive ?he = int 3" "1 \<le> (3 :: nat)"
    "state_of ?he (ob_key ?ob) = AlertState_init" "al_candidate AlertState_init = al_level AlertState_init"
    "al_count AlertState_init = 0"
    by (simp_all add: target_defs cpu_alert_def HealthEvaluator_init_def AlertState_init_def state_of_def dict_get_or_def)
  show ?thesis
    using sustained_change [OF h, of 2] sustained_change [OF h, of 3] by (simp add: cpu_alert_def AlertState_init_def)
qed

text \<open>C19: Alerts of different keys do not influence each other: two batches with the same
  observations of a key, in the same order, leave that key in the same state, whatever else
  they contain and however the observations are interleaved.\<close>

theorem keys_independent:
  assumes "snd (evaluate he obs) = Inr r" and "snd (evaluate he' obs') = Inr r'"
    and "he_consecutive he = he_consecutive he'" and "he_margin he = he_margin he'"
    and "state_of he k = state_of he' k"
    and "filter (\<lambda>ob. ob_key ob = k) obs = filter (\<lambda>ob. ob_key ob = k) obs'"
  shows "state_of (fst (evaluate he obs)) k = state_of (fst (evaluate he' obs')) k"
proof -
  have "state_of (fst (evaluate he obs)) k = key_run he (filter (\<lambda>ob. ob_key ob = k) obs) (state_of he k)"
    unfolding evaluate_state [OF assms(1)] key_run_targets ..
  also have "\<dots> = key_run he' (filter (\<lambda>ob. ob_key ob = k) obs') (state_of he' k)"
    unfolding assms(5,6) by (rule key_run_cong [OF assms(3,4)])
  also have "\<dots> = state_of (fst (evaluate he' obs')) k"
    unfolding evaluate_state [OF assms(2)] key_run_targets ..
  finally show ?thesis .
qed

theorem keys_independent_witness:
  "state_of (fst (evaluate (HealthEvaluator_init 1 (Fin 5)) [cpu_alert (Fin 99), (cpu_alert (Fin 91))\<lparr>ob_key := ''x''\<rparr>])) ''cpu.usage''
   = state_of (fst (evaluate (HealthEvaluator_init 1 (Fin 5)) [cpu_alert (Fin 99)])) ''cpu.usage''"
proof -
  let ?he = "HealthEvaluator_init 1 (Fin 5)" and ?a = "cpu_alert (Fin 99)"
  let ?b = "(cpu_alert (Fin 91))\<lparr>ob_key := ''x''\<rparr>"
  have ok: "obs_ok (\<lambda>_. True) ?a" "obs_ok (\<lambda>_. True) ?b" by (simp_all add: obs_ok_def cpu_alert_def)
  have "\<exists>r. snd (evaluate ?he obs) = Inr r" if "set obs \<subseteq> {?a, ?b}" for obs
    using evaluate_ok [of obs "\<lambda>_. True" ?he] that ok by auto
  then obtain r r' where r: "snd (evaluate ?he [?a, ?b]) = Inr r" "snd (evaluate ?he [?a]) = Inr r'"
    by (metis empty_subsetI insert_subset insert_iff list.set)
  show ?thesis
    by (rule keys_independent [OF r]) (simp_all add: cpu_alert_def)
qed

text \<open>C17: On observations of the collectors' shape (a known direction, and an ERROR threshold
  present or absent per key for good) an evaluation raises nothing and keeps that true of its
  states; with distinct keys the reported level is the worst level of the observed keys, and
  the message is OK exactly when that level is 0.\<close>

theorem evaluate_reports_worst:
  assumes "\<And>ob. ob \<in> set obs \<Longrightarrow> obs_ok E ob" and "states_ok E he" and "distinct (map ob_key obs)"
  shows "states_ok E (fst (evaluate he obs)) \<and>
    (\<exists>msg l. snd (evaluate he obs) = Inr (l, msg) \<and>
      l = Max (insert 0 ((\<lambda>ob. al_level (state_of (fst (evaluate he obs)) (ob_key ob))) ` set obs)) \<and>
      (msg = ''OK'' \<longleftrightarrow> l = 0))"
proof -
  obtain act where act: "snd (evaluate_loop he obs) = Inr act"
    using evaluate_loop_ok [of obs E he] assms by blast
  let ?f = "\<lambda>ob. al_level (state_of (fst (evaluate he obs)) (ob_key ob))"
  have st: "states_ok E (fst (evaluate he obs))"
    using evaluate_ok [of obs E he] assms by blast
  then have nn: "0 \<le> ?f ob" for ob by (auto simp: states_ok_def dest: spec [of _ "ob_key ob"])
  have m: "map fst act = filter (\<lambda>l. l \<noteq> 0) (map ?f obs)"
    using evaluate_loop_levels [OF assms act] by (simp add: evaluate_fst)
  then have s: "fst ` set act = ?f ` set obs - {0}"
    by (auto simp flip: set_map)
  have "fst (health_report act) = Max (insert 0 (?f ` set obs))"
  proof (cases "act = []")
    case True
    with s have "?f ` set obs \<subseteq> {0}" by auto
    then have e: "insert 0 (?f ` set obs) = {0}" by auto
    show ?thesis unfolding e health_report_level using True by simp
  next
    case False
    then have "fst ` set act \<noteq> {}" by simp
    moreover have "insert 0 (?f ` set obs) = insert 0 (fst ` set act)" using s by auto
    moreover have "0 \<le> Max (fst ` set act)"
    proof -
      have "Max (fst ` set act) \<in> fst ` set act" using False by (intro Max_in) auto
      then show ?thesis using nn unfolding s by auto
    qed
    ultimately show ?thesis using False by (simp add: health_report_level max_def)
  qed
  moreover have "(snd (health_report act) = ''OK'') \<longleftrightarrow> fst (health_report act) = 0"
  proof (cases "act = []")
    case False
    then have "Max (fst ` set act) \<in> fst ` set act" by (intro Max_in) auto
    then have "Max (fst ` set act) \<noteq> 0" using s by auto
    with False show ?thesis by (auto simp: health_report_def Let_def)
  qed (simp add: health_report_def)
  ultimately show ?thesis using st
    by (simp add: evaluate_Inr [OF act]) (metis prod.collapse)
qed

text \<open>One alert in ERROR and one calm: the level of the first is reported.\<close>

theorem evaluate_reports_worst_witness:
  "\<exists>msg. snd (evaluate (HealthEvaluator_init 1 (Fin 5)) [cpu_alert (Fin 99), (cpu_alert (Fin 20))\<lparr>ob_key := ''calm''\<rparr>]) = Inr (2, msg) \<and>
     msg \<noteq> ''OK''"
proof -
  let ?he = "HealthEvaluator_init 1 (Fin 5)" and ?obs = "[cpu_alert (Fin 99), (cpu_alert (Fin 20))\<lparr>ob_key := ''calm''\<rparr>]"
  have l: "(\<lambda>ob. al_level (state_of (fst (evaluate ?he ?obs)) (ob_key ob))) ` set ?obs = {2, 0}"
    by (simp add: evaluate_fst cpu_alert_def observe_def HealthEvaluator_init_def state_of_def set_state_def target_defs debounce_def
        AlertState_init_def dict_get_or_def alert_message_def Let_def)
  have ok: "obs_ok (\<lambda>_. True) ob" if "ob \<in> set ?obs" for ob
  proof -
    have "ob = cpu_alert (Fin 99) \<or> ob = (cpu_alert (Fin 20))\<lparr>ob_key := ''calm''\<rparr>" using that by simp
    then show ?thesis by (elim disjE) (simp_all add: obs_ok_def cpu_alert_def)
  qed
  have d: "distinct (map ob_key ?obs)" by (simp add: cpu_alert_def)
  have "\<exists>msg l. snd (evaluate ?he ?obs) = Inr (l, msg) \<and> l = Max (insert 0 {2, 0}) \<and> (msg = ''OK'' \<longleftrightarrow> l = 0)"
    unfolding l [symmetric]
    by (rule conjunct2 [OF evaluate_reports_worst [where E = "\<lambda>_. True"]]) (erule ok, rule states_ok_init, rule d)
  then obtain msg l where m: "snd (evaluate ?he ?obs) = Inr (l, msg)" and l2: "l = Max (insert 0 {2, 0}) \<and> (msg = ''OK'' \<longleftrightarrow> l = 0)"
    by (elim exE conjE) (rule that, assumption, rule conjI)
  have "l = 2 \<and> msg \<noteq> ''OK''" using l2 by simp
  then show ?thesis using m by (intro exI [of _ msg]) (simp only: simp_thms)
qed

end
