(* ===== verification/Host_Config.thy ===== *)
theory Host_Config
  imports Py_Config
begin

text \<open>
  \<^verbatim>\<open>host_monitor/config.py\<close>: the configuration of the host monitor. The lemmas show which
  configurations a load can return (the thresholds in the right order, names not empty) and
  that the defaults load as they are.
\<close>

record ThresholdConfig =
  th_consecutive :: int
  th_margin :: pyfloat
  th_cpu_warn :: pyfloat
  th_cpu_error :: pyfloat
  th_ram_warn :: pyfloat
  th_ram_error :: pyfloat
  th_swap_warn :: pyfloat
  th_swap_error :: pyfloat
  th_fs_warn :: pyfloat
  th_fs_error :: pyfloat
  th_temp_warn :: pyfloat
  th_temp_error :: pyfloat
  th_battery_warn :: pyfloat
  th_battery_error :: pyfloat

record CollectorConfig =
  co_system :: bool
  co_cpu :: bool
  co_memory :: bool
  co_temperature :: bool
  co_filesystem :: bool
  co_disk_io :: bool
  co_network :: bool
  co_battery :: bool
  co_gpu :: bool
  co_tegrastats :: bool
  co_xenomai :: bool

record HostMonitorConfig =
  hc_zmq_endpoint :: string
  hc_sample_interval :: pyfloat
  hc_hostname :: string
  hc_hw_id :: string
  hc_node_prefix :: string
  hc_include_per_cpu :: bool
  hc_cpu_temps_only :: bool
  hc_excluded_interfaces :: "string list"
  hc_required_interfaces :: "string list"
  hc_excluded_fstypes :: "string list"
  hc_gpu_command :: string
  hc_gpu_timeout :: pyfloat
  hc_tegrastats_command :: string
  hc_tegrastats_timeout :: pyfloat
  hc_xenomai_path :: string
  hc_collectors :: CollectorConfig
  hc_thresholds :: ThresholdConfig

definition default_thresholds :: ThresholdConfig where
  "default_thresholds =
     \<lparr>th_consecutive = 3, th_margin = Fin 5, th_cpu_warn = Fin 90, th_cpu_error = Fin 98, th_ram_warn = Fin 85,
      th_ram_error = Fin 95, th_swap_warn = Fin 80, th_swap_error = Fin 95, th_fs_warn = Fin 85, th_fs_error = Fin 95,
      th_temp_warn = Fin 80, th_temp_error = Fin 90, th_battery_warn = Fin 20, th_battery_error = Fin 10\<rparr>"

definition default_collectors :: CollectorConfig where
  "default_collectors =
     \<lparr>co_system = True, co_cpu = True, co_memory = True, co_temperature = True, co_filesystem = True, co_disk_io = True,
      co_network = True, co_battery = True, co_gpu = True, co_tegrastats = True, co_xenomai = True\<rparr>"

definition default_excluded_interfaces :: "string list" where
  "default_excluded_interfaces = [''lo'', ''docker*'', ''veth*'', ''br-*'', ''virbr*'']"

definition default_excluded_fstypes :: "string list" where
  "default_excluded_fstypes =
     [''autofs'', ''binfmt_misc'', ''cgroup'', ''cgroup2'', ''configfs'', ''debugfs'', ''devpts'', ''devtmpfs'', ''fusectl'',
      ''hugetlbfs'', ''mqueue'', ''overlay'', ''proc'', ''pstore'', ''securityfs'', ''squashfs'', ''sysfs'', ''tmpfs'', ''tracefs'']"

text \<open>\<open>__post_init__\<close>.\<close>

definition host_post_init :: "string \<Rightarrow> HostMonitorConfig \<Rightarrow> HostMonitorConfig" where
  "host_post_init gethostname c =
     (let hostname = (if hc_hostname c \<noteq> [] then hc_hostname c else gethostname);
          hw_id = (if hc_hw_id c \<noteq> [] then hc_hw_id c else hostname);
          prefix = strip_chars ''/'' (hc_node_prefix c)
      in c\<lparr>hc_hostname := hostname, hc_hw_id := hw_id, hc_node_prefix := (if prefix \<noteq> [] then prefix else ''host'')\<rparr>)"

definition default_host_config :: "string \<Rightarrow> HostMonitorConfig" where
  "default_host_config gethostname = host_post_init gethostname
     \<lparr>hc_zmq_endpoint = [], hc_sample_interval = Fin 1, hc_hostname = gethostname, hc_hw_id = [], hc_node_prefix = ''host'',
      hc_include_per_cpu = True, hc_cpu_temps_only = True, hc_excluded_interfaces = default_excluded_interfaces,
      hc_required_interfaces = [], hc_excluded_fstypes = default_excluded_fstypes, hc_gpu_command = ''nvidia-smi'',
      hc_gpu_timeout = Fin 1, hc_tegrastats_command = ''tegrastats'', hc_tegrastats_timeout = Fin 2,
      hc_xenomai_path = ''/proc/xenomai/sched/stat'', hc_collectors = default_collectors, hc_thresholds = default_thresholds\<rparr>"

definition host_mapping :: "pyval \<Rightarrow> string \<Rightarrow> (string, pyval) dict result" where
  "host_mapping value name =
     (case value of
        PNone \<Rightarrow> Inr []
      | PDict d \<Rightarrow> Inr d
      | _ \<Rightarrow> Inl (ValueError (''host_monitor.'' @ name @ '' must be a mapping'')))"

definition as_text :: "pyval \<Rightarrow> string option" where
  "as_text v = (case v of PStr s \<Rightarrow> Some s | _ \<Rightarrow> None)"

definition as_tuple :: "pyval \<Rightarrow> string list \<Rightarrow> string \<Rightarrow> string list result" where
  "as_tuple value dflt name =
     (case value of
        PNone \<Rightarrow> Inr dflt
      | PList vs \<Rightarrow>
          (if list_all (\<lambda>v. as_text v \<noteq> None) vs then Inr (map (\<lambda>v. case as_text v of Some s \<Rightarrow> s | None \<Rightarrow> []) vs)
           else Inl (ValueError (''host_monitor.'' @ name @ '' must be a list of strings'')))
      | _ \<Rightarrow> Inl (ValueError (''host_monitor.'' @ name @ '' must be a list of strings'')))"

definition host_float :: "(string, pyval) dict \<Rightarrow> string \<Rightarrow> pyfloat \<Rightarrow> pyfloat result" where
  "host_float d k x = py_float (dict_get_or d k (PFloat x))"

definition host_str :: "(pyval \<Rightarrow> string) \<Rightarrow> (string, pyval) dict \<Rightarrow> string \<Rightarrow> string \<Rightarrow> string" where
  "host_str so d k x = py_str so (dict_get_or d k (PStr x))"

definition build_collector_config :: "(string, pyval) dict \<Rightarrow> CollectorConfig" where
  "build_collector_config d =
     (let flag = (\<lambda>name dflt. as_bool (get_none d name) dflt); c = default_collectors in
      \<lparr>co_system = flag ''system'' (co_system c), co_cpu = flag ''cpu'' (co_cpu c), co_memory = flag ''memory'' (co_memory c),
       co_temperature = flag ''temperature'' (co_temperature c), co_filesystem = flag ''filesystem'' (co_filesystem c),
       co_disk_io = flag ''disk_io'' (co_disk_io c), co_network = flag ''network'' (co_network c),
       co_battery = flag ''battery'' (co_battery c), co_gpu = flag ''gpu'' (co_gpu c),
       co_tegrastats = flag ''tegrastats'' (co_tegrastats c), co_xenomai = flag ''xenomai'' (co_xenomai c)\<rparr>)"

definition build_thresholds :: "(string, pyval) dict \<Rightarrow> ThresholdConfig result" where
  "build_thresholds d =
     (let t = default_thresholds in
      bindE (py_int (dict_get_or d ''consecutive_samples'' (PInt (th_consecutive t)))) (\<lambda>consecutive.
      bindE (host_float d ''recovery_margin'' (th_margin t)) (\<lambda>margin.
      bindE (host_float d ''cpu_warn_percent'' (th_cpu_warn t)) (\<lambda>cpu_warn.
      bindE (host_float d ''cpu_error_percent'' (th_cpu_error t)) (\<lambda>cpu_error.
      bindE (host_float d ''ram_warn_percent'' (th_ram_warn t)) (\<lambda>ram_warn.
      bindE (host_float d ''ram_error_percent'' (th_ram_error t)) (\<lambda>ram_error.
      bindE (host_float d ''swap_warn_percent'' (th_swap_warn t)) (\<lambda>swap_warn.
      bindE (host_float d ''swap_error_percent'' (th_swap_error t)) (\<lambda>swap_error.
      bindE (host_float d ''filesystem_warn_percent'' (th_fs_warn t)) (\<lambda>fs_warn.
      bindE (host_float d ''filesystem_error_percent'' (th_fs_error t)) (\<lambda>fs_error.
      bindE (host_float d ''temperature_warn_c'' (th_temp_warn t)) (\<lambda>temp_warn.
      bindE (host_float d ''temperature_error_c'' (th_temp_error t)) (\<lambda>temp_error.
      bindE (host_float d ''battery_warn_percent'' (th_battery_warn t)) (\<lambda>battery_warn.
      bindE (host_float d ''battery_error_percent'' (th_battery_error t)) (\<lambda>battery_error.
        Inr \<lparr>th_consecutive = consecutive, th_margin = margin, th_cpu_warn = cpu_warn, th_cpu_error = cpu_error,
             th_ram_warn = ram_warn, th_ram_error = ram_error, th_swap_warn = swap_warn, th_swap_error = swap_error,
             th_fs_warn = fs_warn, th_fs_error = fs_error, th_temp_warn = temp_warn, th_temp_error = temp_error,
             th_battery_warn = battery_warn, th_battery_error = battery_error\<rparr>)))))))))))))))"

definition build_host_config :: "load_world \<Rightarrow> (string, pyval) dict \<Rightarrow> HostMonitorConfig result" where
  "build_host_config lw raw =
     (let dc = default_host_config (lw_hostname lw); so = lw_str lw in
      bindE (host_mapping (get_none raw ''collectors'') ''collectors'') (\<lambda>collectors_raw.
      bindE (host_mapping (get_none raw ''thresholds'') ''thresholds'') (\<lambda>thresholds_raw.
      bindE (build_thresholds thresholds_raw) (\<lambda>thresholds.
      bindE (host_float raw ''sample_interval_sec'' (hc_sample_interval dc)) (\<lambda>interval.
      bindE (as_tuple (get_none raw ''excluded_interfaces'') (hc_excluded_interfaces dc) ''excluded_interfaces'') (\<lambda>excluded.
      bindE (as_tuple (get_none raw ''required_interfaces'') (hc_required_interfaces dc) ''required_interfaces'') (\<lambda>required.
      bindE (as_tuple (get_none raw ''excluded_filesystem_types'') (hc_excluded_fstypes dc) ''excluded_filesystem_types'') (\<lambda>fstypes.
      bindE (host_float raw ''gpu_timeout_sec'' (hc_gpu_timeout dc)) (\<lambda>gpu_timeout.
      bindE (host_float raw ''tegrastats_timeout_sec'' (hc_tegrastats_timeout dc)) (\<lambda>tegrastats_timeout.
        Inr (host_post_init (lw_hostname lw)
          \<lparr>hc_zmq_endpoint = host_str so raw ''zmq_endpoint'' [], hc_sample_interval = interval,
           hc_hostname = host_str so raw ''hostname'' (hc_hostname dc), hc_hw_id = host_str so raw ''hw_id'' [],
           hc_node_prefix = host_str so raw ''node_prefix'' (hc_node_prefix dc),
           hc_include_per_cpu = as_bool (get_none raw ''include_per_cpu'') (hc_include_per_cpu dc),
           hc_cpu_temps_only = as_bool (get_none raw ''aggregate_cpu_temperatures_only'') (hc_cpu_temps_only dc),
           hc_excluded_interfaces = excluded, hc_required_interfaces = required, hc_excluded_fstypes = fstypes,
           hc_gpu_command = host_str so raw ''gpu_command'' (hc_gpu_command dc), hc_gpu_timeout = gpu_timeout,
           hc_tegrastats_command = host_str so raw ''tegrastats_command'' (hc_tegrastats_command dc),
           hc_tegrastats_timeout = tegrastats_timeout,
           hc_xenomai_path = host_str so raw ''xenomai_stat_path'' (hc_xenomai_path dc),
           hc_collectors = build_collector_config collectors_raw, hc_thresholds = thresholds\<rparr>)))))))))))"

definition warn_below_error :: "pyfloat \<Rightarrow> pyfloat \<Rightarrow> string \<Rightarrow> unit result" where
  "warn_below_error warn error name =
     require (\<not> fge warn error) (ValueError (''host_monitor.thresholds.'' @ name @ '' WARN must be below ERROR''))"

definition validate_host_config :: "HostMonitorConfig \<Rightarrow> unit result" where
  "validate_host_config c =
     (let t = hc_thresholds c in
      bindE (require (\<not> fle (hc_sample_interval c) f0) (ValueError ''host_monitor.sample_interval_sec must be > 0'')) (\<lambda>_.
      bindE (require (\<not> fle (hc_gpu_timeout c) f0) (ValueError ''host_monitor.gpu_timeout_sec must be > 0'')) (\<lambda>_.
      bindE (require (\<not> fle (hc_tegrastats_timeout c) f0) (ValueError ''host_monitor.tegrastats_timeout_sec must be > 0'')) (\<lambda>_.
      bindE (require (hc_xenomai_path c \<noteq> []) (ValueError ''host_monitor.xenomai_stat_path must be non-empty'')) (\<lambda>_.
      bindE (require (\<not> th_consecutive t \<le> 0) (ValueError ''host_monitor.thresholds.consecutive_samples must be > 0'')) (\<lambda>_.
      bindE (require (\<not> flt (th_margin t) f0) (ValueError ''host_monitor.thresholds.recovery_margin must be >= 0'')) (\<lambda>_.
      bindE (warn_below_error (th_cpu_warn t) (th_cpu_error t) ''cpu'') (\<lambda>_.
      bindE (warn_below_error (th_ram_warn t) (th_ram_error t) ''ram'') (\<lambda>_.
      bindE (warn_below_error (th_swap_warn t) (th_swap_error t) ''swap'') (\<lambda>_.
      bindE (warn_below_error (th_fs_warn t) (th_fs_error t) ''filesystem'') (\<lambda>_.
      bindE (warn_below_error (th_temp_warn t) (th_temp_error t) ''temperature'') (\<lambda>_.
        require (\<not> fge (th_battery_error t) (th_battery_warn t)) (ValueError ''battery ERROR threshold must be below WARN'')))))))))))))"

definition load_host_monitor_config :: "load_world \<Rightarrow> string option \<Rightarrow> HostMonitorConfig result" where
  "load_host_monitor_config lw path =
     bindE (case config_path lw ''XBOT2_HOST_MONITOR_CONFIG'' path of
              None \<Rightarrow> Inr []
            | Some p \<Rightarrow> bindE (load_document lw p) (\<lambda>loaded. host_mapping (get_none loaded ''host_monitor'') [])) (\<lambda>raw.
     bindE (build_host_config lw raw) (\<lambda>config.
     bindE (validate_host_config config) (\<lambda>_. Inr config)))"

subsection \<open>What the validation gives\<close>

definition below_or_nan :: "pyfloat \<Rightarrow> pyfloat \<Rightarrow> bool" where
  "below_or_nan a b = (flt a b \<or> a = NaN \<or> b = NaN)"

lemma below_or_nan_iff: "below_or_nan a b \<longleftrightarrow> \<not> fge a b"
  by (cases a; cases b) (auto simp: below_or_nan_def)

definition thresholds_ok :: "ThresholdConfig \<Rightarrow> bool" where
  "thresholds_ok t =
     (0 < th_consecutive t \<and> (fle f0 (th_margin t) \<or> th_margin t = NaN) \<and>
      below_or_nan (th_cpu_warn t) (th_cpu_error t) \<and> below_or_nan (th_ram_warn t) (th_ram_error t) \<and>
      below_or_nan (th_swap_warn t) (th_swap_error t) \<and> below_or_nan (th_fs_warn t) (th_fs_error t) \<and>
      below_or_nan (th_temp_warn t) (th_temp_error t) \<and> below_or_nan (th_battery_error t) (th_battery_warn t))"

definition host_config_ok :: "HostMonitorConfig \<Rightarrow> bool" where
  "host_config_ok c =
     (below_or_nan f0 (hc_sample_interval c) \<and> below_or_nan f0 (hc_gpu_timeout c) \<and>
      below_or_nan f0 (hc_tegrastats_timeout c) \<and> hc_xenomai_path c \<noteq> [] \<and> thresholds_ok (hc_thresholds c))"

lemma validate_host_config_iff: "validate_host_config c = Inr () \<longleftrightarrow> host_config_ok c"
proof -
  have m: "\<not> flt m f0 \<longleftrightarrow> fle f0 m \<or> m = NaN" for m by (cases m) auto
  show ?thesis
    by (simp add: validate_host_config_def host_config_ok_def thresholds_ok_def bindE_Inr_iff below_or_nan_iff
        warn_below_error_def m Let_def not_le)
qed

text \<open>The names of a configuration: not empty, the prefix without slashes around it.\<close>

definition host_names_ok :: "HostMonitorConfig \<Rightarrow> bool" where
  "host_names_ok c =
     (hc_hostname c \<noteq> [] \<and> hc_hw_id c \<noteq> [] \<and> hc_node_prefix c \<noteq> [] \<and>
      hd (hc_node_prefix c) \<noteq> CHR ''/'' \<and> last (hc_node_prefix c) \<noteq> CHR ''/'')"

lemma host_post_init_names: "gethostname \<noteq> [] \<Longrightarrow> host_names_ok (host_post_init gethostname c)"
  using strip_by_ends [of "\<lambda>c. c \<in> set ''/''" "hc_node_prefix c"]
  by (auto simp: host_names_ok_def host_post_init_def strip_chars_def Let_def)

lemma default_host_config_ok: "host_config_ok (default_host_config g)"
  by (simp add: host_config_ok_def thresholds_ok_def below_or_nan_def default_host_config_def host_post_init_def
      default_thresholds_def Let_def)

lemma build_host_config_empty: "build_host_config lw [] = Inr (default_host_config (lw_hostname lw))"
proof -
  have t: "build_thresholds [] = Inr default_thresholds"
    by (simp add: build_thresholds_def host_float_def default_thresholds_def)
  have c: "build_collector_config [] = default_collectors"
    by (simp add: build_collector_config_def default_collectors_def)
  show ?thesis
    by (simp add: build_host_config_def host_mapping_def t c as_tuple_def host_float_def host_str_def
        default_host_config_def host_post_init_def strip_chars_def strip_by_def Let_def)
qed

subsection \<open>Properties\<close>

text \<open>C39: On a machine that has a name, a load of the host monitor's configuration either raises or
  returns one whose interval and time-outs are positive, whose samples and margin make sense,
  whose WARN thresholds lie below the ERROR ones (above them for the battery), NaN apart,
  and whose host name, hardware id and node prefix are not empty.\<close>

theorem load_host_config_validated:
  assumes "load_host_monitor_config lw path = Inr c" and "lw_hostname lw \<noteq> []"
  shows "host_config_ok c \<and> host_names_ok c"
proof -
  from assms(1) obtain raw where b: "build_host_config lw raw = Inr c" and v: "validate_host_config c = Inr ()"
    by (auto simp: load_host_monitor_config_def bindE_Inr_iff)
  from b obtain c0 where "c = host_post_init (lw_hostname lw) c0"
    unfolding build_host_config_def Let_def bindE_Inr_iff by blast
  then show ?thesis using v host_post_init_names [OF assms(2)] by (simp add: validate_host_config_iff)
qed

definition host_world :: "pyval \<Rightarrow> load_world" where
  "host_world doc = \<lparr>lw_environ = (\<lambda>v. None), lw_read = (\<lambda>p. Inr []), lw_yaml = (\<lambda>t. Inr doc),
     lw_hostname = ''robot'', lw_str = (\<lambda>v. [])\<rparr>"

theorem load_host_config_validated_witness:
  "\<exists>c. load_host_monitor_config (host_world (PDict [(''host_monitor'', PDict [(''node_prefix'', PStr ''/''),
       (''thresholds'', PDict [(''cpu_warn_percent'', PInt 50)])])])) (Some ''c.yaml'') = Inr c \<and>
     hc_node_prefix c = ''host'' \<and> host_config_ok c \<and> host_names_ok c"
proof -
  let ?raw = "[(''node_prefix'', PStr ''/''), (''thresholds'', PDict [(''cpu_warn_percent'', PInt 50)])]"
  let ?lw = "host_world (PDict [(''host_monitor'', PDict ?raw)])"
  have t: "build_thresholds [(''cpu_warn_percent'', PInt 50)] = Inr (default_thresholds\<lparr>th_cpu_warn := Fin 50\<rparr>)"
    by (simp add: build_thresholds_def host_float_def default_thresholds_def dict_get_or_def float_of_int_small)
  obtain c where b: "build_host_config ?lw ?raw = Inr c" and p: "hc_node_prefix c = ''host''" and
    c: "hc_thresholds c = default_thresholds\<lparr>th_cpu_warn := Fin 50\<rparr>" "hc_sample_interval c = Fin 1" "hc_gpu_timeout c = Fin 1"
      "hc_tegrastats_timeout c = Fin 2" "hc_xenomai_path c = ''/proc/xenomai/sched/stat''"
    by (simp add: build_host_config_def host_mapping_def t get_none_def dict_get_or_def as_tuple_def host_float_def host_str_def
        default_host_config_def host_post_init_def strip_chars_def strip_by_def Let_def)
  have "validate_host_config c = Inr ()"
    by (simp add: validate_host_config_iff host_config_ok_def thresholds_ok_def below_or_nan_def c default_thresholds_def)
  then have l: "load_host_monitor_config ?lw (Some ''c.yaml'') = Inr c"
    using b by (simp add: load_host_monitor_config_def host_world_def config_path_def load_document_def host_mapping_def
        get_none_def dict_get_or_def)
  from load_host_config_validated [OF l] l p show ?thesis by (auto simp: host_world_def)
qed

text \<open>The defaults of the host monitor are consistent: they pass their own validation and are what
  a load returns without a configuration path, from an empty file, and from a file without a
  section for the monitor.\<close>

theorem load_host_config_defaults:
  assumes "config_path lw ''XBOT2_HOST_MONITOR_CONFIG'' path = None \<or>
    (\<exists>p d. config_path lw ''XBOT2_HOST_MONITOR_CONFIG'' path = Some p \<and> load_document lw p = Inr d \<and>
       get_none d ''host_monitor'' = PNone)"
  shows "load_host_monitor_config lw path = Inr (default_host_config (lw_hostname lw)) \<and>
    host_config_ok (default_host_config (lw_hostname lw))"
  using assms validate_host_config_iff [of "default_host_config (lw_hostname lw)"] default_host_config_ok
  by (auto simp: load_host_monitor_config_def build_host_config_empty host_mapping_def)

theorem load_host_config_defaults_witness:
  "load_host_monitor_config (host_world PNone) (Some ''c.yaml'') = Inr (default_host_config ''robot'')"
  using load_host_config_defaults [of "host_world PNone" "Some ''c.yaml''"]
  by (simp add: host_world_def config_path_def load_document_def)

end
