(* ===== verification/Collector_Base.thy ===== *)
theory Collector_Base
  imports Health Host_Config
begin

text \<open>
  What the collectors of \<^verbatim>\<open>host_monitor/collectors.py\<close> share: the sample, the cleaning of
  names, the filter on values, and the formatting of sizes and durations. The lemmas show
  what a clean name looks like, that only finite values pass the filter, and the shape
  (\<open>sample_ok\<close>) every collector's samples have, on which the monitor relies.
\<close>

record MetricSample =
  ms_path :: string
  ms_values :: "(string, pyfloat) dict"
  ms_alerts :: "AlertObservation list"
  ms_summary :: string

subsection \<open>Names\<close>

definition name_char :: "char \<Rightarrow> bool" where
  "name_char c = (let n = code_pt c in
     is_digit c \<or> (65 \<le> n \<and> n \<le> 90) \<or> (97 \<le> n \<and> n \<le> 122) \<or> n = 95 \<or> n = 46 \<or> n = 45)"

text \<open>\<^verbatim>\<open>re.sub(r"[^A-Za-z0-9_.-]+", "_", s)\<close>: each run of other characters becomes one underscore.\<close>

function replace_runs :: "string \<Rightarrow> string" where
  "replace_runs [] = []"
| "replace_runs (c # s) =
     (if name_char c then c # replace_runs s
      else CHR ''_'' # replace_runs (dropWhile (\<lambda>d. \<not> name_char d) s))"
  by pat_completeness auto
termination by (relation "measure length") (auto simp: le_imp_less_Suc length_dropWhile_le)

definition sanitize_name :: "string \<Rightarrow> string" where
  "sanitize_name s = (let cleaned = strip_chars ''_.-'' (replace_runs (strip s)) in
     if cleaned \<noteq> [] then cleaned else ''unknown'')"

lemma replace_runs_chars: "c \<in> set (replace_runs s) \<Longrightarrow> name_char c"
proof (induction s rule: replace_runs.induct)
  case (2 d s)
  then show ?case by (cases "name_char d") (auto simp: name_char_def code_pt_def)
qed simp

lemma replace_runs_id: "(\<And>c. c \<in> set s \<Longrightarrow> name_char c) \<Longrightarrow> replace_runs s = s"
  by (induction s) auto

text \<open>A clean name: not empty, of name characters only, no separator at either end.\<close>

definition clean_name :: "string \<Rightarrow> bool" where
  "clean_name s = (s \<noteq> [] \<and> list_all name_char s \<and> hd s \<notin> set ''_.-'' \<and> last s \<notin> set ''_.-'')"

lemma clean_sanitize: "clean_name (sanitize_name s)"
proof (cases "strip_chars ''_.-'' (replace_runs (strip s)) = []")
  case True
  have "clean_name ''unknown''" by (simp add: clean_name_def name_char_def is_digit_def code_pt_def)
  then show ?thesis using True by (simp add: sanitize_name_def)
next
  case False
  then have "strip_by (\<lambda>c. c \<in> set ''_.-'') (replace_runs (strip s)) \<noteq> []" by (simp add: strip_chars_def)
  note ends = strip_by_ends [OF this]
  have "list_all name_char (strip_chars ''_.-'' (replace_runs (strip s)))"
    using set_strip_by replace_runs_chars by (fastforce simp: list_all_iff strip_chars_def)
  then show ?thesis using False ends by (simp add: sanitize_name_def clean_name_def strip_chars_def Let_def)
qed

lemma name_char_not_space: "name_char c \<Longrightarrow> \<not> is_space c"
  by (auto simp: name_char_def is_space_def is_digit_def Let_def)

lemma sanitize_clean: "clean_name s \<Longrightarrow> sanitize_name s = s"
proof -
  assume c: "clean_name s"
  then have chars: "name_char d" if "d \<in> set s" for d using that by (auto simp: clean_name_def list_all_iff)
  have "strip s = s" unfolding strip_def using chars name_char_not_space by (intro strip_by_none) auto
  moreover have "replace_runs s = s" using chars by (rule replace_runs_id)
  moreover have "strip_chars ''_.-'' s = s" unfolding strip_chars_def using c by (intro strip_by_id) (auto simp: clean_name_def)
  ultimately show ?thesis using c by (simp add: sanitize_name_def clean_name_def)
qed

lemma sanitize_nonempty [simp]: "sanitize_name s \<noteq> []"
  using clean_sanitize [of s] by (simp add: clean_name_def)

subsection \<open>Values\<close>

text \<open>
  Booleans become 1 and 0, finite numbers floats; other values are dropped. An integer no
  float can hold raises OverflowError.
\<close>

fun finite_loop :: "(string, pyval) dict \<Rightarrow> (string, pyfloat) dict \<Rightarrow> (string, pyfloat) dict result" where
  "finite_loop [] out = Inr out"
| "finite_loop ((key, PBool b) # kvs) out = finite_loop kvs (dict_set key (Fin (if b then 1 else 0)) out)"
| "finite_loop ((key, PNum n) # kvs) out =
     bindE (py_float (PNum n)) (\<lambda>f. finite_loop kvs (if isfinite f then dict_set key f out else out))"
| "finite_loop ((key, v) # kvs) out = finite_loop kvs out"

definition finite_values :: "(string, pyval) dict \<Rightarrow> (string, pyfloat) dict result" where
  "finite_values vs = finite_loop vs []"

definition all_finite :: "(string, pyfloat) dict \<Rightarrow> bool" where
  "all_finite d = (\<forall>v \<in> set (map snd d). isfinite v)"

lemma all_finite_set: "all_finite d \<Longrightarrow> isfinite v \<Longrightarrow> all_finite (dict_set k v d)"
  using vals_dict_set [of k v d] by (auto simp: all_finite_def simp del: set_map)

text \<open>What holds before the loop and is kept by storing a finite value under a key holds after it.\<close>

lemma finite_loop_inv:
  "finite_loop vs out = Inr out' \<Longrightarrow> P out \<Longrightarrow>
   (\<And>k f d. k \<in> set (keys vs) \<Longrightarrow> P d \<Longrightarrow> isfinite f \<Longrightarrow> P (dict_set k f d)) \<Longrightarrow> P out'"
proof (induction vs out rule: finite_loop.induct)
  case (3 key n kvs out)
  from 3(2) obtain f where "py_float (PNum n) = Inr f"
    and r: "finite_loop kvs (if isfinite f then dict_set key f out else out) = Inr out'" by (auto simp: bindE_Inr_iff)
  moreover have "P (if isfinite f then dict_set key f out else out)" using 3(3,4) by simp
  ultimately show ?case using 3(1) [of f] 3(4) by simp
qed auto

lemma finite_values_finite [simp]: "finite_values vs = Inr out \<Longrightarrow> all_finite out"
  unfolding finite_values_def by (erule finite_loop_inv) (auto simp: all_finite_set, simp add: all_finite_def)

lemma finite_values_keys: "finite_values vs = Inr out \<Longrightarrow> set (keys out) \<subseteq> set (keys vs)"
  unfolding finite_values_def
  by (rule finite_loop_inv [where P = "\<lambda>d. set (keys d) \<subseteq> set (keys vs)"]) auto

lemma finite_values_wf: "finite_values vs = Inr out \<Longrightarrow> wf_dict out"
  unfolding finite_values_def by (erule finite_loop_inv) auto

text \<open>What the loop keeps of one entry, and what it keeps of a dictionary.\<close>

definition kept :: "pyval \<Rightarrow> pyfloat option" where
  "kept v = (case v of
      PBool b \<Rightarrow> Some (Fin (if b then 1 else 0))
    | PNum n \<Rightarrow> (case py_float (PNum n) of Inr f \<Rightarrow> if isfinite f then Some f else None | Inl e \<Rightarrow> None)
    | _ \<Rightarrow> None)"

lemma finite_loop_get:
  "finite_loop vs out = Inr out' \<Longrightarrow> distinct (keys vs) \<Longrightarrow>
   dict_get out' k = (case dict_get vs k of
      None \<Rightarrow> dict_get out k
    | Some v \<Rightarrow> (case kept v of Some f \<Rightarrow> Some f | None \<Rightarrow> dict_get out k))"
proof (induction vs out rule: finite_loop.induct)
  case (2 key b kvs out)
  then have "dict_get kvs key = None" by (simp add: dict_get_None_iff)
  with 2 show ?case by (auto simp: kept_def split: option.splits)
next
  case (3 key n kvs out)
  then obtain f where f: "py_float (PNum n) = Inr f"
    and r: "finite_loop kvs (if isfinite f then dict_set key f out else out) = Inr out'" by (auto simp: bindE_Inr_iff)
  have "dict_get kvs key = None" using 3(3) by (simp add: dict_get_None_iff)
  with 3(1) [OF r] 3(3) f show ?case by (auto simp: kept_def split: option.splits)
qed (auto simp: kept_def dict_get_None_iff [THEN iffD2] split: option.splits)

lemma finite_values_get:
  "finite_values vs = Inr out \<Longrightarrow> wf_dict vs \<Longrightarrow>
   dict_get out k = (case dict_get vs k of None \<Rightarrow> None | Some v \<Rightarrow> kept v)"
  using finite_loop_get [of vs "[]" out k] by (auto simp: finite_values_def wf_dict_def split: option.splits)

subsection \<open>Text\<close>

fun format_units :: "pyfloat \<Rightarrow> string list \<Rightarrow> string" where
  "format_units amount [] = fmt_fixed 1 amount @ '' TiB''"
| "format_units amount (u # us) =
     (if flt amount (Fin 1024) \<or> u = ''TiB'' then fmt_fixed 1 amount @ '' '' @ u
      else format_units (fdiv amount (Fin 1024)) us)"

definition format_bytes :: "pyfloat \<Rightarrow> string" where
  "format_bytes value = format_units (fmax f0 value) [''B'', ''KiB'', ''MiB'', ''GiB'', ''TiB'']"

definition format_duration :: "pynum \<Rightarrow> string result" where
  "format_duration seconds =
     bindE (py_int (PNum seconds)) (\<lambda>s.
       let total_minutes = max 0 s div 60; days = total_minutes div (24 * 60); remaining = total_minutes mod (24 * 60);
           hours = remaining div 60; minutes = remaining mod 60
       in Inr (if days \<noteq> 0 then show_int days @ ''d '' @ show_int hours @ ''h''
               else if hours \<noteq> 0 then show_int hours @ ''h '' @ show_int minutes @ ''m''
               else show_int minutes @ ''m''))"

text \<open>A size in GiB, \<^verbatim>\<open>n / (1024 ** 3)\<close>: OverflowError when the quotient is out of a float's range.\<close>

definition gib :: "int \<Rightarrow> pyfloat result" where
  "gib n = (if \<bar>n\<bar> < float_bound * 1024 ^ 3 then Inr (Fin (real_of_int n / 1024 ^ 3)) else Inl OverflowError)"

text \<open>The degree sign is code point 176.\<close>

definition celsius :: string where
  "celsius = [CHR 0xB0, CHR ''C'']"

definition high_alert :: "string \<Rightarrow> string \<Rightarrow> pyfloat \<Rightarrow> pyfloat \<Rightarrow> pyfloat \<Rightarrow> string \<Rightarrow> AlertObservation" where
  "high_alert key label value warn error unit =
     \<lparr>ob_key = key, ob_label = label, ob_value = value, ob_warn = warn, ob_error = Some error,
      ob_direction = ''high'', ob_unit = unit\<rparr>"

text \<open>\<open>min\<close>, mean and \<open>max\<close> of a list that is not empty.\<close>

definition list_min :: "pyfloat list \<Rightarrow> pyfloat" where
  "list_min xs = foldl fmin (hd xs) (tl xs)"

definition list_max :: "pyfloat list \<Rightarrow> pyfloat" where
  "list_max xs = foldl fmax (hd xs) (tl xs)"

definition list_mean :: "pyfloat list \<Rightarrow> pyfloat" where
  "list_mean xs = fdiv (foldl fadd f0 xs) (Fin (real (length xs)))"

subsection \<open>Lists built element by element\<close>

lemma list_all2_in_set2: "list_all2 P xs ys \<Longrightarrow> y \<in> set ys \<Longrightarrow> \<exists>x \<in> set xs. P x y"
  by (induction xs ys rule: list_all2_induct) auto

lemma mapE_in: "mapE f xs = Inr ys \<Longrightarrow> y \<in> set ys \<Longrightarrow> \<exists>x \<in> set xs. f x = Inr y"
  by (auto simp: mapE_Inr_iff dest: list_all2_in_set2)

subsection \<open>Words in a text\<close>

text \<open>
  The word characters of \<^verbatim>\<open>\w\<close> and \<^verbatim>\<open>\b\<close> on a Python string: letters, digits, the numeric signs
  and the underscore, those above code point 127 included. A position is at the start of a
  word when the character before it (None at the start of the text) is not one of them.
\<close>

definition word_char :: "char \<Rightarrow> bool" where
  "word_char c = (let n = code_pt c in is_word c \<or> n \<in> {170, 178, 179, 181, 185, 186, 188, 189, 190} \<or>
     (192 \<le> n \<and> n \<noteq> 215 \<and> n \<noteq> 247))"

definition word_start :: "char option \<Rightarrow> bool" where
  "word_start before = (case before of None \<Rightarrow> True | Some c \<Rightarrow> \<not> word_char c)"

definition word_end :: "string \<Rightarrow> bool" where
  "word_end s = (s = [] \<or> \<not> word_char (hd s))"

text \<open>\<^verbatim>\<open>re.search(r"\bw\b", s)\<close> for a word of word characters.\<close>

fun whole_word :: "string \<Rightarrow> char option \<Rightarrow> string \<Rightarrow> bool" where
  "whole_word w before [] = False"
| "whole_word w before (c # s) =
     (word_start before \<and> starts_with w (c # s) \<and> word_end (drop (length w) (c # s)) \<or> whole_word w (Some c) s)"

subsection \<open>Rates\<close>

text \<open>
  \<^verbatim>\<open>max(0.0, current - previous) / elapsed\<close> of two counters, behind the collectors' guard
  \<^verbatim>\<open>elapsed > 0\<close>: the integer difference becomes a float in the division.
\<close>

definition rate :: "int \<Rightarrow> int \<Rightarrow> pyfloat \<Rightarrow> pyfloat result" where
  "rate current previous elapsed = bindE (float_of_int (max 0 (current - previous))) (\<lambda>d. Inr (fdiv d elapsed))"

text \<open>A rate is a number that is not negative, whatever the counters did.\<close>

lemma rate_nonneg: "rate current previous elapsed = Inr r \<Longrightarrow> fgt elapsed f0 \<Longrightarrow> isfinite r \<and> fle f0 r"
  by (cases elapsed) (auto simp: rate_def bindE_Inr_iff float_of_int_def split: if_splits)

text \<open>The loops that store one rate per counter: a key, the current and the previous reading.\<close>

fun add_rates :: "pyfloat \<Rightarrow> (string \<times> int \<times> int) list \<Rightarrow> (string, pyval) dict \<Rightarrow> (string, pyval) dict result" where
  "add_rates elapsed [] vs = Inr vs"
| "add_rates elapsed ((key, current, previous) # cs) vs =
     bindE (rate current previous elapsed) (\<lambda>r. add_rates elapsed cs (dict_set key (PFloat r) vs))"

lemma add_rates_inv:
  "add_rates elapsed cs vs = Inr vs' \<Longrightarrow> P vs \<Longrightarrow>
   (\<And>k c p r d. (k, c, p) \<in> set cs \<Longrightarrow> rate c p elapsed = Inr r \<Longrightarrow> P d \<Longrightarrow> P (dict_set k (PFloat r) d)) \<Longrightarrow> P vs'"
proof (induction cs arbitrary: vs)
  case (Cons x cs)
  obtain k c p where x: "x = (k, c, p)" using prod_cases3 by blast
  from Cons.prems(1) obtain r where r: "rate c p elapsed = Inr r" and l: "add_rates elapsed cs (dict_set k (PFloat r) vs) = Inr vs'"
    by (auto simp: x bindE_Inr_iff)
  have "P (dict_set k (PFloat r) vs)" by (rule Cons.prems(3) [OF _ r Cons.prems(2)]) (simp add: x)
  then show ?case
  proof (rule Cons.IH [OF l])
    show "P (dict_set k' (PFloat r') d)" if "(k', c', p') \<in> set cs" "rate c' p' elapsed = Inr r'" "P d" for k' c' p' r' d
      by (rule Cons.prems(3) [OF _ that(2,3)]) (simp add: that(1))
  qed
qed simp

text \<open>A dictionary of values whose rates are finite and not negative.\<close>

definition rates_ok :: "(string, pyval) dict \<Rightarrow> bool" where
  "rates_ok vs = (\<forall>k v. (k, v) \<in> set vs \<longrightarrow> ends_with ''per_sec'' k \<longrightarrow> (\<exists>r. v = PFloat r \<and> isfinite r \<and> fle f0 r))"

lemma rates_ok_simps [simp]:
  "rates_ok []"
  "rates_ok ((k, v) # d) \<longleftrightarrow> (ends_with ''per_sec'' k \<longrightarrow> (\<exists>r. v = PFloat r \<and> isfinite r \<and> fle f0 r)) \<and> rates_ok d"
  by (auto simp: rates_ok_def)

lemma in_dict_set: "(k, v) \<in> set (dict_set k' v' d) \<Longrightarrow> (k, v) = (k', v') \<or> (k, v) \<in> set d"
  by (induction d) (auto split: if_splits)

lemma rates_ok_set:
  "rates_ok d \<Longrightarrow> (ends_with ''per_sec'' k \<longrightarrow> (\<exists>r. v = PFloat r \<and> isfinite r \<and> fle f0 r)) \<Longrightarrow> rates_ok (dict_set k v d)"
  unfolding rates_ok_def using in_dict_set by fast

lemma rates_ok_update: "rates_ok d \<Longrightarrow> rates_ok e \<Longrightarrow> rates_ok (dict_update d e)"
proof (induction e arbitrary: d)
  case (Cons kv e)
  obtain k v where kv: "kv = (k, v)" by fastforce
  have "rates_ok (dict_set k v d)" using Cons.prems by (intro rates_ok_set) (auto simp: kv)
  then show ?case using Cons by (simp add: kv)
qed simp

lemma add_rates_ok: "add_rates elapsed cs vs = Inr vs' \<Longrightarrow> fgt elapsed f0 \<Longrightarrow> rates_ok vs \<Longrightarrow> rates_ok vs'"
  by (erule add_rates_inv) (auto intro!: rates_ok_set dest: rate_nonneg)

lemma finite_values_from: "finite_values vs = Inr out \<Longrightarrow> (k, f) \<in> set out \<Longrightarrow> \<exists>v. (k, v) \<in> set vs \<and> py_float v = Inr f"
proof -
  have "finite_loop vs out0 = Inr out \<Longrightarrow> (k, f) \<in> set out \<Longrightarrow> (k, f) \<in> set out0 \<or> (\<exists>v. (k, v) \<in> set vs \<and> py_float v = Inr f)" for out0
  proof (induction vs out0 rule: finite_loop.induct)
    case (2 key b kvs out0)
    then show ?case using in_dict_set [of k f key _ out0] by fastforce
  next
    case (3 key n kvs out0)
    then obtain g where g: "py_float (PNum n) = Inr g"
      and r: "finite_loop kvs (if isfinite g then dict_set key g out0 else out0) = Inr out" by (auto simp: bindE_Inr_iff)
    from 3(1) [OF r 3(3)] g show ?case using in_dict_set [of k f key g out0] by (auto split: if_splits)
  qed auto
  then show "finite_values vs = Inr out \<Longrightarrow> (k, f) \<in> set out \<Longrightarrow> ?thesis" unfolding finite_values_def by fastforce
qed

definition sample_rates_ok :: "MetricSample \<Rightarrow> bool" where
  "sample_rates_ok s = (\<forall>k f. (k, f) \<in> set (ms_values s) \<longrightarrow> ends_with ''per_sec'' k \<longrightarrow> isfinite f \<and> fle f0 f)"

lemma sample_rates_ok_I: "finite_values vs = Inr (ms_values s) \<Longrightarrow> rates_ok vs \<Longrightarrow> sample_rates_ok s"
  by (fastforce simp: sample_rates_ok_def rates_ok_def dest: finite_values_from)

subsection \<open>Exceptions the collectors catch\<close>

text \<open>
  An exception of another class than those the prelude names is \<open>OtherError\<close> with the name of
  its class. \<^verbatim>\<open>except OSError\<close> catches the class and its subclasses.
\<close>

definition is_os_error :: "py_exc \<Rightarrow> bool" where
  "is_os_error e = (case e of
      OSError _ \<Rightarrow> True
    | OtherError c \<Rightarrow> c \<in> set [''BlockingIOError'', ''ChildProcessError'', ''ConnectionError'', ''BrokenPipeError'',
        ''ConnectionAbortedError'', ''ConnectionRefusedError'', ''ConnectionResetError'', ''FileExistsError'',
        ''FileNotFoundError'', ''InterruptedError'', ''IsADirectoryError'', ''NotADirectoryError'',
        ''PermissionError'', ''ProcessLookupError'', ''TimeoutError'']
    | _ \<Rightarrow> False)"

abbreviation FileNotFoundError :: py_exc where "FileNotFoundError \<equiv> OtherError ''FileNotFoundError''"
abbreviation CalledProcessError :: py_exc where "CalledProcessError \<equiv> OtherError ''CalledProcessError''"
abbreviation TimeoutExpired :: py_exc where "TimeoutExpired \<equiv> OtherError ''TimeoutExpired''"

subsection \<open>The shape of a collector's sample\<close>

text \<open>No key is the empty string.\<close>

definition named :: "(string, 'v) dict \<Rightarrow> bool" where
  "named d = ([] \<notin> set (keys d))"

lemma named_simps [simp]:
  "named []" "named ((k, v) # d) \<longleftrightarrow> k \<noteq> [] \<and> named d" "named (d @ e) \<longleftrightarrow> named d \<and> named e"
  by (auto simp: named_def)

lemma named_set: "named (dict_set k v d) \<longleftrightarrow> k \<noteq> [] \<and> named d"
  unfolding named_def set_map by auto

lemma named_update: "named d \<Longrightarrow> named e \<Longrightarrow> named (dict_update d e)"
  unfolding named_def set_map by (simp add: keys_dict_update)

text \<open>Keys of the network collector carry no ERROR threshold, all others do.\<close>

definition error_key :: "string \<Rightarrow> bool" where
  "error_key k = (\<not> starts_with ''network.'' k)"

definition sample_ok :: "MetricSample \<Rightarrow> bool" where
  "sample_ok s = (all_finite (ms_values s) \<and> wf_dict (ms_values s) \<and> named (ms_values s) \<and>
     (\<forall>ob \<in> set (ms_alerts s). obs_ok error_key ob))"

lemma obs_ok_high_alert [simp]: "obs_ok error_key (high_alert key label v w e u) \<longleftrightarrow> error_key key"
  by (simp add: obs_ok_def high_alert_def)

text \<open>No other collector's keys begin with an n.\<close>

lemma error_key_other [simp]: "c \<noteq> CHR ''n'' \<Longrightarrow> error_key (c # s)"
  by (simp add: error_key_def starts_with_def)

lemma starts_with_append: "length p \<le> length s \<Longrightarrow> starts_with p (s @ t) \<longleftrightarrow> starts_with p s"
  by (simp add: starts_with_def)

lemma finite_values_shape [simp]:
  "finite_values vs = Inr out \<Longrightarrow> wf_dict out" "finite_values vs = Inr out \<Longrightarrow> named vs \<Longrightarrow> named out"
  using finite_values_keys [of vs out] finite_values_wf [of vs out] by (auto simp: named_def)

text \<open>
  What the monitor relies on: a collector keeps its name from round to round, and the samples it
  returns have the right shape. \<open>sample\<close> takes what the machine reports in that round, the
  collector and the monotonic clock.
\<close>

locale collector_contract =
  fixes sample :: "'r \<Rightarrow> 'c \<Rightarrow> pyfloat \<Rightarrow> 'c \<times> MetricSample list result"
    and cname :: "'c \<Rightarrow> string"
  assumes name_kept: "cname (fst (sample rd c now)) = cname c"
    and samples_ok: "snd (sample rd c now) = Inr ss \<Longrightarrow> s \<in> set ss \<Longrightarrow> sample_ok s"

subsection \<open>Properties\<close>

text \<open>C40: A cleaned name is a safe path segment whatever the raw name was: not empty, of letters, digits,
  underscore, dot and minus only, with no separator at either end; and cleaning it again
  changes nothing.\<close>

theorem sanitize_name_clean:
  "sanitize_name s \<noteq> [] \<and> list_all name_char (sanitize_name s) \<and>
   hd (sanitize_name s) \<notin> set ''_.-'' \<and> last (sanitize_name s) \<notin> set ''_.-'' \<and>
   sanitize_name (sanitize_name s) = sanitize_name s"
  using clean_sanitize [of s] sanitize_clean [OF clean_sanitize [of s]] by (simp add: clean_name_def)

text \<open>The filter on values keeps exactly the finite ones: on a dictionary, when no integer is too
  large for a float, the result has a key's value as a float when that is a boolean or a
  finite number, and does not have the key otherwise.\<close>

theorem finite_values_exact:
  assumes "finite_values vs = Inr out" and "wf_dict vs"
  shows "all_finite out \<and> dict_get out k =
    (case dict_get vs k of
       Some (PBool b) \<Rightarrow> Some (Fin (if b then 1 else 0))
     | Some (PNum n) \<Rightarrow> (case py_float (PNum n) of Inr f \<Rightarrow> if isfinite f then Some f else None | Inl e \<Rightarrow> None)
     | _ \<Rightarrow> None)"
  using finite_values_finite [OF assms(1)] finite_values_get [OF assms]
  by (auto simp: kept_def split: option.splits pyval.splits)

theorem finite_values_exact_witness:
  "\<exists>out. finite_values [(''a'', PFloat NaN), (''b'', PBool True), (''c'', PNone), (''d'', PFloat (Fin 2))] = Inr out \<and>
     dict_get out ''a'' = None \<and> dict_get out ''b'' = Some (Fin 1) \<and> dict_get out ''d'' = Some (Fin 2)"
proof -
  let ?vs = "[(''a'', PFloat NaN), (''b'', PBool True), (''c'', PNone), (''d'', PFloat (Fin 2))]"
  obtain out where o: "finite_values ?vs = Inr out" by (simp add: finite_values_def)
  have w: "wf_dict ?vs" by (simp add: wf_dict_def)
  show ?thesis using o finite_values_exact [OF o w, of "''a''"] finite_values_exact [OF o w, of "''b''"]
    finite_values_exact [OF o w, of "''d''"] by auto
qed

end
