(* ===== verification/Sensor_Collectors.thy ===== *)
theory Sensor_Collectors
  imports Collector_Base
begin

text \<open>
  The collectors of \<^verbatim>\<open>host_monitor/collectors.py\<close> that turn one reading of the machine into a
  sample: system, CPU, memory, temperature, filesystem and battery. What \<^verbatim>\<open>psutil\<close> (a package)
  returns or raises is the readings record of the collector. The lemmas show the shape of the
  samples, the order of the temperature thresholds, and what the filesystem loop reports.
\<close>

subsection \<open>System\<close>

record system_readings =
  yr_boot :: "pyfloat result"
  yr_now :: pyfloat
  yr_logical :: "int option result"
  yr_physical :: "int option result"
  yr_processes :: "nat result"

definition or_zero :: "int option \<Rightarrow> int" where
  "or_zero n = (case n of None \<Rightarrow> 0 | Some i \<Rightarrow> i)"

definition system_sample :: "system_readings \<Rightarrow> MetricSample list result" where
  "system_sample rd =
     bindE (yr_boot rd) (\<lambda>boot_time.
     let uptime = fmax f0 (fsub (yr_now rd) boot_time) in
     bindE (yr_logical rd) (\<lambda>logical.
     bindE (yr_physical rd) (\<lambda>physical.
     bindE (yr_processes rd) (\<lambda>processes.
     bindE (finite_values
       [(''uptime.seconds'', PFloat uptime), (''boot.timestamp'', PFloat boot_time),
        (''cpu.logical_count'', PInt (or_zero logical)), (''cpu.physical_count'', PInt (or_zero physical)),
        (''process.count'', PInt (int processes))]) (\<lambda>vs.
     bindE (format_duration (NFlt uptime)) (\<lambda>duration.
       Inr [\<lparr>ms_path = ''system'', ms_values = vs, ms_alerts = [],
             ms_summary = ''Uptime '' @ duration @ '', '' @ show_int (int processes) @ '' processes, '' @
               show_int (or_zero logical) @ '' logical CPUs''\<rparr>]))))))"

subsection \<open>CPU\<close>

record cpu_frequency =
  fq_current :: pyfloat
  fq_min :: pyfloat
  fq_max :: pyfloat

text \<open>\<open>ur_stats\<close> maps the attributes the statistics object has to their values.\<close>

record cpu_readings =
  ur_percent :: "pyfloat result"
  ur_per_cpu :: "pyfloat list result"
  ur_load :: "(pyfloat \<times> pyfloat \<times> pyfloat) result"
  ur_frequency :: "cpu_frequency option result"
  ur_stats :: "(string, int) dict result"

record CpuCollector =
  cc_config :: HostMonitorConfig
  cc_previous_stats :: "(string, int) dict option"
  cc_previous_time :: "pyfloat option"

definition CpuCollector_init :: "HostMonitorConfig \<Rightarrow> CpuCollector" where
  "CpuCollector_init config = \<lparr>cc_config = config, cc_previous_stats = None, cc_previous_time = None\<rparr>"

text \<open>The counters of the statistics that both readings have.\<close>

definition cpu_counters :: "(string, int) dict \<Rightarrow> (string, int) dict \<Rightarrow> string list \<Rightarrow> (string \<times> int \<times> int) list" where
  "cpu_counters stats previous ks = List.map_filter
     (\<lambda>key. case (dict_get stats key, dict_get previous key) of
        (Some c, Some p) \<Rightarrow> Some (key @ ''.per_sec'', c, p) | _ \<Rightarrow> None) ks"

definition cpu_values ::
  "CpuCollector \<Rightarrow> pyfloat \<Rightarrow> pyfloat list \<Rightarrow> pyfloat \<times> pyfloat \<times> pyfloat \<Rightarrow> cpu_frequency option \<Rightarrow> (string, pyval) dict" where
  "cpu_values c usage per_cpu load frequency =
     (let v1 = [(''usage.percent'', PFloat usage), (''load.1m'', PFloat (fst load)),
                (''load.5m'', PFloat (fst (snd load))), (''load.15m'', PFloat (snd (snd load)))];
          v2 = (if hc_include_per_cpu (cc_config c)
                then dict_update v1 (map (\<lambda>(i, v). (''core.'' @ show_int (int i) @ ''.percent'', PFloat v)) (enumerate 0 per_cpu))
                else v1)
      in case frequency of
           None \<Rightarrow> v2
         | Some f \<Rightarrow> dict_update v2 [(''frequency.current_mhz'', PFloat (fq_current f)),
             (''frequency.min_mhz'', PFloat (fq_min f)), (''frequency.max_mhz'', PFloat (fq_max f))])"

definition cpu_summary :: "pyfloat \<Rightarrow> pyfloat \<Rightarrow> cpu_frequency option \<Rightarrow> string" where
  "cpu_summary usage load1 frequency =
     ''CPU '' @ fmt_fixed 1 usage @ ''%, load '' @ fmt_fixed 2 load1 @
     (case frequency of
        None \<Rightarrow> []
      | Some f \<Rightarrow> if isfinite (fq_current f) then '', '' @ fmt_fixed 2 (fdiv (fq_current f) (Fin 1000)) @ '' GHz'' else [])"

text \<open>The values with the rates since the previous sample, when there is one and time has passed.\<close>

definition cpu_with_rates ::
  "CpuCollector \<Rightarrow> pyfloat \<Rightarrow> (string, int) dict \<Rightarrow> (string, pyval) dict \<Rightarrow> (string, pyval) dict result" where
  "cpu_with_rates c now stats vs =
     (case (cc_previous_stats c, cc_previous_time c) of
        (Some previous, Some previous_time) \<Rightarrow>
          (let elapsed = fsub now previous_time in
           if fgt elapsed f0
           then add_rates elapsed (cpu_counters stats previous [''ctx_switches'', ''interrupts'', ''soft_interrupts'']) vs
           else Inr vs)
      | _ \<Rightarrow> Inr vs)"

definition cpu_read ::
  "cpu_readings \<Rightarrow> (pyfloat \<times> pyfloat list \<times> (pyfloat \<times> pyfloat \<times> pyfloat) \<times> cpu_frequency option \<times> (string, int) dict) result" where
  "cpu_read rd =
     bindE (ur_percent rd) (\<lambda>usage. bindE (ur_per_cpu rd) (\<lambda>per_cpu. bindE (ur_load rd) (\<lambda>load.
     bindE (ur_frequency rd) (\<lambda>frequency. bindE (ur_stats rd) (\<lambda>stats. Inr (usage, per_cpu, load, frequency, stats))))))"

definition cpu_sample :: "cpu_readings \<Rightarrow> CpuCollector \<Rightarrow> pyfloat \<Rightarrow> CpuCollector \<times> MetricSample list result" where
  "cpu_sample rd c now =
     (case cpu_read rd of
        Inl e \<Rightarrow> (c, Inl e)
      | Inr (usage, per_cpu, load, frequency, stats) \<Rightarrow>
          (case cpu_with_rates c now stats (cpu_values c usage per_cpu load frequency) of
             Inl e \<Rightarrow> (c, Inl e)
           | Inr vs \<Rightarrow>
               (let th = hc_thresholds (cc_config c);
                    alert = high_alert ''cpu.usage'' ''CPU usage'' usage (th_cpu_warn th) (th_cpu_error th) ''%''
                in (c\<lparr>cc_previous_stats := Some stats, cc_previous_time := Some now\<rparr>,
                    bindE (finite_values vs) (\<lambda>fv.
                      Inr [\<lparr>ms_path = ''cpu'', ms_values = fv, ms_alerts = [alert],
                            ms_summary = cpu_summary usage (fst load) frequency\<rparr>])))))"

subsection \<open>Memory\<close>

record memory_reading =
  mr_total :: int
  mr_used :: int
  mr_percent :: pyfloat

record memory_readings =
  xr_ram :: "memory_reading result"
  xr_swap :: "memory_reading result"

definition memory_sample :: "HostMonitorConfig \<Rightarrow> memory_readings \<Rightarrow> MetricSample list result" where
  "memory_sample config rd =
     bindE (xr_ram rd) (\<lambda>ram. bindE (xr_swap rd) (\<lambda>swap.
     bindE (gib (mr_total ram)) (\<lambda>ram_total. bindE (gib (mr_used ram)) (\<lambda>ram_used.
     bindE (gib (mr_total swap)) (\<lambda>swap_total. bindE (gib (mr_used swap)) (\<lambda>swap_used.
     bindE (finite_values
       [(''ram.total_gb'', PFloat ram_total), (''ram.used_gb'', PFloat ram_used), (''ram.percent'', PFloat (mr_percent ram)),
        (''swap.total_gb'', PFloat swap_total), (''swap.used_gb'', PFloat swap_used),
        (''swap.percent'', PFloat (mr_percent swap))]) (\<lambda>vs.
     let th = hc_thresholds config;
         alerts = high_alert ''memory.ram'' ''RAM usage'' (mr_percent ram) (th_ram_warn th) (th_ram_error th) ''%'' #
           (if mr_total swap > 0
            then [high_alert ''memory.swap'' ''Swap usage'' (mr_percent swap) (th_swap_warn th) (th_swap_error th) ''%'']
            else []);
         summary = ''RAM '' @ fmt_fixed 1 (mr_percent ram) @ ''% ('' @ fmt_fixed 1 ram_used @ ''/'' @ fmt_fixed 1 ram_total @
           '' GiB)'' @ (if mr_total swap > 0 then '', swap '' @ fmt_fixed 1 (mr_percent swap) @ ''%'' else '', swap disabled'')
     in Inr [\<lparr>ms_path = ''memory'', ms_values = vs, ms_alerts = alerts, ms_summary = summary\<rparr>])))))))"

subsection \<open>Temperature\<close>

record sensor_entry =
  se_label :: string
  se_current :: pyfloat
  se_high :: "pyfloat option"
  se_critical :: "pyfloat option"

definition cpu_chip_names :: "string list" where
  "cpu_chip_names = [''coretemp'', ''k10temp'', ''zenpower'', ''cpu_thermal'', ''cpu-thermal'', ''x86_pkg_temp'']"

definition is_cpu_sensor :: "string \<Rightarrow> string \<Rightarrow> bool" where
  "is_cpu_sensor chip label =
     ((\<exists>name \<in> set cpu_chip_names. starts_with name (lower chip)) \<or> whole_word ''cpu'' None (lower label))"

text \<open>\<open>x if x is not None and x > limit\<close> of an optional threshold.\<close>

definition above :: "pyfloat option \<Rightarrow> pyfloat \<Rightarrow> bool" where
  "above x limit = (case x of None \<Rightarrow> False | Some v \<Rightarrow> fgt v limit)"

definition temp_warn :: "ThresholdConfig \<Rightarrow> sensor_entry \<Rightarrow> pyfloat" where
  "temp_warn th e =
     (if above (se_high e) f0 then the (se_high e)
      else if above (se_critical e) f0 then fsub (the (se_critical e)) (Fin 10)
      else th_temp_warn th)"

definition temp_error :: "ThresholdConfig \<Rightarrow> sensor_entry \<Rightarrow> pyfloat \<Rightarrow> pyfloat" where
  "temp_error th e warn =
     (if above (se_critical e) warn then the (se_critical e)
      else fmax (th_temp_error th) (fadd warn (Fin 5)))"

definition temp_alert :: "ThresholdConfig \<Rightarrow> string \<Rightarrow> nat \<Rightarrow> sensor_entry \<Rightarrow> AlertObservation" where
  "temp_alert th chip index e =
     (let name = (if se_label e \<noteq> [] then se_label e else show_int (int index)); warn = temp_warn th e
      in high_alert (''temperature.'' @ sanitize_name chip @ ''.'' @ sanitize_name name) (chip @ ''/'' @ name)
           (se_current e) warn (temp_error th e warn) celsius)"

definition temp_values :: "string \<Rightarrow> nat \<Rightarrow> sensor_entry \<Rightarrow> (string, pyval) dict" where
  "temp_values chip index e =
     (let base = ''sensor.'' @ sanitize_name chip @ ''.'' @ sanitize_name (if se_label e \<noteq> [] then se_label e else show_int (int index))
      in [(base @ ''.current_c'', PFloat (se_current e))] @
         (case se_high e of None \<Rightarrow> [] | Some h \<Rightarrow> [(base @ ''.high_c'', PFloat h)]) @
         (case se_critical e of None \<Rightarrow> [] | Some c \<Rightarrow> [(base @ ''.critical_c'', PFloat c)]))"

text \<open>
  What the loop has gathered: the values, the alerts, and the temperatures of CPU sensors and
  of all sensors reported.
\<close>

record temp_state =
  ts_values :: "(string, pyval) dict"
  ts_alerts :: "AlertObservation list"
  ts_cpu :: "pyfloat list"
  ts_reported :: "pyfloat list"

definition temp_step :: "HostMonitorConfig \<Rightarrow> string \<Rightarrow> nat \<Rightarrow> sensor_entry \<Rightarrow> temp_state \<Rightarrow> temp_state" where
  "temp_step config chip index e st =
     (if hc_cpu_temps_only config \<and> \<not> is_cpu_sensor chip (se_label e) then st
      else
        (let finite = isfinite (se_current e);
             st1 = (if finite then st\<lparr>ts_reported := ts_reported st @ [se_current e]\<rparr> else st);
             st2 = (if hc_cpu_temps_only config
                    then (if finite then st1\<lparr>ts_cpu := ts_cpu st1 @ [se_current e]\<rparr> else st1)
                    else st1\<lparr>ts_values := dict_update (ts_values st1) (temp_values chip index e)\<rparr>)
         in st2\<lparr>ts_alerts := ts_alerts st2 @ [temp_alert (hc_thresholds config) chip index e]\<rparr>))"

fun temp_entries :: "HostMonitorConfig \<Rightarrow> string \<Rightarrow> nat \<Rightarrow> sensor_entry list \<Rightarrow> temp_state \<Rightarrow> temp_state" where
  "temp_entries config chip index [] st = st"
| "temp_entries config chip index (e # es) st = temp_entries config chip (index + 1) es (temp_step config chip index e st)"

fun temp_chips :: "HostMonitorConfig \<Rightarrow> (string \<times> sensor_entry list) list \<Rightarrow> temp_state \<Rightarrow> temp_state" where
  "temp_chips config [] st = st"
| "temp_chips config ((chip, entries) # chips) st = temp_chips config chips (temp_entries config chip 0 entries st)"

definition min_avg_max :: "pyfloat list \<Rightarrow> string" where
  "min_avg_max ts = fmt_fixed 1 (list_min ts) @ ''/'' @ fmt_fixed 1 (list_mean ts) @ ''/'' @ fmt_fixed 1 (list_max ts) @ '' '' @ celsius"

definition temp_final :: "HostMonitorConfig \<Rightarrow> pyfloat list \<Rightarrow> temp_state \<Rightarrow> (string, pyval) dict \<times> string" where
  "temp_final config ts st =
     (if hc_cpu_temps_only config
      then (dict_update (ts_values st) [(''cpu_temperature.min_c'', PFloat (list_min ts)),
              (''cpu_temperature.avg_c'', PFloat (list_mean ts)), (''cpu_temperature.max_c'', PFloat (list_max ts))],
            ''CPU temp min/avg/max '' @ min_avg_max ts)
      else (ts_values st, show_int (int (length ts)) @ '' temperatures, min/avg/max '' @ min_avg_max ts))"

definition temperature_sample :: "HostMonitorConfig \<Rightarrow> (string \<times> sensor_entry list) list result \<Rightarrow> MetricSample list result" where
  "temperature_sample config sensors =
     bindE sensors (\<lambda>chips.
     if chips = [] then Inr []
     else
       (let st = temp_chips config chips \<lparr>ts_values = [], ts_alerts = [], ts_cpu = [], ts_reported = []\<rparr>;
            ts = (if hc_cpu_temps_only config then ts_cpu st else ts_reported st)
        in if ts = [] then Inr []
           else bindE (finite_values (fst (temp_final config ts st))) (\<lambda>vs.
             Inr [\<lparr>ms_path = ''temperature'', ms_values = vs, ms_alerts = ts_alerts st,
                   ms_summary = snd (temp_final config ts st)\<rparr>])))"

subsection \<open>Filesystem\<close>

record disk_usage =
  us_total :: int
  us_used :: int
  us_percent :: pyfloat

text \<open>Partitions are pairs of a mount point and a filesystem type.\<close>

record fs_readings =
  fr_partitions :: "(string \<times> string) list result"
  fr_usage :: "string \<Rightarrow> disk_usage result"

record fs_state =
  fs_seen :: "string list"
  fs_values :: "(string, pyval) dict"
  fs_alerts :: "AlertObservation list"
  fs_highest :: "string \<times> pyfloat"

definition mount_name :: "string \<Rightarrow> string" where
  "mount_name mountpoint = (if mountpoint = ''/'' then ''root'' else sanitize_name mountpoint)"

definition fs_alert :: "ThresholdConfig \<Rightarrow> string \<Rightarrow> disk_usage \<Rightarrow> AlertObservation" where
  "fs_alert th m us = high_alert (''filesystem.'' @ mount_name m) (''Filesystem '' @ m) (us_percent us)
     (th_fs_warn th) (th_fs_error th) ''%''"

definition fs_entry :: "string \<Rightarrow> pyfloat \<Rightarrow> pyfloat \<Rightarrow> pyfloat \<Rightarrow> (string, pyval) dict" where
  "fs_entry m total_gb used_gb percent =
     (let base = ''mount.'' @ mount_name m in
      [(base @ ''.total_gb'', PFloat total_gb), (base @ ''.used_gb'', PFloat used_gb), (base @ ''.percent'', PFloat percent)])"

definition fs_higher :: "string \<Rightarrow> pyfloat \<Rightarrow> string \<times> pyfloat \<Rightarrow> string \<times> pyfloat" where
  "fs_higher m percent highest = (if fgt percent (snd highest) then (m, percent) else highest)"

definition fs_report :: "ThresholdConfig \<Rightarrow> string \<Rightarrow> disk_usage \<Rightarrow> fs_state \<Rightarrow> fs_state result" where
  "fs_report th m us st =
     bindE (gib (us_total us)) (\<lambda>total_gb. bindE (gib (us_used us)) (\<lambda>used_gb.
       Inr (st\<lparr>fs_values := dict_update (fs_values st) (fs_entry m total_gb used_gb (us_percent us)),
               fs_highest := fs_higher m (us_percent us) (fs_highest st),
               fs_alerts := fs_alerts st @ [fs_alert th m us]\<rparr>)))"

text \<open>One turn: known mount points and excluded types are skipped, unreadable ones too.\<close>

definition fs_step :: "HostMonitorConfig \<Rightarrow> (string \<Rightarrow> disk_usage result) \<Rightarrow> string \<times> string \<Rightarrow> fs_state \<Rightarrow> fs_state result" where
  "fs_step config usage_of part st =
     (let (mountpoint, fstype) = part in
      if mountpoint \<in> set (fs_seen st) \<or> fstype \<in> set (hc_excluded_fstypes config) then Inr st
      else
        (let st1 = st\<lparr>fs_seen := mountpoint # fs_seen st\<rparr>
         in case usage_of mountpoint of
              Inl e \<Rightarrow> if is_os_error e then Inr st1 else Inl e
            | Inr us \<Rightarrow> fs_report (hc_thresholds config) mountpoint us st1))"

fun fs_loop :: "HostMonitorConfig \<Rightarrow> (string \<Rightarrow> disk_usage result) \<Rightarrow> (string \<times> string) list \<Rightarrow> fs_state \<Rightarrow> fs_state result" where
  "fs_loop config usage_of [] st = Inr st"
| "fs_loop config usage_of (part # parts) st = bindE (fs_step config usage_of part st) (fs_loop config usage_of parts)"

definition filesystem_sample :: "HostMonitorConfig \<Rightarrow> fs_readings \<Rightarrow> MetricSample list result" where
  "filesystem_sample config rd =
     bindE (fr_partitions rd) (\<lambda>parts.
     bindE (fs_loop config (fr_usage rd) parts \<lparr>fs_seen = [], fs_values = [], fs_alerts = [], fs_highest = ([], Fin (-1))\<rparr>) (\<lambda>st.
     if fs_values st = [] then Inr []
     else bindE (finite_values (fs_values st)) (\<lambda>vs.
       Inr [\<lparr>ms_path = ''filesystem'', ms_values = vs, ms_alerts = fs_alerts st,
             ms_summary = show_int (int (length (fs_alerts st))) @ '' filesystems, highest '' @ fst (fs_highest st) @ '' at '' @
               fmt_fixed 1 (snd (fs_highest st)) @ ''%''\<rparr>])))"

subsection \<open>Battery\<close>

record battery_reading =
  br_percent :: pynum
  br_secsleft :: "int option"
  br_plugged :: "bool option"

definition battery_values :: "battery_reading \<Rightarrow> (string, pyval) dict" where
  "battery_values b =
     [(''charge.percent'', PNum (br_percent b)),
      (''seconds_left'', case br_secsleft b of None \<Rightarrow> PNone | Some i \<Rightarrow> PInt i),
      (''power_plugged'', case br_plugged b of None \<Rightarrow> PNone | Some p \<Rightarrow> PBool p)]"

definition battery_alerts :: "ThresholdConfig \<Rightarrow> bool \<Rightarrow> pyfloat \<Rightarrow> AlertObservation list" where
  "battery_alerts th plugged percent =
     (if plugged then []
      else [\<lparr>ob_key = ''battery.charge'', ob_label = ''Battery charge'', ob_value = percent, ob_warn = th_battery_warn th,
             ob_error = Some (th_battery_error th), ob_direction = ''low'', ob_unit = ''%''\<rparr>])"

definition battery_suffix :: "bool \<Rightarrow> int option \<Rightarrow> string result" where
  "battery_suffix plugged secsleft =
     (if plugged then Inr '', plugged in''
      else (case secsleft of
              None \<Rightarrow> Inr '', discharging''
            | Some secs \<Rightarrow>
                if secs > 0 then bindE (format_duration (NInt secs)) (\<lambda>d. Inr ('', discharging, '' @ d @ '' remaining''))
                else Inr '', discharging''))"

definition battery_sample :: "HostMonitorConfig \<Rightarrow> battery_reading option result \<Rightarrow> MetricSample list result" where
  "battery_sample config rd =
     bindE rd (\<lambda>r. case r of
       None \<Rightarrow> Inr []
     | Some b \<Rightarrow>
         (let plugged = (br_plugged b = Some True) in
          bindE (finite_values (battery_values b)) (\<lambda>vs.
          bindE (py_float (PNum (br_percent b))) (\<lambda>percent.
          bindE (battery_suffix plugged (br_secsleft b)) (\<lambda>suffix.
            Inr [\<lparr>ms_path = ''battery'', ms_values = vs,
                  ms_alerts = battery_alerts (hc_thresholds config) plugged percent,
                  ms_summary = ''Battery '' @ fmt_fixed 1 percent @ ''%'' @ suffix\<rparr>])))))"

subsection \<open>Every sample has the right shape\<close>

lemma system_sample_ok: "system_sample rd = Inr ss \<Longrightarrow> s \<in> set ss \<Longrightarrow> sample_ok s"
  by (auto simp: system_sample_def bindE_Inr_iff Let_def simp: sample_ok_def)

lemma cpu_counters_named: "(k, c, p) \<in> set (cpu_counters stats previous ks) \<Longrightarrow> k \<noteq> []"
  by (auto simp: cpu_counters_def List.map_filter_def split: option.splits)

lemma core_values_named: "named (map (\<lambda>(i, v). (''core.'' @ show_int (int i) @ ''.percent'', PFloat v)) cores)"
  by (auto simp: named_def)

lemma cpu_values_named [simp]: "named (cpu_values c usage per_cpu load frequency)"
  unfolding cpu_values_def Let_def
  by (cases frequency; cases "hc_include_per_cpu (cc_config c)") (simp_all add: named_set named_update core_values_named del: append.simps)

lemma cpu_with_rates_cases:
  assumes "cpu_with_rates c now stats vs = Inr vs'"
  obtains "vs' = vs" | elapsed previous ks where "fgt elapsed f0" and "add_rates elapsed (cpu_counters stats previous ks) vs = Inr vs'"
  using assms by (auto simp: cpu_with_rates_def Let_def split: option.splits if_splits)

lemma cpu_with_rates_named: "cpu_with_rates c now stats vs = Inr vs' \<Longrightarrow> named vs \<Longrightarrow> named vs'"
  by (erule cpu_with_rates_cases) (auto elim!: add_rates_inv simp: named_set dest: cpu_counters_named)

lemma cpu_with_rates_ok: "cpu_with_rates c now stats vs = Inr vs' \<Longrightarrow> rates_ok vs \<Longrightarrow> rates_ok vs'"
  by (erule cpu_with_rates_cases) (auto dest: add_rates_ok)

text \<open>A CPU sample is made from readings that all succeeded.\<close>

lemma cpu_sample_cases:
  assumes "snd (cpu_sample rd c now) = Inr ss"
  obtains usage per_cpu load frequency stats vs fv where
    "cpu_read rd = Inr (usage, per_cpu, load, frequency, stats)"
    and "cpu_with_rates c now stats (cpu_values c usage per_cpu load frequency) = Inr vs" and "finite_values vs = Inr fv"
    and "ss = [\<lparr>ms_path = ''cpu'', ms_values = fv,
      ms_alerts = [high_alert ''cpu.usage'' ''CPU usage'' usage (th_cpu_warn (hc_thresholds (cc_config c)))
        (th_cpu_error (hc_thresholds (cc_config c))) ''%''], ms_summary = cpu_summary usage (fst load) frequency\<rparr>]"
    and "fst (cpu_sample rd c now) = c\<lparr>cc_previous_stats := Some stats, cc_previous_time := Some now\<rparr>"
  using assms by (fastforce simp: cpu_sample_def bindE_Inr_iff Let_def split: sum.splits)

lemma cpu_sample_ok: "snd (cpu_sample rd c now) = Inr ss \<Longrightarrow> s \<in> set ss \<Longrightarrow> sample_ok s"
  by (erule cpu_sample_cases) (auto simp: sample_ok_def dest: cpu_with_rates_named)

lemma core_values_rates: "rates_ok (map (\<lambda>(i, v). (''core.'' @ show_int (int i) @ ''.percent'', PFloat v)) cores)"
  by (auto simp: rates_ok_def ends_with_def starts_with_def)

lemma cpu_values_rates: "rates_ok (cpu_values c usage per_cpu load frequency)"
  unfolding cpu_values_def Let_def
  by (cases frequency; cases "hc_include_per_cpu (cc_config c)")
    (simp_all add: rates_ok_set rates_ok_update core_values_rates ends_with_def starts_with_def del: append.simps)

lemma cpu_sample_rates: "snd (cpu_sample rd c now) = Inr ss \<Longrightarrow> s \<in> set ss \<Longrightarrow> sample_rates_ok s"
  by (erule cpu_sample_cases) (auto intro!: sample_rates_ok_I dest: cpu_with_rates_ok [OF _ cpu_values_rates])

lemma memory_sample_ok: "memory_sample config rd = Inr ss \<Longrightarrow> s \<in> set ss \<Longrightarrow> sample_ok s"
  by (auto simp: memory_sample_def bindE_Inr_iff Let_def simp: sample_ok_def)

lemma battery_values_named [simp]: "named (battery_values b)"
  by (simp add: battery_values_def)

lemma battery_sample_ok: "battery_sample config rd = Inr ss \<Longrightarrow> s \<in> set ss \<Longrightarrow> sample_ok s"
  by (cases "projr rd")
    (auto simp: battery_sample_def battery_alerts_def sample_ok_def bindE_Inr_iff Let_def obs_ok_def split: if_splits)

text \<open>The alerts of the temperature loop, in the order of the sensors.\<close>

definition temp_watched :: "HostMonitorConfig \<Rightarrow> string \<Rightarrow> nat \<Rightarrow> sensor_entry list \<Rightarrow> AlertObservation list" where
  "temp_watched config chip index es =
     map (\<lambda>(i, e). temp_alert (hc_thresholds config) chip i e)
       (filter (\<lambda>(i, e). hc_cpu_temps_only config \<longrightarrow> is_cpu_sensor chip (se_label e)) (enumerate index es))"

lemma temp_step_alerts:
  "ts_alerts (temp_step config chip index e st) = ts_alerts st @ temp_watched config chip index [e]"
  by (auto simp: temp_step_def temp_watched_def Let_def)

lemma temp_entries_alerts:
  "ts_alerts (temp_entries config chip index es st) = ts_alerts st @ temp_watched config chip index es"
proof (induction es arbitrary: index st)
  case (Cons e es)
  then show ?case by (simp add: temp_step_alerts) (simp add: temp_watched_def)
qed (simp add: temp_watched_def)

lemma temp_chips_alerts:
  "ts_alerts (temp_chips config chips st) = ts_alerts st @ concat (map (\<lambda>(chip, es). temp_watched config chip 0 es) chips)"
  by (induction config chips st rule: temp_chips.induct) (simp_all add: temp_entries_alerts)

lemma temp_values_named: "named (temp_values chip index e)"
  by (auto simp: temp_values_def Let_def split: option.splits)

lemma temp_step_named: "named (ts_values st) \<Longrightarrow> named (ts_values (temp_step config chip index e st))"
  by (auto simp: temp_step_def temp_values_named Let_def intro!: named_update)

lemma temp_entries_named: "named (ts_values st) \<Longrightarrow> named (ts_values (temp_entries config chip index es st))"
  by (induction es arbitrary: index st) (simp_all add: temp_step_named)

lemma temp_chips_named: "named (ts_values st) \<Longrightarrow> named (ts_values (temp_chips config chips st))"
  by (induction config chips st rule: temp_chips.induct) (simp_all add: temp_entries_named)

abbreviation temp_start :: temp_state where
  "temp_start \<equiv> \<lparr>ts_values = [], ts_alerts = [], ts_cpu = [], ts_reported = []\<rparr>"

lemma temp_final_named: "named (ts_values st) \<Longrightarrow> named (fst (temp_final config ts st))"
  by (simp add: temp_final_def named_set)

lemma temperature_sample_cases:
  assumes "temperature_sample config sensors = Inr ss" and "s \<in> set ss"
  obtains chips vs where "sensors = Inr chips" and "named vs" and "finite_values vs = Inr (ms_values s)"
    and "ms_alerts s = concat (map (\<lambda>(chip, es). temp_watched config chip 0 es) chips)" and "ms_path s = ''temperature''"
proof -
  from assms obtain chips vs fv st ts where c: "sensors = Inr chips" and st: "st = temp_chips config chips temp_start"
    and vs: "vs = fst (temp_final config ts st)" and fv: "finite_values vs = Inr fv"
    and s: "ms_path s = ''temperature''" "ms_values s = fv" "ms_alerts s = ts_alerts st"
    by (auto simp: temperature_sample_def bindE_Inr_iff Let_def split: if_splits)
  have "named vs" using temp_chips_named [of temp_start config chips] by (simp add: vs st temp_final_named)
  with c fv s show ?thesis using temp_chips_alerts [of config chips temp_start] by (intro that) (simp_all add: st)
qed

lemma temperature_sample_ok: "temperature_sample config sensors = Inr ss \<Longrightarrow> s \<in> set ss \<Longrightarrow> sample_ok s"
  by (erule temperature_sample_cases)
    (auto simp: sample_ok_def temp_watched_def temp_alert_def Let_def)

text \<open>
  The filesystem loop. The mount points it reports, in order: the first occurrence of each
  among the partitions of a type that is not excluded, when its usage can be read.
\<close>

fun firsts :: "'a list \<Rightarrow> 'a list \<Rightarrow> 'a list" where
  "firsts seen [] = []"
| "firsts seen (x # xs) = (if x \<in> set seen then firsts seen xs else x # firsts (x # seen) xs)"

lemma firsts_distinct: "distinct (firsts seen xs) \<and> set (firsts seen xs) = set xs - set seen"
proof (induction seen xs rule: firsts.induct)
  case (2 seen x xs)
  then show ?case by (cases "x \<in> set seen") auto
qed simp

definition readable :: "(string \<Rightarrow> disk_usage result) \<Rightarrow> string \<Rightarrow> bool" where
  "readable usage_of m = (case usage_of m of Inl e \<Rightarrow> False | Inr us \<Rightarrow> True)"

definition reported_from ::
  "HostMonitorConfig \<Rightarrow> (string \<Rightarrow> disk_usage result) \<Rightarrow> string list \<Rightarrow> (string \<times> string) list \<Rightarrow> string list" where
  "reported_from config usage_of seen parts = filter (readable usage_of)
     (firsts seen (map fst (filter (\<lambda>p. snd p \<notin> set (hc_excluded_fstypes config)) parts)))"

abbreviation reported_mounts :: "HostMonitorConfig \<Rightarrow> (string \<Rightarrow> disk_usage result) \<Rightarrow> (string \<times> string) list \<Rightarrow> string list" where
  "reported_mounts config usage_of parts \<equiv> reported_from config usage_of [] parts"

definition percent_of :: "(string \<Rightarrow> disk_usage result) \<Rightarrow> string \<Rightarrow> pyfloat" where
  "percent_of usage_of m = us_percent (projr (usage_of m))"

definition fs_top :: "(string \<Rightarrow> disk_usage result) \<Rightarrow> string list \<Rightarrow> string \<times> pyfloat \<Rightarrow> string \<times> pyfloat" where
  "fs_top usage_of ms h = foldl (\<lambda>h m. fs_higher m (percent_of usage_of m) h) h ms"

text \<open>What the loop makes of its state.\<close>

definition fs_result ::
  "HostMonitorConfig \<Rightarrow> (string \<Rightarrow> disk_usage result) \<Rightarrow> string list \<Rightarrow> fs_state \<Rightarrow> fs_state \<Rightarrow> bool" where
  "fs_result config usage_of ms st st' =
     (fs_alerts st' = fs_alerts st @ map (\<lambda>m. fs_alert (hc_thresholds config) m (projr (usage_of m))) ms \<and>
      fs_highest st' = fs_top usage_of ms (fs_highest st) \<and> (named (fs_values st) \<longrightarrow> named (fs_values st')) \<and>
      (fs_values st' = [] \<longleftrightarrow> fs_values st = [] \<and> ms = []))"

lemma dict_update_Nil_iff [simp]: "dict_update d e = [] \<longleftrightarrow> d = [] \<and> e = []"
proof -
  have "fst ` set (dict_update d e) = {} \<longleftrightarrow> d = [] \<and> e = []" by (simp add: keys_dict_update)
  then show ?thesis by simp
qed

lemma fs_step_result:
  assumes "fs_step config usage_of (m, t) st = Inr st'"
  shows "if m \<in> set (fs_seen st) \<or> t \<in> set (hc_excluded_fstypes config) then st' = st
         else fs_seen st' = m # fs_seen st \<and> fs_result config usage_of (if readable usage_of m then [m] else []) st st'"
proof (cases "usage_of m")
  case (Inl e)
  with assms show ?thesis by (auto simp: fs_step_def fs_result_def fs_top_def readable_def split: if_splits)
next
  case (Inr us)
  have "named (fs_entry m a b c)" "fs_entry m a b c \<noteq> []" for a b c by (simp_all add: fs_entry_def Let_def)
  with assms Inr show ?thesis
    by (auto simp: fs_step_def fs_report_def fs_result_def fs_top_def readable_def percent_of_def bindE_Inr_iff
        intro!: named_update split: if_splits)
qed

lemma fs_loop_result:
  "fs_loop config usage_of parts st = Inr st' \<Longrightarrow>
   fs_result config usage_of (reported_from config usage_of (fs_seen st) parts) st st'"
proof (induction parts arbitrary: st)
  case Nil
  then show ?case by (simp add: fs_result_def reported_from_def fs_top_def)
next
  case (Cons p parts)
  obtain m t where p: "p = (m, t)" by fastforce
  from Cons.prems obtain st1 where s1: "fs_step config usage_of (m, t) st = Inr st1"
    and l: "fs_loop config usage_of parts st1 = Inr st'" by (auto simp: p bindE_Inr_iff)
  show ?case using fs_step_result [OF s1] Cons.IH [OF l]
    by (auto simp: p fs_result_def reported_from_def fs_top_def split: if_splits)
qed

lemma filesystem_sample_cases:
  assumes "filesystem_sample config rd = Inr ss"
  obtains parts st where "fr_partitions rd = Inr parts" and "named (fs_values st)"
    and "fs_result config (fr_usage rd) (reported_mounts config (fr_usage rd) parts)
      \<lparr>fs_seen = [], fs_values = [], fs_alerts = [], fs_highest = ([], Fin (-1))\<rparr> st"
    and "if fs_values st = [] then ss = []
         else \<exists>vs. finite_values (fs_values st) = Inr vs \<and>
           ss = [\<lparr>ms_path = ''filesystem'', ms_values = vs, ms_alerts = fs_alerts st,
             ms_summary = show_int (int (length (fs_alerts st))) @ '' filesystems, highest '' @ fst (fs_highest st) @ '' at '' @
               fmt_fixed 1 (snd (fs_highest st)) @ ''%''\<rparr>]"
proof -
  let ?st0 = "\<lparr>fs_seen = [], fs_values = [], fs_alerts = [], fs_highest = ([], Fin (-1))\<rparr>"
  from assms obtain parts st where p: "fr_partitions rd = Inr parts" and l: "fs_loop config (fr_usage rd) parts ?st0 = Inr st"
    and r: "(if fs_values st = [] then Inr []
      else bindE (finite_values (fs_values st)) (\<lambda>vs.
       Inr [\<lparr>ms_path = ''filesystem'', ms_values = vs, ms_alerts = fs_alerts st,
             ms_summary = show_int (int (length (fs_alerts st))) @ '' filesystems, highest '' @ fst (fs_highest st) @ '' at '' @
               fmt_fixed 1 (snd (fs_highest st)) @ ''%''\<rparr>])) = Inr ss"
    unfolding filesystem_sample_def bindE_Inr_iff by blast
  from fs_loop_result [OF l] have res: "fs_result config (fr_usage rd) (reported_mounts config (fr_usage rd) parts) ?st0 st"
    by simp
  then have "named (fs_values st)" by (simp add: fs_result_def)
  from that [OF p this res] r show ?thesis by (fastforce simp: bindE_Inr_iff split: if_splits)
qed

lemma filesystem_sample_ok: "filesystem_sample config rd = Inr ss \<Longrightarrow> s \<in> set ss \<Longrightarrow> sample_ok s"
  by (erule filesystem_sample_cases) (auto simp: sample_ok_def fs_result_def fs_alert_def split: if_splits)

subsection \<open>The thresholds of a sensor, the fullest filesystem\<close>

definition no_infinite_limit :: "sensor_entry \<Rightarrow> bool" where
  "no_infinite_limit e = (se_high e \<noteq> Some PInf \<and> se_critical e \<noteq> Some PInf)"

lemma temp_warn_finite: "isfinite (th_temp_warn th) \<Longrightarrow> no_infinite_limit e \<Longrightarrow> isfinite (temp_warn th e)"
proof -
  assume th: "isfinite (th_temp_warn th)" and e: "no_infinite_limit e"
  have a: "isfinite v" if "above (Some v) f0" "v \<noteq> PInf" for v using that by (cases v) (auto simp: above_def)
  have b: "isfinite (fsub v (Fin 10))" if "isfinite v" for v using that by (cases v) (auto simp: fsub_def)
  show ?thesis using th e a b
    by (cases "se_high e"; cases "se_critical e") (auto simp: temp_warn_def no_infinite_limit_def above_def)
qed

lemma temp_error_above: "isfinite w \<Longrightarrow> th_temp_error th \<noteq> NaN \<Longrightarrow> flt w (temp_error th e w)"
  by (cases w; cases "th_temp_error th"; cases "se_critical e") (auto simp: temp_error_def above_def fmax_def)

lemma fs_top_max:
  "(\<And>m. m \<in> set ms \<Longrightarrow> percent_of u m \<noteq> NaN) \<Longrightarrow> snd h \<noteq> NaN \<Longrightarrow>
   (fs_top u ms h = h \<or> (\<exists>m \<in> set ms. fs_top u ms h = (m, percent_of u m))) \<and>
   fle (snd h) (snd (fs_top u ms h)) \<and> (\<forall>m \<in> set ms. fle (percent_of u m) (snd (fs_top u ms h)))"
proof (induction ms arbitrary: h)
  case Nil
  then show ?case by (simp add: fs_top_def fle_refl)
next
  case (Cons m ms)
  let ?h = "fs_higher m (percent_of u m) h"
  have h: "snd ?h \<noteq> NaN" "?h = h \<or> ?h = (m, percent_of u m)" using Cons.prems by (auto simp: fs_higher_def)
  have ge: "fle (snd h) (snd ?h)" "fle (percent_of u m) (snd ?h)" using Cons.prems not_fle_iff [of "percent_of u m" "snd h"]
    by (auto simp: fs_higher_def fle_refl flt_imp_fle)
  have top: "fs_top u (m # ms) h = fs_top u ms ?h" by (simp add: fs_top_def)
  have IH: "(fs_top u ms ?h = ?h \<or> (\<exists>m \<in> set ms. fs_top u ms ?h = (m, percent_of u m))) \<and>
    fle (snd ?h) (snd (fs_top u ms ?h)) \<and> (\<forall>m \<in> set ms. fle (percent_of u m) (snd (fs_top u ms ?h)))"
    using Cons.IH [of ?h] Cons.prems h by simp
  have "fle (snd h) (snd (fs_top u ms ?h))" "fle (percent_of u m) (snd (fs_top u ms ?h))"
    using IH ge by (blast intro: fle_trans)+
  then show ?case unfolding top using h(2) IH by auto
qed

lemma fs_top_mount:
  assumes "ms \<noteq> []" and p: "\<And>m. m \<in> set ms \<Longrightarrow> fle f0 (percent_of u m)"
  obtains m where "m \<in> set ms" and "fs_top u ms ([], Fin (-1)) = (m, percent_of u m)"
    and "\<And>k. k \<in> set ms \<Longrightarrow> fle (percent_of u k) (percent_of u m)"
proof -
  let ?t = "fs_top u ms ([], Fin (-1))"
  have n: "percent_of u m \<noteq> NaN" if "m \<in> set ms" for m using p [OF that] by auto
  have t: "(?t = ([], Fin (-1)) \<or> (\<exists>m \<in> set ms. ?t = (m, percent_of u m))) \<and> (\<forall>m \<in> set ms. fle (percent_of u m) (snd ?t))"
    using fs_top_max [of ms u "([], Fin (-1))"] n by simp
  have "?t \<noteq> ([], Fin (-1))"
  proof
    assume e: "?t = ([], Fin (-1))"
    obtain m where "m \<in> set ms" using assms(1) by (cases ms) auto
    then have "fle f0 (Fin (-1))" using t p fle_trans [of f0] unfolding e by (metis snd_conv)
    then show False by simp
  qed
  then show ?thesis using t that by auto
qed

lemma reported_distinct: "distinct (reported_mounts config u parts)"
  by (simp add: reported_from_def firsts_distinct)

lemma reported_set:
  "set (reported_mounts config u parts) = {m. (\<exists>t. (m, t) \<in> set parts \<and> t \<notin> set (hc_excluded_fstypes config)) \<and> readable u m}"
  by (auto simp: reported_from_def firsts_distinct image_iff)

text \<open>One sample per round: the alerts of the mount points, and their summary.\<close>

lemma filesystem_sample_of:
  assumes "filesystem_sample config rd = Inr ss" and "fr_partitions rd = Inr parts"
  defines "ms \<equiv> reported_mounts config (fr_usage rd) parts"
  shows "if ms = [] then ss = []
    else \<exists>s. ss = [s] \<and> ms_alerts s = map (\<lambda>m. fs_alert (hc_thresholds config) m (projr (fr_usage rd m))) ms \<and>
      ms_summary s = show_int (int (length ms)) @ '' filesystems, highest '' @ fst (fs_top (fr_usage rd) ms ([], Fin (-1))) @ '' at '' @
        fmt_fixed 1 (snd (fs_top (fr_usage rd) ms ([], Fin (-1)))) @ ''%''"
proof (rule filesystem_sample_cases [OF assms(1)])
  let ?st0 = "\<lparr>fs_seen = [], fs_values = [], fs_alerts = [], fs_highest = ([], Fin (-1))\<rparr>"
  fix parts' st
  assume "fr_partitions rd = Inr parts'" and r: "fs_result config (fr_usage rd) (reported_mounts config (fr_usage rd) parts') ?st0 st"
    and ss: "if fs_values st = [] then ss = []
         else \<exists>vs. finite_values (fs_values st) = Inr vs \<and>
           ss = [\<lparr>ms_path = ''filesystem'', ms_values = vs, ms_alerts = fs_alerts st,
             ms_summary = show_int (int (length (fs_alerts st))) @ '' filesystems, highest '' @ fst (fs_highest st) @ '' at '' @
               fmt_fixed 1 (snd (fs_highest st)) @ ''%''\<rparr>]"
  then have "parts' = parts" using assms(2) by simp
  with r have "fs_alerts st = map (\<lambda>m. fs_alert (hc_thresholds config) m (projr (fr_usage rd m))) ms"
    and "fs_highest st = fs_top (fr_usage rd) ms ([], Fin (-1))" and "fs_values st = [] \<longleftrightarrow> ms = []"
    by (simp_all add: fs_result_def ms_def)
  with ss show ?thesis by (auto split: if_splits)
qed

text \<open>
  The name the code gives the mount point \<open>/\<close> is also the clean name of \<^verbatim>\<open>/root\<close>, which some
  distributions mount on its own: the two share the keys of their values, of which the later
  one is kept, and the key of their alert, whose debouncing then sees both usages in each round.
\<close>

lemma sanitize_root: "sanitize_name ''/root'' = ''root''"
  by code_simp

theorem root_mount_collision:
  "ob_key (fs_alert th ''/root'' us) = ob_key (fs_alert th ''/'' vs) \<and>
   keys (fs_entry ''/root'' a b c) = keys (fs_entry ''/'' a' b' c')"
  by (simp add: fs_alert_def high_alert_def fs_entry_def mount_name_def sanitize_root Let_def)

subsection \<open>Properties\<close>

text \<open>C20: Whatever limits a sensor reports (none, only one of them, a critical limit below the high one),
  the alerts of a temperature sample have their WARN threshold strictly below their ERROR
  threshold, as long as the configured temperatures are finite and no limit is infinite.\<close>

theorem temperature_thresholds_ordered:
  assumes "temperature_sample config (Inr chips) = Inr ss" and "s \<in> set ss" and "ob \<in> set (ms_alerts s)"
    and "isfinite (th_temp_warn (hc_thresholds config))" and "isfinite (th_temp_error (hc_thresholds config))"
    and "\<forall>chip \<in> set chips. \<forall>e \<in> set (snd chip). no_infinite_limit e"
  shows "\<exists>err. ob_error ob = Some err \<and> isfinite (ob_warn ob) \<and> flt (ob_warn ob) err"
proof -
  let ?th = "hc_thresholds config"
  have "ms_alerts s = concat (map (\<lambda>(chip, es). temp_watched config chip 0 es) chips)"
    using temperature_sample_cases [OF assms(1,2)] by auto
  then obtain chip es where c: "(chip, es) \<in> set chips" and w: "ob \<in> set (temp_watched config chip 0 es)"
    using assms(3) by auto
  obtain i e where e: "(i, e) \<in> set (enumerate 0 es)" and ob: "ob = temp_alert ?th chip i e"
    using w by (auto simp: temp_watched_def)
  have "e \<in> set es" using e by (auto simp: in_set_enumerate_eq)
  then have "no_infinite_limit e" using assms(6) c by auto
  then have "isfinite (temp_warn ?th e)" by (rule temp_warn_finite [OF assms(4)])
  moreover have "th_temp_error ?th \<noteq> NaN" using assms(5) by auto
  ultimately show ?thesis using temp_error_above by (simp add: ob temp_alert_def high_alert_def Let_def)
qed

text \<open>A sensor whose critical limit lies below its high limit.\<close>

theorem temperature_thresholds_ordered_witness:
  "\<exists>ss s ob. temperature_sample ((default_host_config ''h'')\<lparr>hc_cpu_temps_only := False\<rparr>)
       (Inr [(''nvme'', [\<lparr>se_label = [], se_current = Fin 40, se_high = Some (Fin 90), se_critical = Some (Fin 70)\<rparr>])]) = Inr ss \<and>
     s \<in> set ss \<and> ob \<in> set (ms_alerts s) \<and> ob_error ob = Some (Fin 95) \<and> flt (ob_warn ob) (Fin 95)"
proof -
  let ?c = "(default_host_config ''h'')\<lparr>hc_cpu_temps_only := False\<rparr>"
  let ?e = "\<lparr>se_label = [], se_current = Fin 40, se_high = Some (Fin 90), se_critical = Some (Fin 70)\<rparr>"
  let ?chips = "[(''nvme'', [?e])]"
  have th: "hc_thresholds ?c = default_thresholds" "hc_cpu_temps_only ?c = False"
    by (simp_all add: default_host_config_def host_post_init_def Let_def)
  let ?ob = "temp_alert default_thresholds ''nvme'' 0 ?e"
  obtain s where s: "temperature_sample ?c (Inr ?chips) = Inr [s]" and a: "ms_alerts s = [?ob]"
    by (auto simp: temperature_sample_def temp_step_def temp_values_def temp_final_def finite_values_def Let_def th
        simp del: hc_thresholds_def)
  have e: "ob_error ?ob = Some (Fin 95)"
    by (simp add: temp_alert_def high_alert_def temp_error_def temp_warn_def above_def default_thresholds_def Let_def)
  have "flt (ob_warn ?ob) (Fin 95)"
    using temperature_thresholds_ordered [OF s, of s ?ob] a e
    unfolding th by (simp add: default_thresholds_def no_infinite_limit_def)
  with s a e show ?thesis by (metis list.set_intros(1))
qed

text \<open>C21: A filesystem sample reports each mount point once, in the order of the partitions, and exactly
  those of a type that is not excluded whose usage can be read; there is one sample with one
  alert per mount point, none when nothing is left, and the summary names a mount point with
  the highest usage.\<close>

theorem filesystem_reports_mounts:
  assumes "filesystem_sample config rd = Inr ss" and "fr_partitions rd = Inr parts"
    and "\<forall>m us. fr_usage rd m = Inr us \<longrightarrow> fle f0 (us_percent us)"
  shows "let ms = reported_mounts config (fr_usage rd) parts in
    distinct ms \<and>
    set ms = {m. (\<exists>t. (m, t) \<in> set parts \<and> t \<notin> set (hc_excluded_fstypes config)) \<and> readable (fr_usage rd) m} \<and>
    (if ms = [] then ss = []
     else \<exists>s m. ss = [s] \<and> m \<in> set ms \<and> (\<forall>k \<in> set ms. fle (percent_of (fr_usage rd) k) (percent_of (fr_usage rd) m)) \<and>
       map ob_label (ms_alerts s) = map (\<lambda>k. ''Filesystem '' @ k) ms \<and>
       map ob_value (ms_alerts s) = map (percent_of (fr_usage rd)) ms \<and>
       ms_summary s = show_int (int (length ms)) @ '' filesystems, highest '' @ m @ '' at '' @
         fmt_fixed 1 (percent_of (fr_usage rd) m) @ ''%'')"
proof -
  let ?ms = "reported_mounts config (fr_usage rd) parts"
  note one = filesystem_sample_of [OF assms(1,2)]
  have pos: "fle f0 (percent_of (fr_usage rd) m)" if "m \<in> set ?ms" for m
    using that assms(3) by (auto simp: reported_set readable_def percent_of_def split: sum.splits)
  show ?thesis
  proof (cases "?ms = []")
    case True
    then show ?thesis using one reported_set [of config "fr_usage rd" parts] by simp
  next
    case False
    then obtain m where m: "m \<in> set ?ms" and top: "fs_top (fr_usage rd) ?ms ([], Fin (-1)) = (m, percent_of (fr_usage rd) m)"
      and hi: "\<And>k. k \<in> set ?ms \<Longrightarrow> fle (percent_of (fr_usage rd) k) (percent_of (fr_usage rd) m)"
      using fs_top_mount [of ?ms "fr_usage rd"] pos by blast
    obtain s where s: "ss = [s]" and a: "ms_alerts s = map (\<lambda>m. fs_alert (hc_thresholds config) m (projr (fr_usage rd m))) ?ms"
      and t: "ms_summary s = show_int (int (length ?ms)) @ '' filesystems, highest '' @ m @ '' at '' @
        fmt_fixed 1 (percent_of (fr_usage rd) m) @ ''%''"
      using one False unfolding top by auto
    have l: "map ob_label (ms_alerts s) = map (\<lambda>k. ''Filesystem '' @ k) ?ms"
      and v: "map ob_value (ms_alerts s) = map (percent_of (fr_usage rd)) ?ms"
      by (simp_all add: a fs_alert_def high_alert_def percent_of_def)
    have "\<exists>s m. ss = [s] \<and> m \<in> set ?ms \<and> (\<forall>k \<in> set ?ms. fle (percent_of (fr_usage rd) k) (percent_of (fr_usage rd) m)) \<and>
       map ob_label (ms_alerts s) = map (\<lambda>k. ''Filesystem '' @ k) ?ms \<and>
       map ob_value (ms_alerts s) = map (percent_of (fr_usage rd)) ?ms \<and>
       ms_summary s = show_int (int (length ?ms)) @ '' filesystems, highest '' @ m @ '' at '' @
         fmt_fixed 1 (percent_of (fr_usage rd) m) @ ''%''"
      by (intro exI [of _ s] exI [of _ m] conjI ballI s m hi l v t)
    then show ?thesis using False by (simp only: Let_def reported_distinct reported_set if_False simp_thms)
  qed
qed

text \<open>A partition mounted twice, one of an excluded type, and one whose usage cannot be read.\<close>

theorem filesystem_reports_mounts_witness:
  "\<exists>ss. filesystem_sample (default_host_config ''h'')
       \<lparr>fr_partitions = Inr [(''/'', ''ext4''), (''/run'', ''tmpfs''), (''/mnt'', ''ext4''), (''/'', ''ext4'')],
        fr_usage = (\<lambda>m. if m = ''/mnt'' then Inl (OSError ''io'') else Inr \<lparr>us_total = 0, us_used = 0, us_percent = Fin 50\<rparr>)\<rparr> = Inr ss \<and>
     (\<exists>s. ss = [s] \<and> map ob_label (ms_alerts s) = [''Filesystem /''])"
proof -
  let ?u = "\<lambda>m. if m = ''/mnt'' then Inl (OSError ''io'') else Inr \<lparr>us_total = 0, us_used = 0, us_percent = Fin 50\<rparr>"
  let ?parts = "[(''/'', ''ext4''), (''/run'', ''tmpfs''), (''/mnt'', ''ext4''), (''/'', ''ext4'')]"
  let ?rd = "\<lparr>fr_partitions = Inr ?parts, fr_usage = ?u\<rparr>"
  let ?c = "default_host_config ''h''"
  have x: "hc_excluded_fstypes ?c = default_excluded_fstypes" by (simp add: default_host_config_def host_post_init_def Let_def)
  have g: "gib 0 = Inr (Fin 0)" by (simp add: gib_def float_bound_def)
  obtain ss where ss: "filesystem_sample ?c ?rd = Inr ss"
    by (auto simp: filesystem_sample_def fs_step_def fs_report_def fs_entry_def is_os_error_def x default_excluded_fstypes_def g
        finite_values_def Let_def)
  have ms: "reported_mounts ?c ?u ?parts = [''/'']"
    by (simp add: reported_from_def readable_def x default_excluded_fstypes_def)
  have p: "\<forall>m us. fr_usage ?rd m = Inr us \<longrightarrow> fle f0 (us_percent us)" by (auto split: if_splits)
  have parts: "fr_partitions ?rd = Inr ?parts" and u: "fr_usage ?rd = ?u" by simp_all
  note r = filesystem_reports_mounts [OF ss parts p, unfolded u ms Let_def]
  have "\<exists>s. ss = [s] \<and> map ob_label (ms_alerts s) = map (\<lambda>k. ''Filesystem '' @ k) [''/'']"
    using r by (simp only: list.distinct if_False) blast
  then have "\<exists>s. ss = [s] \<and> map ob_label (ms_alerts s) = [''Filesystem /'']" by simp
  then show ?thesis using ss by (intro exI [of _ ss] conjI)
qed

end
