(* ===== verification/Rate_Collectors.thy ===== *)
theory Rate_Collectors
  imports Collector_Base
begin

text \<open>
  The collectors that turn the machine's byte and packet counters into totals and rates: disk
  and network, with the shell patterns (\<^verbatim>\<open>fnmatch\<close>) that exclude interfaces. The lemmas show that
  a rate is never negative, which interfaces are excluded by default, and that a required
  interface is always reported.
\<close>

subsection \<open>Disk\<close>

text \<open>\<open>dk_busy\<close> is None where the counters have no \<^verbatim>\<open>busy_time\<close>.\<close>

record disk_counters =
  dk_read :: int
  dk_write :: int
  dk_busy :: "int option"

record DiskIoCollector =
  dc_previous :: "disk_counters option"
  dc_previous_time :: "pyfloat option"

definition DiskIoCollector_init :: DiskIoCollector where
  "DiskIoCollector_init = \<lparr>dc_previous = None, dc_previous_time = None\<rparr>"

definition disk_busy :: "disk_counters \<Rightarrow> disk_counters \<Rightarrow> pyfloat \<Rightarrow> (string, pyval) dict \<Rightarrow> (string, pyval) dict result" where
  "disk_busy current previous elapsed vs =
     (case (dk_busy current, dk_busy previous) of
        (Some c, Some p) \<Rightarrow>
          bindE (rate c p (fmul elapsed (Fin 10))) (\<lambda>r. Inr (dict_set ''busy.percent'' (PFloat (fmin (Fin 100) r)) vs))
      | _ \<Rightarrow> Inr vs)"

definition disk_values :: "DiskIoCollector \<Rightarrow> disk_counters \<Rightarrow> pyfloat \<Rightarrow> (string, pyval) dict result" where
  "disk_values c current now =
     (let vs = [(''read.total_bytes'', PInt (dk_read current)), (''write.total_bytes'', PInt (dk_write current))] in
      case (dc_previous c, dc_previous_time c) of
        (Some previous, Some previous_time) \<Rightarrow>
          (let elapsed = fsub now previous_time in
           if fgt elapsed f0
           then bindE (add_rates elapsed [(''read.bytes_per_sec'', dk_read current, dk_read previous),
                  (''write.bytes_per_sec'', dk_write current, dk_write previous)] vs) (disk_busy current previous elapsed)
           else Inr vs)
      | _ \<Rightarrow> Inr vs)"

text \<open>The size of a value, as \<^verbatim>\<open>_format_bytes\<close> prints it.\<close>

definition size_text :: "pyval \<Rightarrow> string result" where
  "size_text v = bindE (py_float v) (\<lambda>f. Inr (format_bytes f))"

definition disk_summary :: "disk_counters \<Rightarrow> (string, pyval) dict \<Rightarrow> string result" where
  "disk_summary current vs =
     (case (dict_get vs ''read.bytes_per_sec'', dict_get vs ''write.bytes_per_sec'') of
        (Some r, Some w) \<Rightarrow>
          bindE (size_text r) (\<lambda>rt. bindE (size_text w) (\<lambda>wt.
            Inr (''Disk I/O R '' @ rt @ ''/s, W '' @ wt @ ''/s'' @
              (case dict_get vs ''busy.percent'' of
                 Some (PNum (NFlt b)) \<Rightarrow> '', busy '' @ fmt_fixed 1 b @ ''%'' | _ \<Rightarrow> []))))
      | _ \<Rightarrow>
          bindE (size_text (PInt (dk_read current))) (\<lambda>rt. bindE (size_text (PInt (dk_write current))) (\<lambda>wt.
            Inr (''Disk I/O totals R '' @ rt @ '', W '' @ wt))))"

definition disk_sample :: "disk_counters option result \<Rightarrow> DiskIoCollector \<Rightarrow> pyfloat \<Rightarrow> DiskIoCollector \<times> MetricSample list result" where
  "disk_sample rd c now =
     (case rd of
        Inl e \<Rightarrow> (c, Inl e)
      | Inr None \<Rightarrow> (c, Inr [])
      | Inr (Some current) \<Rightarrow>
          (case disk_values c current now of
             Inl e \<Rightarrow> (c, Inl e)
           | Inr vs \<Rightarrow>
               (c\<lparr>dc_previous := Some current, dc_previous_time := Some now\<rparr>,
                bindE (disk_summary current vs) (\<lambda>summary.
                bindE (finite_values vs) (\<lambda>fv.
                  Inr [\<lparr>ms_path = ''disk_io'', ms_values = fv, ms_alerts = [], ms_summary = summary\<rparr>])))))"

subsection \<open>Shell patterns\<close>

text \<open>
  \<^verbatim>\<open>fnmatch.fnmatch\<close> on a POSIX system: \<open>*\<close>, \<open>?\<close>, and classes \<open>[...]\<close> and \<open>[!...]\<close> with ranges; a bracket
  that does not close is an ordinary character, and a range from above to below is empty.
\<close>

fun class_has :: "char \<Rightarrow> string \<Rightarrow> bool" where
  "class_has c (x # d # y # r) =
     (if d = CHR ''-'' then (code_pt x \<le> code_pt c \<and> code_pt c \<le> code_pt y) \<or> class_has c r
      else c = x \<or> class_has c (d # y # r))"
| "class_has c (x # r) = (c = x \<or> class_has c r)"
| "class_has c [] = False"

text \<open>What follows an opening bracket: negated or not, the class, and the rest of the pattern.\<close>

definition split_class :: "nat \<Rightarrow> string \<Rightarrow> (string \<times> string) option" where
  "split_class k p =
     (let more = takeWhile (\<lambda>c. c \<noteq> CHR '']'') (drop k p); rest = dropWhile (\<lambda>c. c \<noteq> CHR '']'') (drop k p)
      in if rest = [] then None else Some (take k p @ more, tl rest))"

definition take_class :: "string \<Rightarrow> (bool \<times> string \<times> string) option" where
  "take_class p =
     (let neg = (p \<noteq> [] \<and> hd p = CHR ''!''); p1 = (if neg then tl p else p);
          k = (if p1 \<noteq> [] \<and> hd p1 = CHR '']'' then 1 else 0)
      in case split_class k p1 of None \<Rightarrow> None | Some (body, rest) \<Rightarrow> Some (neg, body, rest))"

lemma split_class_shorter: "split_class k p = Some (body, rest) \<Longrightarrow> length rest < length p"
proof -
  let ?d = "dropWhile (\<lambda>c. c \<noteq> CHR '']'') (drop k p)"
  assume "split_class k p = Some (body, rest)"
  then have "rest = tl ?d" "?d \<noteq> []" by (auto simp: split_class_def Let_def simp del: dropWhile_eq_Nil_conv split: if_splits)
  then have "length rest < length ?d" by simp
  also have "\<dots> \<le> length (drop k p)" by (rule length_dropWhile_le)
  finally show ?thesis by simp
qed

lemma take_class_shorter: "take_class p = Some (neg, body, rest) \<Longrightarrow> length rest < length p"
proof -
  assume "take_class p = Some (neg, body, rest)"
  then obtain k p1 where "split_class k p1 = Some (body, rest)" "length p1 \<le> length p"
    unfolding take_class_def Let_def by (cases "p \<noteq> [] \<and> hd p = CHR ''!''") (auto split: option.splits)
  then show ?thesis using split_class_shorter by fastforce
qed

function fnmatch :: "string \<Rightarrow> string \<Rightarrow> bool" where
  "fnmatch [] s = (s = [])"
| "fnmatch (c # p) [] = (c = CHR ''*'' \<and> fnmatch p [])"
| "fnmatch (c # p) (d # s) =
     (if c = CHR ''*'' then fnmatch p (d # s) \<or> fnmatch (c # p) s
      else if c = CHR ''?'' then fnmatch p s
      else (case (if c = CHR ''['' then take_class p else None) of
              None \<Rightarrow> d = c \<and> fnmatch p s
            | Some (neg, body, rest) \<Rightarrow> class_has d body \<noteq> neg \<and> fnmatch rest s))"
  by pat_completeness auto
termination
  by (relation "measure (\<lambda>(p, s). length p + length s)") (auto dest!: take_class_shorter split: if_splits)

subsection \<open>Network\<close>

record net_counters =
  ni_bytes_recv :: int
  ni_bytes_sent :: int
  ni_packets_recv :: int
  ni_packets_sent :: int
  ni_errin :: int
  ni_errout :: int
  ni_dropin :: int
  ni_dropout :: int

record net_stat =
  nt_isup :: bool
  nt_speed :: int
  nt_mtu :: int

record net_readings =
  nr_counters :: "(string, net_counters) dict result"
  nr_stats :: "(string, net_stat) dict result"

record NetworkCollector =
  nc_config :: HostMonitorConfig
  nc_previous :: "(string, net_counters) dict"
  nc_previous_time :: "pyfloat option"

definition NetworkCollector_init :: "HostMonitorConfig \<Rightarrow> NetworkCollector" where
  "NetworkCollector_init config = \<lparr>nc_config = config, nc_previous = [], nc_previous_time = None\<rparr>"

definition net_excluded :: "HostMonitorConfig \<Rightarrow> string \<Rightarrow> bool" where
  "net_excluded config interface = (\<exists>pat \<in> set (hc_excluded_interfaces config). fnmatch pat interface)"

definition net_totals :: "net_counters \<Rightarrow> (string, pyval) dict" where
  "net_totals c =
     [(''rx.total_bytes'', PInt (ni_bytes_recv c)), (''tx.total_bytes'', PInt (ni_bytes_sent c)),
      (''rx.total_packets'', PInt (ni_packets_recv c)), (''tx.total_packets'', PInt (ni_packets_sent c)),
      (''rx.total_errors'', PInt (ni_errin c)), (''tx.total_errors'', PInt (ni_errout c)),
      (''rx.total_drops'', PInt (ni_dropin c)), (''tx.total_drops'', PInt (ni_dropout c))]"

definition net_rate_counters :: "net_counters \<Rightarrow> net_counters \<Rightarrow> (string \<times> int \<times> int) list" where
  "net_rate_counters c p =
     [(''rx.bytes_per_sec'', ni_bytes_recv c, ni_bytes_recv p), (''tx.bytes_per_sec'', ni_bytes_sent c, ni_bytes_sent p),
      (''rx.packets_per_sec'', ni_packets_recv c, ni_packets_recv p), (''tx.packets_per_sec'', ni_packets_sent c, ni_packets_sent p),
      (''rx.errors_per_sec'', ni_errin c, ni_errin p), (''tx.errors_per_sec'', ni_errout c, ni_errout p),
      (''rx.drops_per_sec'', ni_dropin c, ni_dropin p), (''tx.drops_per_sec'', ni_dropout c, ni_dropout p)]"

definition net_counter_values ::
  "net_counters option \<Rightarrow> net_counters option \<Rightarrow> pyfloat \<Rightarrow> (string, pyval) dict result" where
  "net_counter_values current previous elapsed =
     (case current of
        None \<Rightarrow> Inr []
      | Some c \<Rightarrow>
          (case previous of
             None \<Rightarrow> Inr (net_totals c)
           | Some p \<Rightarrow> if fgt elapsed f0 then add_rates elapsed (net_rate_counters c p) (net_totals c) else Inr (net_totals c)))"

definition is_link_up :: "net_stat option \<Rightarrow> bool" where
  "is_link_up stat = (case stat of None \<Rightarrow> False | Some st \<Rightarrow> nt_isup st)"

definition net_link_values :: "net_stat option \<Rightarrow> bool \<Rightarrow> (string, pyval) dict \<Rightarrow> (string, pyval) dict" where
  "net_link_values stat required vs =
     (let vs1 = (case stat of
                   None \<Rightarrow> vs
                 | Some st \<Rightarrow> dict_update vs [(''link.up'', PBool (nt_isup st)), (''link.speed_mbps'', PInt (nt_speed st)),
                     (''link.mtu'', PInt (nt_mtu st))])
      in if required then dict_set ''link.up'' (PFloat (if is_link_up stat then Fin 1 else Fin 0)) vs1 else vs1)"

definition net_alerts :: "string \<Rightarrow> net_stat option \<Rightarrow> bool \<Rightarrow> AlertObservation list" where
  "net_alerts interface stat required =
     (if required
      then [\<lparr>ob_key = ''network.'' @ interface @ ''.required'', ob_label = ''Interface '' @ interface @ '' link'',
             ob_value = (if is_link_up stat then Fin 1 else Fin 0), ob_warn = Fin (1 / 2), ob_error = None,
             ob_direction = ''low'', ob_unit = []\<rparr>]
      else [])"

definition net_summary ::
  "string \<Rightarrow> net_counters option \<Rightarrow> net_stat option \<Rightarrow> (string, pyval) dict \<Rightarrow> string result" where
  "net_summary interface current stat vs =
     (let link = (case stat of None \<Rightarrow> ''link unknown'' | Some st \<Rightarrow> if nt_isup st then ''up'' else ''down'') in
      case (dict_get vs ''rx.bytes_per_sec'', dict_get vs ''tx.bytes_per_sec'') of
        (Some r, Some t) \<Rightarrow>
          bindE (size_text r) (\<lambda>rt. bindE (size_text t) (\<lambda>tt.
            Inr (interface @ '' '' @ link @ '', RX '' @ rt @ ''/s, TX '' @ tt @ ''/s'')))
      | _ \<Rightarrow>
          (case current of
             Some c \<Rightarrow>
               bindE (size_text (PInt (ni_bytes_recv c))) (\<lambda>rt. bindE (size_text (PInt (ni_bytes_sent c))) (\<lambda>tt.
                 Inr (interface @ '' '' @ link @ '', totals RX '' @ rt @ '', TX '' @ tt)))
           | None \<Rightarrow> Inr (interface @ '' '' @ link @ '', counters unavailable'')))"

text \<open>One turn of the loop over the interfaces.\<close>

definition net_interface ::
  "NetworkCollector \<Rightarrow> (string, net_counters) dict \<Rightarrow> (string, net_stat) dict \<Rightarrow> pyfloat \<Rightarrow> string \<Rightarrow> MetricSample result" where
  "net_interface c counters stats elapsed interface =
     (let current = dict_get counters interface; stat = dict_get stats interface;
          required = (interface \<in> set (hc_required_interfaces (nc_config c)))
      in bindE (net_counter_values current (dict_get (nc_previous c) interface) elapsed) (\<lambda>vs0.
         let vs = net_link_values stat required vs0 in
         bindE (net_summary interface current stat vs) (\<lambda>summary.
         bindE (finite_values vs) (\<lambda>fv.
           Inr \<lparr>ms_path = ''network.'' @ sanitize_name interface, ms_values = fv,
                ms_alerts = net_alerts interface stat required, ms_summary = summary\<rparr>))))"

definition net_included :: "HostMonitorConfig \<Rightarrow> (string, net_counters) dict \<Rightarrow> string list" where
  "net_included config counters =
     sort (remdups (filter (\<lambda>i. \<not> net_excluded config i) (keys counters) @ hc_required_interfaces config))"

definition net_sample :: "net_readings \<Rightarrow> NetworkCollector \<Rightarrow> pyfloat \<Rightarrow> NetworkCollector \<times> MetricSample list result" where
  "net_sample rd c now =
     (case bindE (nr_counters rd) (\<lambda>counters.
           bindE (case nr_stats rd of Inr stats \<Rightarrow> Inr stats | Inl e \<Rightarrow> if is_os_error e then Inr [] else Inl e) (\<lambda>stats.
           let elapsed = (case nc_previous_time c of None \<Rightarrow> f0 | Some t \<Rightarrow> fsub now t) in
           bindE (mapE (net_interface c counters stats elapsed) (net_included (nc_config c) counters)) (\<lambda>samples.
           Inr (counters, samples)))) of
        Inl e \<Rightarrow> (c, Inl e)
      | Inr (counters, samples) \<Rightarrow> (c\<lparr>nc_previous := counters, nc_previous_time := Some now\<rparr>, Inr samples))"

subsection \<open>Every sample has the right shape\<close>

text \<open>What storing values under names, and rates that are no less than 0, keeps.\<close>

definition values_ok :: "(string, pyval) dict \<Rightarrow> bool" where
  "values_ok vs = (named vs \<and> rates_ok vs \<and> wf_dict vs)"

lemma add_rates_values_ok:
  "add_rates elapsed cs vs = Inr vs' \<Longrightarrow> fgt elapsed f0 \<Longrightarrow> values_ok vs \<Longrightarrow> (\<And>k c p. (k, c, p) \<in> set cs \<Longrightarrow> k \<noteq> []) \<Longrightarrow>
   values_ok vs'"
  unfolding values_ok_def using add_rates_ok by (auto elim!: add_rates_inv simp: named_set)

lemma values_ok_set: "values_ok vs \<Longrightarrow> k \<noteq> [] \<Longrightarrow> \<not> ends_with ''per_sec'' k \<Longrightarrow> values_ok (dict_set k v vs)"
  by (simp add: values_ok_def named_set rates_ok_set)

lemma disk_values_ok: "disk_values c current now = Inr vs \<Longrightarrow> values_ok vs"
proof -
  assume v: "disk_values c current now = Inr vs"
  let ?vs = "[(''read.total_bytes'', PInt (dk_read current)), (''write.total_bytes'', PInt (dk_write current))]"
  have ok: "values_ok ?vs" by (simp add: values_ok_def wf_dict_def ends_with_def starts_with_def)
  from v consider "vs = ?vs" | elapsed previous vs1 where "fgt elapsed f0"
    and "add_rates elapsed [(''read.bytes_per_sec'', dk_read current, dk_read previous),
           (''write.bytes_per_sec'', dk_write current, dk_write previous)] ?vs = Inr vs1"
    and "disk_busy current previous elapsed vs1 = Inr vs"
    unfolding disk_values_def Let_def
    by (cases "dc_previous c"; cases "dc_previous_time c") (auto simp: bindE_Inr_iff simp del: add_rates.simps split: if_splits)
  then show ?thesis
  proof cases
    case 2
    then have "values_ok vs1" using ok by (elim add_rates_values_ok) auto
    then show ?thesis using 2(3)
      by (auto simp: disk_busy_def bindE_Inr_iff ends_with_def starts_with_def split: option.splits intro!: values_ok_set)
  qed (use ok in simp)
qed

lemma disk_sample_shape:
  "snd (disk_sample rd c now) = Inr ss \<Longrightarrow> s \<in> set ss \<Longrightarrow> sample_ok s \<and> sample_rates_ok s \<and> ms_alerts s = []"
  by (auto simp: disk_sample_def bindE_Inr_iff sample_ok_def values_ok_def dest!: disk_values_ok intro!: sample_rates_ok_I
      split: sum.splits option.splits)

lemma net_link_values_ok: "values_ok vs \<Longrightarrow> values_ok (net_link_values stat required vs)"
  by (auto simp: net_link_values_def ends_with_def starts_with_def Let_def split: option.splits intro!: values_ok_set)

lemma net_counter_values_ok: "net_counter_values current previous elapsed = Inr vs \<Longrightarrow> values_ok vs"
proof -
  assume v: "net_counter_values current previous elapsed = Inr vs"
  have ok: "values_ok (net_totals c)" for c by (simp add: net_totals_def values_ok_def wf_dict_def ends_with_def starts_with_def)
  have k: "key \<noteq> []" if "(key, a, b) \<in> set (net_rate_counters c p)" for key a b c p
    using that by (auto simp: net_rate_counters_def)
  from v show ?thesis
    by (auto simp: net_counter_values_def values_ok_def split: option.splits if_splits)
      (use ok k add_rates_values_ok [of elapsed _ "net_totals _" vs] in \<open>auto simp: values_ok_def\<close>)
qed

lemma net_alerts_ok: "ob \<in> set (net_alerts i stat required) \<Longrightarrow> obs_ok error_key ob"
  by (auto simp: net_alerts_def obs_ok_def error_key_def starts_with_def split: if_splits)

lemma net_interface_cases:
  assumes "net_interface c counters stats elapsed i = Inr s"
  obtains vs where "values_ok vs" and "net_counter_values (dict_get counters i) (dict_get (nc_previous c) i) elapsed = Inr vs"
    and "finite_values (net_link_values (dict_get stats i) (i \<in> set (hc_required_interfaces (nc_config c))) vs) = Inr (ms_values s)"
    and "ms_path s = ''network.'' @ sanitize_name i"
    and "ms_alerts s = net_alerts i (dict_get stats i) (i \<in> set (hc_required_interfaces (nc_config c)))"
  using assms by (auto simp: net_interface_def bindE_Inr_iff Let_def) (use net_counter_values_ok in blast)

lemma net_interface_shape: "net_interface c counters stats elapsed i = Inr s \<Longrightarrow> sample_ok s \<and> sample_rates_ok s"
proof (elim net_interface_cases)
  fix vs
  let ?r = "i \<in> set (hc_required_interfaces (nc_config c))"
  assume "values_ok vs" and f: "finite_values (net_link_values (dict_get stats i) ?r vs) = Inr (ms_values s)"
    and a: "ms_alerts s = net_alerts i (dict_get stats i) ?r"
  then have "values_ok (net_link_values (dict_get stats i) ?r vs)" by (simp add: net_link_values_ok)
  then show ?thesis using f a net_alerts_ok sample_rates_ok_I [OF f] by (auto simp: sample_ok_def values_ok_def)
qed

text \<open>A round that returns samples has one per included interface.\<close>

lemma net_sample_cases:
  assumes "snd (net_sample rd c now) = Inr ss"
  obtains counters stats elapsed where "nr_counters rd = Inr counters"
    and "stats = (case nr_stats rd of Inr st \<Rightarrow> st | Inl e \<Rightarrow> [])"
    and "list_all2 (\<lambda>i s. net_interface c counters stats elapsed i = Inr s) (net_included (nc_config c) counters) ss"
    and "elapsed = (case nc_previous_time c of None \<Rightarrow> f0 | Some t \<Rightarrow> fsub now t)"
proof -
  let ?e = "case nc_previous_time c of None \<Rightarrow> f0 | Some t \<Rightarrow> fsub now t"
  from assms obtain counters stats where "nr_counters rd = Inr counters"
    and st: "(case nr_stats rd of Inr st \<Rightarrow> Inr st | Inl e \<Rightarrow> if is_os_error e then Inr [] else Inl e) = Inr stats"
    and "mapE (net_interface c counters stats ?e) (net_included (nc_config c) counters) = Inr ss"
    unfolding net_sample_def Let_def by (auto simp: bindE_Inr_iff bindE_Inl_iff split: sum.splits)
  moreover have "stats = (case nr_stats rd of Inr st \<Rightarrow> st | Inl e \<Rightarrow> [])"
    using st by (auto split: sum.splits if_splits)
  ultimately show ?thesis using that by (simp add: mapE_Inr_iff)
qed

lemma net_sample_shape: "snd (net_sample rd c now) = Inr ss \<Longrightarrow> s \<in> set ss \<Longrightarrow> sample_ok s \<and> sample_rates_ok s"
  by (erule net_sample_cases) (auto dest!: list_all2_in_set2 net_interface_shape)

subsection \<open>Patterns without special characters\<close>

lemma fnmatch_literal:
  "(\<And>c. c \<in> set p \<Longrightarrow> c \<notin> set ''*?['') \<Longrightarrow> fnmatch (p @ q) s \<longleftrightarrow> starts_with p s \<and> fnmatch q (drop (length p) s)"
proof (induction p arbitrary: s)
  case (Cons c p)
  have "c \<noteq> CHR ''*'' \<and> c \<noteq> CHR ''?'' \<and> c \<noteq> CHR ''[''" using Cons.prems [of c] by auto
  then show ?case using Cons by (cases s) (auto simp: starts_with_def)
qed (simp add: starts_with_def)

lemma fnmatch_star: "fnmatch ''*'' s"
  by (induction s) simp_all

lemma fnmatch_prefix: "(\<And>c. c \<in> set p \<Longrightarrow> c \<notin> set ''*?['') \<Longrightarrow> fnmatch (p @ ''*'') s \<longleftrightarrow> starts_with p s"
  using fnmatch_literal [of p "''*''" s] fnmatch_star by simp

lemma fnmatch_exact: "(\<And>c. c \<in> set p \<Longrightarrow> c \<notin> set ''*?['') \<Longrightarrow> fnmatch p s \<longleftrightarrow> s = p"
  using fnmatch_literal [of p "[]" s] by (auto simp: starts_with_def dest: sym)

subsection \<open>Properties\<close>

text \<open>With the default configuration, the interfaces left out are exactly the loopback and those whose
  name begins with docker, veth, br- or virbr.\<close>

theorem default_excluded_interfaces:
  "net_excluded (default_host_config h) i \<longleftrightarrow>
     i = ''lo'' \<or> starts_with ''docker'' i \<or> starts_with ''veth'' i \<or> starts_with ''br-'' i \<or> starts_with ''virbr'' i"
proof -
  have x: "hc_excluded_interfaces (default_host_config h) = default_excluded_interfaces"
    by (simp add: default_host_config_def host_post_init_def Let_def)
  show ?thesis
    using fnmatch_exact [of "''lo''" i] fnmatch_prefix [of "''docker''" i] fnmatch_prefix [of "''veth''" i]
      fnmatch_prefix [of "''br-''" i] fnmatch_prefix [of "''virbr''" i]
    by (simp add: net_excluded_def x default_excluded_interfaces_def del: fnmatch.simps) blast
qed

text \<open>C22: A round of the network collector that returns samples has one per interface, in the order of the
  names and without repetition: the interfaces that have counters and are not excluded, and
  every required interface, even one that is excluded or that the machine does not know. A
  required interface reports the state of its link (down when unknown) with an alert below
  one half; no other interface has an alert.\<close>

theorem network_reports_interfaces:
  assumes "snd (net_sample rd c now) = Inr ss" and "nr_counters rd = Inr counters"
  shows "let names = net_included (nc_config c) counters in sorted names \<and> distinct names \<and>
    set names = {i \<in> set (keys counters). \<not> net_excluded (nc_config c) i} \<union> set (hc_required_interfaces (nc_config c)) \<and>
    list_all2 (\<lambda>i s. ms_path s = ''network.'' @ sanitize_name i \<and>
      (if i \<in> set (hc_required_interfaces (nc_config c))
       then (let up = (case nr_stats rd of Inr st \<Rightarrow> is_link_up (dict_get st i) | Inl e \<Rightarrow> False); v = Fin (if up then 1 else 0) in
             dict_get (ms_values s) ''link.up'' = Some v \<and>
             (\<exists>a. ms_alerts s = [a] \<and> ob_value a = v \<and> ob_warn a = Fin (1 / 2) \<and> ob_direction a = ''low''))
       else ms_alerts s = [])) names ss"
proof (rule net_sample_cases [OF assms(1)])
  fix counters' stats elapsed
  let ?names = "net_included (nc_config c) counters" and ?req = "\<lambda>i. i \<in> set (hc_required_interfaces (nc_config c))"
  assume "nr_counters rd = Inr counters'" and stats: "stats = (case nr_stats rd of Inr st \<Rightarrow> st | Inl e \<Rightarrow> [])"
    and all: "list_all2 (\<lambda>i s. net_interface c counters' stats elapsed i = Inr s) (net_included (nc_config c) counters') ss"
  then have c: "counters' = counters" using assms(2) by simp
  have up: "is_link_up (dict_get stats i) = (case nr_stats rd of Inr st \<Rightarrow> is_link_up (dict_get st i) | Inl e \<Rightarrow> False)" for i
    by (simp add: stats is_link_up_def split: sum.splits)
  have one: "ms_path s = ''network.'' @ sanitize_name i \<and> ms_alerts s = net_alerts i (dict_get stats i) (?req i) \<and>
      (?req i \<longrightarrow> dict_get (ms_values s) ''link.up'' = Some (if is_link_up (dict_get stats i) then Fin 1 else Fin 0))"
    if s: "net_interface c counters stats elapsed i = Inr s" for i s
  proof (rule net_interface_cases [OF s])
    fix vs
    assume v: "values_ok vs" and f: "finite_values (net_link_values (dict_get stats i) (?req i) vs) = Inr (ms_values s)"
      and p: "ms_path s = ''network.'' @ sanitize_name i" "ms_alerts s = net_alerts i (dict_get stats i) (?req i)"
    have "wf_dict (net_link_values (dict_get stats i) (?req i) vs)"
      using net_link_values_ok [OF v] by (simp add: values_ok_def)
    note get = finite_values_get [OF f this, of "''link.up''"]
    have "?req i \<longrightarrow> dict_get (ms_values s) ''link.up'' = Some (if is_link_up (dict_get stats i) then Fin 1 else Fin 0)"
      unfolding get by (simp add: net_link_values_def kept_def Let_def)
    with p show ?thesis by simp
  qed
  have "list_all2 (\<lambda>i s. ms_path s = ''network.'' @ sanitize_name i \<and>
      (if ?req i
       then (let up = (case nr_stats rd of Inr st \<Rightarrow> is_link_up (dict_get st i) | Inl e \<Rightarrow> False); v = Fin (if up then 1 else 0) in
             dict_get (ms_values s) ''link.up'' = Some v \<and>
             (\<exists>a. ms_alerts s = [a] \<and> ob_value a = v \<and> ob_warn a = Fin (1 / 2) \<and> ob_direction a = ''low''))
       else ms_alerts s = [])) ?names ss"
    by (rule list_all2_mono [OF all [unfolded c]]) (use one in \<open>auto simp: net_alerts_def up [symmetric] Let_def\<close>)
  moreover have "sorted ?names \<and> distinct ?names \<and>
      set ?names = {i \<in> set (keys counters). \<not> net_excluded (nc_config c) i} \<union> set (hc_required_interfaces (nc_config c))"
    by (auto simp: net_included_def)
  ultimately show ?thesis unfolding Let_def by blast
qed

text \<open>A required interface that the machine does not have, beside the excluded loopback.\<close>

definition demo_network :: NetworkCollector where
  "demo_network = NetworkCollector_init ((default_host_config ''h'')\<lparr>hc_required_interfaces := [''can0'']\<rparr>)"

definition demo_net_readings :: net_readings where
  "demo_net_readings =
     \<lparr>nr_counters = Inr [(''lo'', \<lparr>ni_bytes_recv = 1, ni_bytes_sent = 1, ni_packets_recv = 1, ni_packets_sent = 1,
        ni_errin = 0, ni_errout = 0, ni_dropin = 0, ni_dropout = 0\<rparr>)], nr_stats = Inl (OSError ''denied'')\<rparr>"

theorem network_reports_interfaces_witness:
  "\<exists>s. snd (net_sample demo_net_readings demo_network (Fin 5)) = Inr [s] \<and> ms_path s = ''network.can0'' \<and>
     dict_get (ms_values s) ''link.up'' = Some (Fin 0)"
proof -
  have x: "net_excluded (nc_config demo_network) ''lo''"
    by (simp add: net_excluded_def demo_network_def NetworkCollector_init_def default_host_config_def host_post_init_def
        default_excluded_interfaces_def Let_def)
  have req: "hc_required_interfaces (nc_config demo_network) = [''can0'']"
    by (simp add: demo_network_def NetworkCollector_init_def)
  let ?counters = "[(''lo'', \<lparr>ni_bytes_recv = 1, ni_bytes_sent = 1, ni_packets_recv = 1, ni_packets_sent = 1,
        ni_errin = 0, ni_errout = 0, ni_dropin = 0, ni_dropout = 0\<rparr>)]"
  have cs: "nr_counters demo_net_readings = Inr ?counters" by (simp add: demo_net_readings_def)
  have inc: "net_included (nc_config demo_network) ?counters = [''can0'']"
    by (simp add: net_included_def req x)
  obtain ss where ss: "snd (net_sample demo_net_readings demo_network (Fin 5)) = Inr ss"
    by (auto simp: net_sample_def cs inc net_interface_def net_counter_values_def net_summary_def net_link_values_def req
        is_link_up_def finite_values_def is_os_error_def Let_def) (simp_all add: demo_net_readings_def is_os_error_def)
  note r = network_reports_interfaces [OF ss cs, unfolded inc Let_def req, THEN conjunct2, THEN conjunct2, THEN conjunct2]
  then obtain s where s: "ss = [s]" and p: "ms_path s = ''network.'' @ sanitize_name ''can0''"
    and v: "dict_get (ms_values s) ''link.up'' = Some (Fin 0)"
    by (auto simp: list_all2_Cons1 demo_net_readings_def)
  have "sanitize_name ''can0'' = ''can0''"
    by (rule sanitize_clean) (simp add: clean_name_def name_char_def is_digit_def code_pt_def)
  then show ?thesis using ss s p v by (intro exI [of _ s] conjI) simp_all
qed

end
