(* ===== verification/Command_Parsers.thy ===== *)
theory Command_Parsers
  imports Collector_Base "HOL-Library.Monad_Syntax"
begin

text \<open>
  The parsers of \<^verbatim>\<open>host_monitor/collectors.py\<close>: the scheduler table of Xenomai and the output
  line of NVIDIA's tegrastats. A regular expression of the code is a matcher, a function from
  the text at a position to the match and the text after it; the expressions used are
  deterministic, each greedy part stopping at a character the next part needs. The lemmas show
  which rows of the table become entries and that the tegrastats parser never raises.
\<close>

subsection \<open>The scheduler table of Xenomai\<close>

record XenomaiSchedEntry =
  xe_cpu :: int
  xe_pid :: int
  xe_msw :: int
  xe_load :: pyfloat
  xe_name :: string

fun index_of :: "'a \<Rightarrow> 'a list \<Rightarrow> nat option" where
  "index_of x [] = None"
| "index_of x (y # ys) = (if y = x then Some 0 else map_option Suc (index_of x ys))"

definition item :: "'a list \<Rightarrow> nat \<Rightarrow> 'a option" where
  "item xs i = (if i < length xs then Some (xs ! i) else None)"

record xeno_columns =
  xc_cpu :: nat
  xc_pid :: nat
  xc_msw :: nat
  xc_name :: nat
  xc_load :: nat

definition xeno_header :: "string \<Rightarrow> xeno_columns result" where
  "xeno_header line =
     (let headers = split_ws (upper line) in
      case do { c \<leftarrow> index_of ''CPU'' headers; p \<leftarrow> index_of ''PID'' headers; m \<leftarrow> index_of ''MSW'' headers;
                n \<leftarrow> index_of ''NAME'' headers; Some (c, p, m, n) } of
        None \<Rightarrow> Inl (ValueError ''Xenomai stat header must contain CPU, PID, MSW, and NAME'')
      | Some (c, p, m, n) \<Rightarrow>
          (case filter (\<lambda>i. i \<noteq> None) (map (\<lambda>h. index_of h headers) [''%CPU'', ''CPU%'', ''LOAD'']) of
             [] \<Rightarrow> Inl (ValueError ''Xenomai stat header must contain %CPU or LOAD'')
           | l # _ \<Rightarrow> Inr \<lparr>xc_cpu = c, xc_pid = p, xc_msw = m, xc_name = n, xc_load = the l\<rparr>))"

definition is_irq :: "string \<Rightarrow> bool" where
  "is_irq name = (starts_with ''[IRQ'' (upper name) \<or> starts_with ''IRQ'' (upper name))"

text \<open>One row: None where the code goes on with the next line.\<close>

definition xeno_row :: "xeno_columns \<Rightarrow> string \<Rightarrow> XenomaiSchedEntry option" where
  "xeno_row cols line =
     (let fs = split_ws_max (xc_name cols) line in
      if length fs \<le> xc_name cols then None
      else
        (let name = strip (fs ! xc_name cols) in
         if is_irq name then None
         else do { c \<leftarrow> item fs (xc_cpu cols); c' \<leftarrow> parse_int c; p \<leftarrow> item fs (xc_pid cols); p' \<leftarrow> parse_int p;
                   m \<leftarrow> item fs (xc_msw cols); m' \<leftarrow> parse_int m; l \<leftarrow> item fs (xc_load cols); l' \<leftarrow> parse_float l;
                   Some \<lparr>xe_cpu = c', xe_pid = p', xe_msw = m', xe_load = l', xe_name = name\<rparr> }))"

definition parse_xenomai_sched_stat :: "string \<Rightarrow> XenomaiSchedEntry list result" where
  "parse_xenomai_sched_stat text =
     (case filter (\<lambda>l. l \<noteq> []) (map strip (splitlines text)) of
        [] \<Rightarrow> Inr []
      | header # rows \<Rightarrow> bindE (xeno_header header) (\<lambda>cols. Inr (List.map_filter (xeno_row cols) rows)))"

subsection \<open>Matchers\<close>

text \<open>The leftmost match of a matcher, at the start of a word when \<open>bnd\<close> asks for it.\<close>

fun re_search :: "bool \<Rightarrow> (string \<Rightarrow> 'a option) \<Rightarrow> char option \<Rightarrow> string \<Rightarrow> 'a option" where
  "re_search bnd m before [] = None"
| "re_search bnd m before (c # s) =
     (case (if bnd \<and> \<not> word_start before then None else m (c # s)) of
        Some r \<Rightarrow> Some r
      | None \<Rightarrow> re_search bnd m (Some c) s)"

text \<open>
  All matches that do not overlap. A matcher returns the groups, the last character it matched
  and the text after the match, which is shorter than the text it got.
\<close>

function re_findall :: "bool \<Rightarrow> (string \<Rightarrow> ('a \<times> char \<times> string) option) \<Rightarrow> char option \<Rightarrow> string \<Rightarrow> 'a list" where
  "re_findall bnd m before [] = []"
| "re_findall bnd m before (c # s) =
     (case (if bnd \<and> \<not> word_start before then None else m (c # s)) of
        Some (v, d, rest) \<Rightarrow> v # (if length rest \<le> length s then re_findall bnd m (Some d) rest else [])
      | None \<Rightarrow> re_findall bnd m (Some c) s)"
  by pat_completeness auto
termination by (relation "measure (\<lambda>(bnd, m, before, s). length s)") auto

text \<open>A literal with and without regard to case, white space, and \<^verbatim>\<open>\d+(?:\.\d+)?\<close>.\<close>

definition lit :: "string \<Rightarrow> string \<Rightarrow> string option" where
  "lit p s = (if starts_with p s then Some (drop (length p) s) else None)"

definition lit_nocase :: "string \<Rightarrow> string \<Rightarrow> string option" where
  "lit_nocase p s = (if starts_with (lower p) (lower s) then Some (drop (length p) s) else None)"

definition spaces1 :: "string \<Rightarrow> string option" where
  "spaces1 s = (if s \<noteq> [] \<and> is_space (hd s) then Some (dropWhile is_space s) else None)"

definition number :: "string \<Rightarrow> (string \<times> string) option" where
  "number s =
     (let ds = takeWhile is_digit s; r = dropWhile is_digit s; fs = takeWhile is_digit (tl r) in
      if ds = [] then None
      else if r \<noteq> [] \<and> hd r = CHR ''.'' \<and> fs \<noteq> [] then Some (ds @ CHR ''.'' # fs, dropWhile is_digit (tl r))
      else Some (ds, r))"

definition only_at_end :: "string \<Rightarrow> unit option" where
  "only_at_end s = (if word_end s then Some () else None)"

text \<open>\<^verbatim>\<open>WORD\s+(n)/(n)MB\<close>, \<^verbatim>\<open>CPU\s*\[([^]]*)\]\<close>, \<^verbatim>\<open>(n)%\<close> and \<^verbatim>\<open>FIELD\s+(n)%\<close>.\<close>

definition match_ratio :: "string \<Rightarrow> string \<Rightarrow> (string \<times> string) option" where
  "match_ratio w s = do { s1 \<leftarrow> lit_nocase w s; s2 \<leftarrow> spaces1 s1; (used, s3) \<leftarrow> number s2; s4 \<leftarrow> lit ''/'' s3;
                          (whole, s5) \<leftarrow> number s4; s6 \<leftarrow> lit_nocase ''MB'' s5; Some (used, whole) }"

definition match_cpu :: "string \<Rightarrow> string option" where
  "match_cpu s = do { s1 \<leftarrow> lit_nocase ''CPU'' s; s2 \<leftarrow> lit ''['' (dropWhile is_space s1);
                      s3 \<leftarrow> lit '']'' (dropWhile (\<lambda>c. c \<noteq> CHR '']'') s2); Some (takeWhile (\<lambda>c. c \<noteq> CHR '']'') s2) }"

definition match_percent :: "string \<Rightarrow> (string \<times> char \<times> string) option" where
  "match_percent s = do { (n, s1) \<leftarrow> number s; s2 \<leftarrow> lit ''%'' s1; Some (n, CHR ''%'', s2) }"

definition match_field :: "string \<Rightarrow> string \<Rightarrow> string option" where
  "match_field w s = do { s1 \<leftarrow> lit_nocase w s; s2 \<leftarrow> spaces1 s1; (n, s3) \<leftarrow> number s2; s4 \<leftarrow> lit ''%'' s3; Some n }"

definition is_upper :: "char \<Rightarrow> bool" where
  "is_upper c = (65 \<le> code_pt c \<and> code_pt c \<le> 90)"

definition is_letter :: "char \<Rightarrow> bool" where
  "is_letter c = (is_upper c \<or> (97 \<le> code_pt c \<and> code_pt c \<le> 122))"

definition is_rail :: "char \<Rightarrow> bool" where
  "is_rail c = (is_upper c \<or> is_digit c \<or> c = CHR ''_'')"

text \<open>\<^verbatim>\<open>([A-Za-z][A-Za-z0-9_.-]*)@(-?n)C\b\<close> and \<^verbatim>\<open>([A-Z][A-Z0-9_]*)\s+(n)mW/(n)mW\b\<close>.\<close>

definition match_temp :: "string \<Rightarrow> ((string \<times> string) \<times> char \<times> string) option" where
  "match_temp s =
     (if s = [] \<or> \<not> is_letter (hd s) then None
      else do { s1 \<leftarrow> lit ''@'' (dropWhile name_char s);
                let sign = (if s1 \<noteq> [] \<and> hd s1 = CHR ''-'' then ''-'' else []);
                (n, s2) \<leftarrow> number (drop (length sign) s1); s3 \<leftarrow> lit ''C'' s2; _ \<leftarrow> only_at_end s3;
                Some ((takeWhile name_char s, sign @ n), CHR ''C'', s3) })"

definition match_power :: "string \<Rightarrow> ((string \<times> string \<times> string) \<times> char \<times> string) option" where
  "match_power s =
     (if s = [] \<or> \<not> is_upper (hd s) then None
      else do { s1 \<leftarrow> spaces1 (dropWhile is_rail s); (n, s2) \<leftarrow> number s1; s3 \<leftarrow> lit ''mW/'' s2;
                (a, s4) \<leftarrow> number s3; s5 \<leftarrow> lit ''mW'' s4; _ \<leftarrow> only_at_end s5;
                Some ((takeWhile is_rail s, n, a), CHR ''W'', s5) })"

subsection \<open>The tegrastats line\<close>

definition text_float :: "string \<Rightarrow> pyfloat result" where
  "text_float t = py_float (PStr t)"

definition tegra_ratio :: "string \<Rightarrow> string \<Rightarrow> string \<Rightarrow> (string, pyval) dict \<Rightarrow> (string, pyval) dict result" where
  "tegra_ratio w key text vs =
     (case re_search True (match_ratio w) None text of
        None \<Rightarrow> Inr vs
      | Some (u, t) \<Rightarrow>
          bindE (text_float u) (\<lambda>used. bindE (text_float t) (\<lambda>whole.
            Inr (dict_update vs [(key @ ''.used_mib'', PFloat used), (key @ ''.total_mib'', PFloat whole),
              (key @ ''.percent'', PFloat (if fgt whole f0 then fdiv (fmul (Fin 100) used) whole else f0))]))))"

definition tegra_cpu :: "string \<Rightarrow> (string, pyval) dict \<Rightarrow> (string, pyval) dict result" where
  "tegra_cpu text vs =
     (case re_search True match_cpu None text of
        None \<Rightarrow> Inr vs
      | Some cores \<Rightarrow>
          bindE (mapE text_float (re_findall False match_percent None cores)) (\<lambda>utilization.
            Inr (if utilization = [] then vs
                 else dict_update vs [(''cpu.utilization.percent'', PFloat (list_mean utilization)),
                   (''cpu.active_cores'', PFloat (Fin (real (length utilization))))])))"

definition tegra_field :: "string \<Rightarrow> string \<Rightarrow> string \<Rightarrow> (string, pyval) dict \<Rightarrow> (string, pyval) dict result" where
  "tegra_field w key text vs =
     (case re_search True (match_field w) None text of
        None \<Rightarrow> Inr vs
      | Some n \<Rightarrow> bindE (text_float n) (\<lambda>f. Inr (dict_set key (PFloat f) vs)))"

fun tegra_temps :: "(string \<times> string) list \<Rightarrow> (string, pyval) dict \<Rightarrow> (string, pyval) dict result" where
  "tegra_temps [] vs = Inr vs"
| "tegra_temps ((sensor, t) # ts) vs =
     bindE (text_float t) (\<lambda>f. tegra_temps ts (dict_set (''temperature.'' @ sanitize_name sensor @ ''.c'') (PFloat f) vs))"

fun tegra_rails :: "(string \<times> string \<times> string) list \<Rightarrow> (string, pyval) dict \<Rightarrow> (string, pyval) dict result" where
  "tegra_rails [] vs = Inr vs"
| "tegra_rails ((rail, c, a) # ps) vs =
     (let base = ''power.'' @ sanitize_name (lower rail) in
      bindE (text_float c) (\<lambda>fc. bindE (text_float a) (\<lambda>fa.
        tegra_rails ps (dict_set (base @ ''.average_mw'') (PFloat fa) (dict_set (base @ ''.current_mw'') (PFloat fc) vs)))))"

definition parse_tegrastats :: "string \<Rightarrow> (string, pyfloat) dict result" where
  "parse_tegrastats text =
     bindE (tegra_ratio ''RAM'' ''ram'' text []) (\<lambda>v1.
     bindE (tegra_ratio ''SWAP'' ''swap'' text v1) (\<lambda>v2.
     bindE (tegra_cpu text v2) (\<lambda>v3.
     bindE (tegra_field ''EMC_FREQ'' ''emc.utilization.percent'' text v3) (\<lambda>v4.
     bindE (tegra_field ''GR3D_FREQ'' ''gpu.utilization.percent'' text v4) (\<lambda>v5.
     bindE (tegra_temps (re_findall True match_temp None text) v5) (\<lambda>v6.
     bindE (tegra_rails (re_findall True match_power None text) v6) finite_values))))))"

subsection \<open>The text of a matched number reads as a float\<close>

definition digits :: "string \<Rightarrow> bool" where
  "digits ds = (ds \<noteq> [] \<and> (\<forall>c \<in> set ds. is_digit c))"

definition fraction :: "string \<Rightarrow> bool" where
  "fraction t = (t = [] \<or> (\<exists>fs. t = CHR ''.'' # fs \<and> digits fs))"

lemma digits_takeWhile: "takeWhile is_digit s \<noteq> [] \<Longrightarrow> digits (takeWhile is_digit s)"
  by (auto simp: digits_def dest: set_takeWhileD)

lemma number_text: "number s = Some (n, r) \<Longrightarrow> \<exists>ds t. n = ds @ t \<and> digits ds \<and> fraction t"
proof -
  assume n: "number s = Some (n, r)"
  let ?ds = "takeWhile is_digit s" and ?fs = "takeWhile is_digit (tl (dropWhile is_digit s))"
  have ds: "digits ?ds" using n digits_takeWhile by (auto simp: number_def Let_def split: if_splits)
  from n consider "n = ?ds" | "n = ?ds @ CHR ''.'' # ?fs" "?fs \<noteq> []"
    by (auto simp: number_def Let_def split: if_splits)
  then show ?thesis
  proof cases
    case 1
    then show ?thesis using ds by (intro exI [of _ ?ds] exI [of _ "[]"]) (simp add: fraction_def)
  next
    case 2
    then show ?thesis using ds digits_takeWhile by (intro exI [of _ ?ds] exI [of _ "CHR ''.'' # ?fs"]) (auto simp: fraction_def)
  qed
qed

lemma digit_num_char: "is_digit c \<Longrightarrow> is_num_char c"
  by (simp add: is_num_char_def)

lemma dot_not_num [simp]: "\<not> is_num_char (CHR ''.'')"
  by (simp add: is_num_char_def is_digit_def code_pt_def)

lemma digits_ok: "digits ds \<Longrightarrow> ok_digits ds"
  by (simp add: digits_def ok_digits_all)

lemma takeWhile_digits: "digits ds \<Longrightarrow> takeWhile is_num_char (ds @ t) = ds @ takeWhile is_num_char t"
  and dropWhile_digits: "digits ds \<Longrightarrow> dropWhile is_num_char (ds @ t) = dropWhile is_num_char t"
  by (simp_all add: digits_def digit_num_char takeWhile_append2 dropWhile_append2)

lemma parse_decimal_number: "digits ds \<Longrightarrow> fraction t \<Longrightarrow> \<exists>x. parse_decimal (ds @ t) = Some x"
proof -
  assume ds: "digits ds" and t: "fraction t"
  have ne: "ds \<noteq> []" using ds by (simp add: digits_def)
  show ?thesis
  proof (cases "t = []")
    case True
    have "takeWhile is_num_char ds = ds" "dropWhile is_num_char ds = []"
      using takeWhile_digits [OF ds, of "[]"] dropWhile_digits [OF ds, of "[]"] by simp_all
    then show ?thesis using True ds ne
      by (simp add: parse_decimal_def opt_digits_def digits_ok parse_exponent_def Let_def
          del: takeWhile_eq_all_conv dropWhile_eq_Nil_conv)
  next
    case False
    then obtain fs where fs: "t = CHR ''.'' # fs" "digits fs" using t by (auto simp: fraction_def)
    have "takeWhile is_num_char fs = fs" "dropWhile is_num_char fs = []"
      using takeWhile_digits [OF fs(2), of "[]"] dropWhile_digits [OF fs(2), of "[]"] by simp_all
    then show ?thesis using ds fs ne
      by (simp add: parse_decimal_def takeWhile_digits dropWhile_digits opt_digits_def digits_ok parse_exponent_def Let_def
          del: takeWhile_eq_all_conv dropWhile_eq_Nil_conv)
  qed
qed

lemma number_chars: "digits ds \<Longrightarrow> fraction t \<Longrightarrow> c \<in> set (ds @ t) \<Longrightarrow> is_digit c \<or> c = CHR ''.''"
  by (auto simp: digits_def fraction_def)

lemma parse_float_number:
  assumes "digits ds" and "fraction t" and "sign = [] \<or> sign = ''-''"
  shows "\<exists>f. text_float (sign @ ds @ t) = Inr f \<and> f \<noteq> NaN"
proof -
  let ?r = "ds @ t"
  obtain c cs where r: "?r = c # cs" and c: "is_digit c" using assms(1) by (cases ds) (auto simp: digits_def)
  have sp: "\<not> is_space d" if "d \<in> set (sign @ ?r)" for d
  proof -
    have "is_digit d \<or> d \<in> {CHR ''.'', CHR ''-''}" using that assms(3) number_chars [OF assms(1,2), of d] by auto
    moreover have "\<not> is_space (CHR ''.'')" by (simp add: is_space_def code_pt_def)
    ultimately show ?thesis using digit_not_space by auto
  qed
  then have st: "strip (sign @ ?r) = sign @ ?r" unfolding strip_def by (intro strip_by_none) auto
  have sg: "split_sign (sign @ ?r) = (sign = ''-'', ?r)"
    using assms(3) c digit_not_sign [OF c] by (auto simp: split_sign_def r)
  have "to_lower c = c" "c \<noteq> CHR ''i''" "c \<noteq> CHR ''n''" using c by (auto simp: to_lower_def is_digit_def code_pt_def)
  then have w: "lower ?r \<noteq> ''inf''" "lower ?r \<noteq> ''infinity''" "lower ?r \<noteq> ''nan''" by (auto simp: r)
  obtain x where "parse_decimal ?r = Some x" using parse_decimal_number [OF assms(1,2)] by blast
  then have "parse_float (sign @ ?r) = Some (to_pyfloat (if sign = ''-'' then - x else x))"
    unfolding parse_float_def st sg Let_def using w by simp
  then show ?thesis by (auto simp: text_float_def to_pyfloat_def)
qed

text \<open>A text that reads as a float that is a number.\<close>

definition numeric :: "string \<Rightarrow> bool" where
  "numeric t = (\<exists>f. text_float t = Inr f \<and> f \<noteq> NaN)"

lemma number_numeric: "number s = Some (n, r) \<Longrightarrow> sign = [] \<or> sign = ''-'' \<Longrightarrow> numeric (sign @ n)"
  by (drule number_text) (auto simp: numeric_def dest: parse_float_number)

lemma number_numeric0: "number s = Some (n, r) \<Longrightarrow> numeric n"
  using number_numeric [of s n r "[]"] by simp

lemma re_search_match: "re_search bnd m before s = Some r \<Longrightarrow> \<exists>s'. m s' = Some r"
  by (induction bnd m before s rule: re_search.induct) (auto split: option.splits if_splits)

lemma re_findall_match: "v \<in> set (re_findall bnd m before s) \<Longrightarrow> \<exists>s' d rest. m s' = Some (v, d, rest)"
  by (induction bnd m before s rule: re_findall.induct) (auto split: option.splits if_splits)

lemma match_ratio_numeric: "match_ratio w s = Some (u, t) \<Longrightarrow> numeric u \<and> numeric t"
  by (auto simp: match_ratio_def bind_eq_Some_conv dest: number_numeric0)

lemma match_percent_numeric: "match_percent s = Some (n, d, r) \<Longrightarrow> numeric n"
  by (auto simp: match_percent_def bind_eq_Some_conv dest: number_numeric0)

lemma match_field_numeric: "match_field w s = Some n \<Longrightarrow> numeric n"
  by (auto simp: match_field_def bind_eq_Some_conv dest: number_numeric0)

lemma match_temp_numeric: "match_temp s = Some ((k, t), d, r) \<Longrightarrow> numeric t"
  by (auto simp: match_temp_def bind_eq_Some_conv Let_def dest: number_numeric number_numeric0 split: if_splits)

lemma match_power_numeric: "match_power s = Some ((k, c, a), d, r) \<Longrightarrow> numeric c \<and> numeric a"
  by (auto simp: match_power_def bind_eq_Some_conv dest: number_numeric0 split: if_splits)

text \<open>Dictionaries of floats under names that are not empty; no step of the parser raises on them.\<close>

definition float_dict :: "(string, pyval) dict \<Rightarrow> bool" where
  "float_dict vs = (named vs \<and> (\<forall>v \<in> set (map snd vs). \<exists>f. v = PFloat f))"

lemma float_dict_Nil [simp]: "float_dict []"
  by (simp add: float_dict_def)

lemma float_dict_set: "float_dict vs \<Longrightarrow> k \<noteq> [] \<Longrightarrow> float_dict (dict_set k (PFloat f) vs)"
  unfolding float_dict_def named_set using vals_dict_set [of k "PFloat f" vs] by blast

lemma tegra_ratio_ok: "float_dict vs \<Longrightarrow> \<exists>vs'. tegra_ratio w key text vs = Inr vs' \<and> float_dict vs'"
proof (cases "re_search True (match_ratio w) None text")
  case (Some ut)
  obtain u t where ut: "ut = (u, t)" by fastforce
  obtain s' where "match_ratio w s' = Some (u, t)" using re_search_match [OF Some] ut by auto
  then obtain fu ft where f: "text_float u = Inr fu" "text_float t = Inr ft"
    using match_ratio_numeric [of w s' u t] by (auto simp: numeric_def)
  show "float_dict vs \<Longrightarrow> ?thesis" by (simp add: tegra_ratio_def Some ut f float_dict_set)
qed (simp add: tegra_ratio_def)

lemma tegra_cpu_ok: "float_dict vs \<Longrightarrow> \<exists>vs'. tegra_cpu text vs = Inr vs' \<and> float_dict vs'"
proof (cases "re_search True match_cpu None text")
  case (Some cores)
  have "\<exists>f. text_float n = Inr f" if "n \<in> set (re_findall False match_percent None cores)" for n
    using re_findall_match [OF that] match_percent_numeric by (fastforce simp: numeric_def)
  then obtain g where "\<And>n. n \<in> set (re_findall False match_percent None cores) \<Longrightarrow> text_float n = Inr (g n)" by metis
  then have "mapE text_float (re_findall False match_percent None cores) = Inr (map g (re_findall False match_percent None cores))"
    by (rule mapE_map)
  then show "float_dict vs \<Longrightarrow> ?thesis" by (auto simp: tegra_cpu_def Some intro!: float_dict_set)
qed (simp add: tegra_cpu_def)

lemma tegra_field_ok: "float_dict vs \<Longrightarrow> key \<noteq> [] \<Longrightarrow> \<exists>vs'. tegra_field w key text vs = Inr vs' \<and> float_dict vs'"
proof (cases "re_search True (match_field w) None text")
  case (Some n)
  then obtain s' where "match_field w s' = Some n" using re_search_match [OF Some] by auto
  then obtain f where "text_float n = Inr f" using match_field_numeric [of w s' n] by (auto simp: numeric_def)
  then show "float_dict vs \<Longrightarrow> key \<noteq> [] \<Longrightarrow> ?thesis" by (simp add: tegra_field_def Some float_dict_set)
qed (simp add: tegra_field_def)

lemma tegra_temps_ok: "(\<And>k t. (k, t) \<in> set ts \<Longrightarrow> numeric t) \<Longrightarrow> float_dict vs \<Longrightarrow> \<exists>vs'. tegra_temps ts vs = Inr vs' \<and> float_dict vs'"
proof (induction ts vs rule: tegra_temps.induct)
  case (2 sensor t ts vs)
  obtain f where f: "text_float t = Inr f" using 2(2) [of sensor t] by (auto simp: numeric_def)
  show ?case using 2(1) [of f] 2(2,3) by (auto simp: f float_dict_set)
qed simp

lemma tegra_rails_ok:
  "(\<And>k c a. (k, c, a) \<in> set ps \<Longrightarrow> numeric c \<and> numeric a) \<Longrightarrow> float_dict vs \<Longrightarrow> \<exists>vs'. tegra_rails ps vs = Inr vs' \<and> float_dict vs'"
proof (induction ps vs rule: tegra_rails.induct)
  case (2 rail c a ps vs)
  obtain fc fa where f: "text_float c = Inr fc" "text_float a = Inr fa" using 2(2) [of rail c a] by (auto simp: numeric_def)
  show ?case using 2(1) [OF refl, of fa fc] 2(2,3) by (auto simp: f float_dict_set Let_def)
qed simp

lemma finite_values_total: "float_dict vs \<Longrightarrow> \<exists>out. finite_values vs = Inr out"
proof -
  have "\<forall>v \<in> set (map snd vs). \<exists>f. v = PFloat f \<Longrightarrow> \<exists>out. finite_loop vs out0 = Inr out" for out0
    by (induction vs arbitrary: out0) auto
  then show "float_dict vs \<Longrightarrow> ?thesis" by (simp add: float_dict_def finite_values_def)
qed

text \<open>The dictionary before the filter, and the parser as the filter of it.\<close>

lemma parse_tegrastats_ok: "\<exists>vs out. float_dict vs \<and> finite_values vs = Inr out \<and> parse_tegrastats text = Inr out"
proof -
  obtain v1 where 1: "tegra_ratio ''RAM'' ''ram'' text [] = Inr v1" "float_dict v1" using tegra_ratio_ok float_dict_Nil by blast
  obtain v2 where 2: "tegra_ratio ''SWAP'' ''swap'' text v1 = Inr v2" "float_dict v2" using tegra_ratio_ok 1 by blast
  obtain v3 where 3: "tegra_cpu text v2 = Inr v3" "float_dict v3" using tegra_cpu_ok 2 by blast
  obtain v4 where 4: "tegra_field ''EMC_FREQ'' ''emc.utilization.percent'' text v3 = Inr v4" "float_dict v4"
    using tegra_field_ok [OF 3(2), of "''emc.utilization.percent''"] by auto
  obtain v5 where 5: "tegra_field ''GR3D_FREQ'' ''gpu.utilization.percent'' text v4 = Inr v5" "float_dict v5"
    using tegra_field_ok [OF 4(2), of "''gpu.utilization.percent''"] by auto
  obtain v6 where 6: "tegra_temps (re_findall True match_temp None text) v5 = Inr v6" "float_dict v6"
    using tegra_temps_ok [OF _ 5(2)] re_findall_match match_temp_numeric by metis
  obtain v7 where 7: "tegra_rails (re_findall True match_power None text) v6 = Inr v7" "float_dict v7"
    using tegra_rails_ok [OF _ 6(2)] re_findall_match match_power_numeric by metis
  obtain out where "finite_values v7 = Inr out" using finite_values_total 7(2) by blast
  then show ?thesis using 1 2 3 4 5 6 7 by (auto simp: parse_tegrastats_def)
qed

subsection \<open>Printing and reading a scheduler table\<close>

abbreviation newline :: char where "newline \<equiv> CHR 0x0A"

definition no_space :: "string \<Rightarrow> bool" where
  "no_space w = (w \<noteq> [] \<and> (\<forall>c \<in> set w. \<not> is_space c))"

lemma line_break_space: "is_line_break c \<Longrightarrow> is_space c"
  by (auto simp: is_line_break_def is_space_def Let_def)

lemma newline_break [simp]: "is_line_break newline" "code_pt newline = 10"
  by (simp_all add: is_line_break_def code_pt_def)

lemma splitlines_aux_line:
  "\<forall>c \<in> set l. \<not> is_line_break c \<Longrightarrow> splitlines_aux cur (l @ newline # s) = (rev cur @ l) # splitlines_aux [] s"
proof (induction l arbitrary: cur)
  case Nil
  then show ?case by (cases s) simp_all
next
  case (Cons c l)
  have "code_pt c \<noteq> 13" using Cons.prems by (auto simp: is_line_break_def)
  moreover obtain d t where "l @ newline # s = d # t" by (cases "l @ newline # s") auto
  ultimately show ?case using Cons.IH [of "c # cur"] Cons.prems by simp
qed

lemma splitlines_lines:
  "(\<And>l c. l \<in> set ls \<Longrightarrow> c \<in> set l \<Longrightarrow> \<not> is_line_break c) \<Longrightarrow> splitlines (concat (map (\<lambda>l. l @ [newline]) ls)) = ls"
proof (induction ls)
  case (Cons l ls)
  have "\<forall>c \<in> set l. \<not> is_line_break c" using Cons.prems by auto
  then show ?case using Cons splitlines_aux_line [of l "[]"] by (auto simp: splitlines_def)
qed (simp add: splitlines_def)

lemma split_ws_max_word:
  assumes "no_space w" and "is_space b"
  shows "split_ws_max (Suc n) (w @ b # s) = w # split_ws_max n s"
proof -
  obtain c cs where w: "w = c # cs" using assms(1) by (cases w) (auto simp: no_space_def)
  have t: "takeWhile (\<lambda>x. \<not> is_space x) (w @ b # s) = w" "dropWhile (\<lambda>x. \<not> is_space x) (w @ b # s) = b # s"
    using assms by (simp_all add: no_space_def takeWhile_append2 dropWhile_append2)
  have "dropWhile is_space (w @ b # s) = w @ b # s" using assms(1) by (simp add: w no_space_def)
  then have "split_ws_max (Suc n) (w @ b # s) = w # split_ws_max n (b # s)"
    using t by (subst split_ws_max.simps) (simp add: w)
  also have "split_ws_max n (b # s) = split_ws_max n s"
    using assms(2) by (subst (1 2) split_ws_max.simps) simp
  finally show ?thesis .
qed

lemma split_ws_max_rest: "s \<noteq> [] \<Longrightarrow> \<not> is_space (hd s) \<Longrightarrow> split_ws_max 0 s = [s]"
  by (subst split_ws_max.simps) (cases s; simp)

text \<open>A row of the table: the text of the load, and a name without white space around it.\<close>

record xeno_line =
  xl_cpu :: int
  xl_pid :: int
  xl_msw :: int
  xl_load :: string
  xl_name :: string

definition xeno_line_ok :: "xeno_line \<Rightarrow> bool" where
  "xeno_line_ok r = (no_space (xl_load r) \<and> parse_float (xl_load r) \<noteq> None \<and> xl_name r \<noteq> [] \<and>
     \<not> is_space (hd (xl_name r)) \<and> \<not> is_space (last (xl_name r)) \<and> (\<forall>c \<in> set (xl_name r). \<not> is_line_break c))"

definition line_text :: "xeno_line \<Rightarrow> string" where
  "line_text r = show_int (xl_cpu r) @ CHR '' '' # show_int (xl_pid r) @ CHR '' '' # show_int (xl_msw r) @ CHR '' '' #
     xl_load r @ CHR '' '' # xl_name r"

definition xeno_table :: "xeno_line list \<Rightarrow> string" where
  "xeno_table rows = concat (map (\<lambda>l. l @ [newline]) (''CPU PID MSW %CPU NAME'' # map line_text rows))"

definition xeno_entry :: "xeno_line \<Rightarrow> XenomaiSchedEntry" where
  "xeno_entry r = \<lparr>xe_cpu = xl_cpu r, xe_pid = xl_pid r, xe_msw = xl_msw r, xe_load = the (parse_float (xl_load r)), xe_name = xl_name r\<rparr>"

lemma show_int_no_space: "no_space (show_int i)"
  using show_int_chars digit_not_space by (fastforce simp: no_space_def show_int_def)

definition plain_columns :: xeno_columns where
  "plain_columns = \<lparr>xc_cpu = 0, xc_pid = 1, xc_msw = 2, xc_name = 4, xc_load = 3\<rparr>"

lemma xeno_header_plain: "xeno_header ''CPU PID MSW %CPU NAME'' = Inr plain_columns"
proof -
  have w: "no_space ''CPU''" "no_space ''PID''" "no_space ''MSW''" "no_space ''%CPU''"
    by (simp_all add: no_space_def is_space_def code_pt_def)
  have b: "is_space (CHR '' '')" by (simp add: is_space_def code_pt_def)
  have n: "takeWhile (\<lambda>x. \<not> is_space x) ''NAME'' = ''NAME''" "dropWhile (\<lambda>x. \<not> is_space x) ''NAME'' = []"
    "dropWhile is_space ''NAME'' = ''NAME''" by (simp_all add: is_space_def code_pt_def)
  have last: "split_ws_max (Suc k) ''NAME'' = [''NAME'']" for k
    using n by (subst split_ws_max.simps) (simp, subst split_ws_max.simps, simp split: nat.splits)
  have len: "length ''CPU PID MSW %CPU NAME'' = 21" by simp
  have "split_ws ''CPU PID MSW %CPU NAME'' = [''CPU'', ''PID'', ''MSW'', ''%CPU'', ''NAME'']"
    using split_ws_max_word [OF w(1) b, of 20 "''PID MSW %CPU NAME''"] split_ws_max_word [OF w(2) b, of 19 "''MSW %CPU NAME''"]
      split_ws_max_word [OF w(3) b, of 18 "''%CPU NAME''"] split_ws_max_word [OF w(4) b, of 17 "''NAME''"] last [of 16]
    unfolding split_ws_def len by simp
  moreover have "upper ''CPU PID MSW %CPU NAME'' = ''CPU PID MSW %CPU NAME''" by (simp add: to_upper_def code_pt_def)
  ultimately show ?thesis by (simp add: xeno_header_def plain_columns_def Let_def)
qed

lemma xeno_row_line:
  assumes "xeno_line_ok r"
  shows "xeno_row plain_columns (line_text r) = (if is_irq (xl_name r) then None else Some (xeno_entry r))"
proof -
  have b: "is_space (CHR '' '')" by (simp add: is_space_def code_pt_def)
  have l: "no_space (xl_load r)" and f: "parse_float (xl_load r) \<noteq> None" using assms by (simp_all add: xeno_line_ok_def)
  have "split_ws_max 0 (xl_name r) = [xl_name r]" by (rule split_ws_max_rest) (use assms in \<open>simp_all add: xeno_line_ok_def\<close>)
  then have fs: "split_ws_max 4 (line_text r) = [show_int (xl_cpu r), show_int (xl_pid r), show_int (xl_msw r), xl_load r, xl_name r]"
    unfolding line_text_def
    by (simp add: split_ws_max_word [OF _ b] show_int_no_space l numeral_eq_Suc)
  have "strip (xl_name r) = xl_name r" unfolding strip_def using assms by (intro strip_by_id) (simp_all add: xeno_line_ok_def)
  then show ?thesis using f by (auto simp: xeno_row_def plain_columns_def fs item_def xeno_entry_def)
qed

subsection \<open>Properties\<close>

text \<open>C25: The tegrastats parser takes any text, from any release of the tool: it never raises, and what it
  returns has each name once, no empty name, and finite numbers only.\<close>

theorem tegrastats_parser_total:
  "\<exists>out. parse_tegrastats line = Inr out \<and> all_finite out \<and> wf_dict out \<and> named out"
  using parse_tegrastats_ok [of line] by (auto simp: float_dict_def)

text \<open>C24: Reading back a printed scheduler table gives its rows, in order, without those of interrupt
  handlers, for rows whose load is the text of a number and whose names have no line break and
  no white space around them.\<close>

theorem xenomai_table_roundtrip:
  assumes "\<forall>r \<in> set rows. xeno_line_ok r"
  shows "parse_xenomai_sched_stat (xeno_table rows) = Inr (map xeno_entry (filter (\<lambda>r. \<not> is_irq (xl_name r)) rows))"
proof -
  let ?h = "''CPU PID MSW %CPU NAME''"
  have sp: "\<not> is_line_break c" if "no_space w" "c \<in> set w" for w c using that line_break_space by (auto simp: no_space_def)
  have b: "\<not> is_line_break (CHR '' '')" by (simp add: is_line_break_def code_pt_def)
  have "\<not> is_line_break c" if "r \<in> set rows" "c \<in> set (line_text r)" for r c
    using that assms sp [OF show_int_no_space] sp [of "xl_load r"] b by (auto simp: line_text_def xeno_line_ok_def)
  moreover have "\<not> is_line_break c" if "c \<in> set ?h" for c using that by (auto simp: is_line_break_def code_pt_def)
  ultimately have sl: "splitlines (xeno_table rows) = ?h # map line_text rows"
    unfolding xeno_table_def by (intro splitlines_lines) auto
  have st: "strip (line_text r) = line_text r \<and> line_text r \<noteq> []" if "r \<in> set rows" for r
  proof -
    have ne: "show_int (xl_cpu r) \<noteq> []" "\<not> is_space (hd (show_int (xl_cpu r)))"
      using show_int_no_space [of "xl_cpu r"] by (auto simp: no_space_def)
    have "last (line_text r) = last (xl_name r)" "xl_name r \<noteq> []" "\<not> is_space (last (xl_name r))"
      using that assms by (auto simp: line_text_def xeno_line_ok_def)
    then show ?thesis unfolding strip_def using ne by (intro conjI strip_by_id) (auto simp: line_text_def)
  qed
  have h: "strip ?h = ?h" unfolding strip_def by (rule strip_by_id) (simp_all add: is_space_def code_pt_def)
  have "filter (\<lambda>l. l \<noteq> []) (map strip (map line_text rows)) = map line_text rows"
    using st by (intro trans [OF filter_True]) (auto simp: map_idI)
  then have ls: "filter (\<lambda>l. l \<noteq> []) (map strip (splitlines (xeno_table rows))) = ?h # map line_text rows"
    unfolding sl using h by simp
  have "List.map_filter (xeno_row plain_columns) (map line_text rows) = map xeno_entry (filter (\<lambda>r. \<not> is_irq (xl_name r)) rows)"
    using assms by (induction rows) (simp_all add: List.map_filter_simps xeno_row_line)
  then show ?thesis by (simp add: parse_xenomai_sched_stat_def ls xeno_header_plain)
qed

theorem xenomai_table_roundtrip_witness:
  "parse_xenomai_sched_stat (xeno_table
     [\<lparr>xl_cpu = 0, xl_pid = 12, xl_msw = 3, xl_load = ''1.5'', xl_name = ''rt loop''\<rparr>,
      \<lparr>xl_cpu = 1, xl_pid = 0, xl_msw = 0, xl_load = ''0'', xl_name = ''[IRQ16: can]''\<rparr>]) =
   Inr [\<lparr>xe_cpu = 0, xe_pid = 12, xe_msw = 3, xe_load = Fin (3 / 2), xe_name = ''rt loop''\<rparr>]"
proof -
  let ?r = "\<lparr>xl_cpu = 0, xl_pid = 12, xl_msw = 3, xl_load = ''1.5'', xl_name = ''rt loop''\<rparr>"
  let ?q = "\<lparr>xl_cpu = 1, xl_pid = 0, xl_msw = 0, xl_load = ''0'', xl_name = ''[IRQ16: can]''\<rparr>"
  have f: "parse_float ''1.5'' = Some (Fin (3 / 2))" "parse_float ''0'' = Some (Fin 0)"
    by (simp_all add: parse_float_def strip_def strip_by_def is_space_def code_pt_def split_sign_def to_lower_def
        parse_decimal_def is_num_char_def is_digit_def opt_digits_def parse_exponent_def us_digits_val_def digits_val_def
        digit_val_def pow10_def to_pyfloat_def float_bound_def Let_def)
  have ok: "\<forall>r \<in> set [?r, ?q]. xeno_line_ok r"
    by (simp add: xeno_line_ok_def no_space_def is_space_def is_line_break_def code_pt_def f)
  have "\<not> is_irq ''rt loop''" "is_irq ''[IRQ16: can]''" by (simp_all add: is_irq_def starts_with_def to_upper_def code_pt_def)
  then show ?thesis using xenomai_table_roundtrip [OF ok] by (simp add: xeno_entry_def f)
qed

end
