(* ===== verification/Command_Collectors.thy ===== *)
theory Command_Collectors
  imports Command_Parsers
begin

text \<open>
  The collectors that ask a tool or a kernel file: NVIDIA GPUs, tegrastats, Xenomai. What the
  command or the file yields or raises is the readings argument. A tool that is not there must
  not be reported on every round, a tool that stops working must: the abstract machine
  \<open>probe_step\<close> says so, the locale \<open>probe_collector\<close> states that a collector refines it and proves
  what follows for any sequence of rounds, and both tool collectors interpret the locale.
\<close>

subsection \<open>NVIDIA GPUs\<close>

record NvidiaGpuCollector =
  gc_config :: HostMonitorConfig
  gc_unsupported :: bool
  gc_succeeded :: bool

definition NvidiaGpuCollector_init :: "HostMonitorConfig \<Rightarrow> NvidiaGpuCollector" where
  "NvidiaGpuCollector_init config = \<lparr>gc_config = config, gc_unsupported = False, gc_succeeded = False\<rparr>"

definition gpu_parse :: "string \<Rightarrow> (int \<times> pyfloat \<times> pyfloat \<times> pyfloat \<times> pyfloat) option" where
  "gpu_parse line =
     (let fs = map strip (split_on (CHR '','') line) in
      if length fs \<noteq> 5 then None
      else do { i \<leftarrow> parse_int (fs ! 0); utilization \<leftarrow> parse_float (fs ! 1); used \<leftarrow> parse_float (fs ! 2);
                whole \<leftarrow> parse_float (fs ! 3); temperature \<leftarrow> parse_float (fs ! 4);
                Some (i, utilization, used, whole, temperature) })"

definition gpu_report :: "ThresholdConfig \<Rightarrow> int \<times> pyfloat \<times> pyfloat \<times> pyfloat \<times> pyfloat \<Rightarrow> MetricSample result" where
  "gpu_report th g =
     (let (i, utilization, used, whole, temperature) = g; gpu = ''gpu.'' @ show_int i in
      bindE (finite_values [(''utilization.percent'', PFloat utilization), (''memory.used_mib'', PFloat used),
               (''memory.total_mib'', PFloat whole), (''temperature.c'', PFloat temperature)]) (\<lambda>vs.
        Inr \<lparr>ms_path = gpu, ms_values = vs,
             ms_alerts = [high_alert (gpu @ ''.temperature'') (''GPU '' @ show_int i @ '' temperature'') temperature
               (th_temp_warn th) (th_temp_error th) celsius],
             ms_summary = ''GPU '' @ show_int i @ '' '' @ fmt_fixed 1 utilization @ ''%, memory '' @ fmt_fixed 0 used @ ''/'' @
               fmt_fixed 0 whole @ '' MiB, '' @ fmt_fixed 1 temperature @ '' '' @ celsius\<rparr>))"

definition gpu_missing :: "py_exc \<Rightarrow> bool" where
  "gpu_missing e = (e \<in> {FileNotFoundError, CalledProcessError, TimeoutExpired})"

text \<open>The argument is what running the command yields: its output, or the exception raised.\<close>

definition gpu_sample :: "string result \<Rightarrow> NvidiaGpuCollector \<Rightarrow> NvidiaGpuCollector \<times> MetricSample list result" where
  "gpu_sample rd c =
     (if gc_unsupported c then (c, Inr [])
      else (case rd of
              Inl e \<Rightarrow>
                if gpu_missing e then (if \<not> gc_succeeded c then (c\<lparr>gc_unsupported := True\<rparr>, Inr []) else (c, Inl e))
                else (c, Inl e)
            | Inr stdout \<Rightarrow>
                (case mapE (gpu_report (hc_thresholds (gc_config c))) (List.map_filter gpu_parse (splitlines stdout)) of
                   Inl e \<Rightarrow> (c, Inl e)
                 | Inr samples \<Rightarrow> (if samples \<noteq> [] then c\<lparr>gc_succeeded := True\<rparr> else c, Inr samples))))"

subsection \<open>tegrastats\<close>

record TegrastatsCollector =
  tc_config :: HostMonitorConfig
  tc_unsupported :: bool
  tc_succeeded :: bool

definition TegrastatsCollector_init :: "HostMonitorConfig \<Rightarrow> TegrastatsCollector" where
  "TegrastatsCollector_init config = \<lparr>tc_config = config, tc_unsupported = False, tc_succeeded = False\<rparr>"

text \<open>
  Starting the process, waiting for its output to be readable, reading a line; then whether the
  process still runs, and whether it outlives the wait after \<^verbatim>\<open>terminate\<close>.
\<close>

record tegra_readings =
  tr_popen :: "unit result"
  tr_wait :: "bool result"
  tr_line :: "string result"
  tr_running :: bool
  tr_stubborn :: bool

datatype process_op = Terminate | WaitShort | Kill | WaitLong

text \<open>The \<open>finally\<close> block.\<close>

definition stop_process :: "tegra_readings \<Rightarrow> process_op list" where
  "stop_process rd =
     (if tr_running rd then [Terminate, WaitShort] @ (if tr_stubborn rd then [Kill, WaitLong] else []) else [])"

definition tegra_read :: "tegra_readings \<Rightarrow> string result" where
  "tegra_read rd = bindE (tr_wait rd) (\<lambda>readable. if readable then tr_line rd else Inl TimeoutExpired)"

definition tegra_alerts :: "ThresholdConfig \<Rightarrow> (string, pyfloat) dict \<Rightarrow> AlertObservation list" where
  "tegra_alerts th vs =
     (case dict_get vs ''ram.percent'' of
        None \<Rightarrow> []
      | Some p \<Rightarrow> [high_alert ''tegrastats.ram'' ''Jetson RAM usage'' p (th_ram_warn th) (th_ram_error th) ''%'']) @
     List.map_filter (\<lambda>(key, t).
       if starts_with ''temperature.'' key \<and> ends_with ''.c'' key then
         (let sensor = drop (length ''temperature.'') (take (length key - length ''.c'') key) in
          Some (high_alert (''tegrastats.temperature.'' @ sensor) (''Jetson '' @ sensor @ '' temperature'') t
                 (th_temp_warn th) (th_temp_error th) celsius))
       else None) vs"

definition tegra_summary :: "(string, pyfloat) dict \<Rightarrow> string" where
  "tegra_summary vs =
     (let temps = map snd (filter (\<lambda>(key, t). starts_with ''temperature.'' key) vs);
          parts = (case (dict_get vs ''ram.used_mib'', dict_get vs ''ram.total_mib'') of
                     (Some u, Some t) \<Rightarrow> [''RAM '' @ fmt_fixed 0 u @ ''/'' @ fmt_fixed 0 t @ '' MiB''] | _ \<Rightarrow> []) @
                  (case dict_get vs ''cpu.utilization.percent'' of Some p \<Rightarrow> [''CPU '' @ fmt_fixed 1 p @ ''%''] | None \<Rightarrow> []) @
                  (case dict_get vs ''gpu.utilization.percent'' of Some p \<Rightarrow> [''GPU '' @ fmt_fixed 1 p @ ''%''] | None \<Rightarrow> []) @
                  (if temps \<noteq> [] then [''max temp '' @ fmt_fixed 1 (list_max temps) @ '' '' @ celsius] else [])
      in if join '', '' parts \<noteq> [] then join '', '' parts else ''Jetson telemetry available'')"

text \<open>What the collector makes of the line it read.\<close>

definition tegra_report :: "string \<Rightarrow> TegrastatsCollector \<Rightarrow> TegrastatsCollector \<times> MetricSample list result" where
  "tegra_report line c =
     (case (if strip line \<noteq> [] then parse_tegrastats line else Inr []) of
        Inl e \<Rightarrow> (c, Inl e)
      | Inr vs \<Rightarrow>
          (if vs = [] then (c, Inr [])
           else (c\<lparr>tc_succeeded := True\<rparr>,
                 Inr [\<lparr>ms_path = ''tegrastats'', ms_values = vs, ms_alerts = tegra_alerts (hc_thresholds (tc_config c)) vs,
                       ms_summary = tegra_summary vs\<rparr>])))"

definition tegra_give_up :: "py_exc \<Rightarrow> TegrastatsCollector \<Rightarrow> TegrastatsCollector \<times> MetricSample list result" where
  "tegra_give_up e c = (if \<not> tc_succeeded c then (c\<lparr>tc_unsupported := True\<rparr>, Inr []) else (c, Inl e))"

definition tegra_sample :: "tegra_readings \<Rightarrow> TegrastatsCollector \<Rightarrow> TegrastatsCollector \<times> process_op list \<times> MetricSample list result" where
  "tegra_sample rd c =
     (if tc_unsupported c then (c, [], Inr [])
      else (case tr_popen rd of
              Inl e \<Rightarrow> (let (c', r) = (if e = FileNotFoundError then tegra_give_up e c else (c, Inl e)) in (c', [], r))
            | Inr _ \<Rightarrow>
                (let (c', r) = (case tegra_read rd of
                       Inl e \<Rightarrow> if e = TimeoutExpired then tegra_give_up e c else (c, Inl e)
                     | Inr line \<Rightarrow> tegra_report line c)
                 in (c', stop_process rd, r))))"

subsection \<open>Xenomai\<close>

definition xenomai_report :: "XenomaiSchedEntry \<Rightarrow> MetricSample result" where
  "xenomai_report e =
     bindE (finite_values [(''msw.count'', PInt (xe_msw e)), (''load.percent'', PFloat (xe_load e))]) (\<lambda>vs.
       Inr \<lparr>ms_path = ''xenomai.'' @ sanitize_name (xe_name e), ms_values = vs, ms_alerts = [],
            ms_summary = xe_name e @ '': load '' @ fmt_fixed 1 (xe_load e) @ ''%, MSW '' @ show_int (xe_msw e) @
              '' (CPU '' @ show_int (xe_cpu e) @ '', PID '' @ show_int (xe_pid e) @ '')''\<rparr>)"

text \<open>The argument is what reading the file yields.\<close>

definition xenomai_sample :: "string result \<Rightarrow> MetricSample list result" where
  "xenomai_sample rd =
     (case rd of
        Inl e \<Rightarrow> if e = FileNotFoundError then Inr [] else Inl e
      | Inr t \<Rightarrow> bindE (parse_xenomai_sched_stat t) (\<lambda>entries.
          mapE xenomai_report (filter (\<lambda>e. \<not> contains ''ROOT'' (xe_name e)) entries)))"

subsection \<open>Every sample has the right shape\<close>

lemma gpu_report_ok: "gpu_report th g = Inr s \<Longrightarrow> sample_ok s"
  by (cases g) (auto simp: gpu_report_def bindE_Inr_iff sample_ok_def Let_def)

lemma gpu_sample_ok: "snd (gpu_sample rd c) = Inr ss \<Longrightarrow> s \<in> set ss \<Longrightarrow> sample_ok s"
  by (auto simp: gpu_sample_def dest!: mapE_in intro: gpu_report_ok split: sum.splits if_splits)

lemma tegra_alerts_ok: "ob \<in> set (tegra_alerts th vs) \<Longrightarrow> obs_ok error_key ob"
  by (auto simp: tegra_alerts_def List.map_filter_def Let_def split: option.splits if_splits)

lemma tegra_report_ok: "snd (tegra_report line c) = Inr ss \<Longrightarrow> s \<in> set ss \<Longrightarrow> sample_ok s"
  using parse_tegrastats_ok [of line] tegra_alerts_ok
  by (auto simp: tegra_report_def sample_ok_def float_dict_def split: if_splits)

lemma tegra_sample_ok: "snd (snd (tegra_sample rd c)) = Inr ss \<Longrightarrow> s \<in> set ss \<Longrightarrow> sample_ok s"
  by (auto simp: tegra_sample_def tegra_give_up_def Let_def split: sum.splits if_splits prod.splits)
    (use tegra_report_ok in \<open>metis snd_conv\<close>)

lemma xenomai_report_ok: "xenomai_report e = Inr s \<Longrightarrow> sample_ok s"
  by (auto simp: xenomai_report_def bindE_Inr_iff sample_ok_def)

lemma xenomai_sample_ok: "xenomai_sample rd = Inr ss \<Longrightarrow> s \<in> set ss \<Longrightarrow> sample_ok s"
  by (auto simp: xenomai_sample_def bindE_Inr_iff dest!: mapE_in intro: xenomai_report_ok split: sum.splits if_splits)

subsection \<open>Probing for a tool: the abstract machine\<close>

text \<open>
  Before the first success a tool counts as untried. A failure that means it is missing then
  makes it unsupported for good, silently; once it has worked, every failure is raised.
\<close>

datatype probe = Untried | Working | Unsupported

datatype probe_event = Skipped | Found | Nothing | GaveUp | Raised py_exc

inductive probe_step :: "bool \<Rightarrow> probe \<Rightarrow> probe_event \<Rightarrow> probe \<Rightarrow> bool" where
  skip: "probe_step missing Unsupported Skipped Unsupported"
| found: "p \<noteq> Unsupported \<Longrightarrow> probe_step False p Found Working"
| nothing: "p \<noteq> Unsupported \<Longrightarrow> probe_step False p Nothing p"
| give_up: "probe_step True Untried GaveUp Unsupported"
| lost: "probe_step True Working (Raised e) Working"
| other: "p \<noteq> Unsupported \<Longrightarrow> probe_step False p (Raised e) p"

inductive_cases probe_stepE: "probe_step missing p ev q"
inductive_simps probe_step_unsupported [simp]: "probe_step missing Unsupported ev q"
inductive_simps probe_step_missing: "probe_step True Untried ev q"

text \<open>What a round shows of an event.\<close>

fun shows_as :: "probe_event \<Rightarrow> MetricSample list result \<Rightarrow> bool" where
  "shows_as Found r = (\<exists>ss. r = Inr ss \<and> ss \<noteq> [])"
| "shows_as (Raised e) r = (r = Inl e)"
| "shows_as _ r = (r = Inr [])"

text \<open>The results of a sequence of rounds, one per reading.\<close>

fun rounds :: "('r \<Rightarrow> 's \<Rightarrow> 's \<times> 'a) \<Rightarrow> 'r list \<Rightarrow> 's \<Rightarrow> 'a list" where
  "rounds step [] s = []"
| "rounds step (rd # rds) s = snd (step rd s) # rounds step rds (fst (step rd s))"

lemma length_rounds [simp]: "length (rounds step rds s) = length rds"
  by (induction rds arbitrary: s) auto

locale probe_collector =
  fixes sample :: "'r \<Rightarrow> 's \<Rightarrow> 's \<times> MetricSample list result"
    and phase :: "'s \<Rightarrow> probe"
    and missing :: "'r \<Rightarrow> bool"
  assumes refines: "\<exists>ev. probe_step (missing rd) (phase s) ev (phase (fst (sample rd s))) \<and> shows_as ev (snd (sample rd s))"
begin

lemma gives_up: "phase s = Untried \<Longrightarrow> missing rd \<Longrightarrow> phase (fst (sample rd s)) = Unsupported \<and> snd (sample rd s) = Inr []"
  using refines [of rd s] by (auto simp: probe_step_missing)

lemma unsupported_stays: "phase s = Unsupported \<Longrightarrow> phase (fst (sample rd s)) = Unsupported \<and> snd (sample rd s) = Inr []"
  using refines [of rd s] by auto

lemma unsupported_silent: "phase s = Unsupported \<Longrightarrow> r \<in> set (rounds sample rds s) \<Longrightarrow> r = Inr []"
proof (induction rds arbitrary: s)
  case (Cons rd rds)
  show ?case using Cons.IH [of "fst (sample rd s)"] Cons.prems unsupported_stays [OF Cons.prems(1), of rd] by auto
qed simp

text \<open>Of a tool that has not worked yet, a round shows samples only by making it a working one.\<close>

lemma untried_round:
  assumes "phase s = Untried"
  shows "(\<exists>ss. snd (sample rd s) = Inr ss \<and> ss \<noteq> []) \<or>
    (phase (fst (sample rd s)) \<noteq> Working \<and> (\<forall>e. snd (sample rd s) = Inl e \<longrightarrow> \<not> missing rd))"
  using refines [of rd s] assms by (auto elim!: probe_stepE)

lemma raised_after_found:
  "phase s \<noteq> Working \<Longrightarrow> n < length rds \<Longrightarrow> rounds sample rds s ! n = Inl e \<Longrightarrow> missing (rds ! n) \<Longrightarrow>
   \<exists>m < n. \<exists>ss. rounds sample rds s ! m = Inr ss \<and> ss \<noteq> []"
proof (induction rds arbitrary: s n)
  case (Cons rd rds)
  show ?case
  proof (cases "phase s")
    case Unsupported
    then have "rounds sample (rd # rds) s ! n = Inr []"
      using unsupported_silent [OF Unsupported, of "rounds sample (rd # rds) s ! n" "rd # rds"] Cons.prems(2) by (metis length_rounds nth_mem)
    then show ?thesis using Cons.prems(3) by simp
  next
    case Untried
    note r = untried_round [OF Untried, of rd]
    show ?thesis
    proof (cases n)
      case 0
      then show ?thesis using r Cons.prems(3,4) by auto
    next
      case (Suc k)
      show ?thesis
      proof (cases "\<exists>ss. snd (sample rd s) = Inr ss \<and> ss \<noteq> []")
        case True
        then show ?thesis using Suc by (intro exI [of _ 0]) auto
      next
        case False
        then have "phase (fst (sample rd s)) \<noteq> Working" using r by blast
        from Cons.IH [OF this, of k] Cons.prems Suc obtain m ss
          where "m < k" "rounds sample rds (fst (sample rd s)) ! m = Inr ss" "ss \<noteq> []" by auto
        then show ?thesis using Suc by (intro exI [of _ "Suc m"]) auto
      qed
    qed
  qed (use Cons.prems in simp)
qed simp

text \<open>A tool that fails as missing before it has ever worked is not reported any more.\<close>

lemma silent_after_failure:
  "phase s \<noteq> Working \<Longrightarrow> n < length rds \<Longrightarrow> missing (rds ! n) \<Longrightarrow> (\<forall>m < n. \<forall>ss. rounds sample rds s ! m = Inr ss \<longrightarrow> ss = []) \<Longrightarrow>
   n \<le> k \<Longrightarrow> k < length rds \<Longrightarrow> rounds sample rds s ! k = Inr []"
proof (induction rds arbitrary: s n k)
  case (Cons rd rds)
  show ?case
  proof (cases "phase s")
    case Unsupported
    then show ?thesis
      using unsupported_silent [OF Unsupported, of "rounds sample (rd # rds) s ! k" "rd # rds"] Cons.prems(6) by (metis length_rounds nth_mem)
  next
    case Untried
    show ?thesis
    proof (cases n)
      case 0
      then have u: "phase (fst (sample rd s)) = Unsupported" and "snd (sample rd s) = Inr []"
        using gives_up [OF Untried] Cons.prems(3) by simp_all
      then show ?thesis using unsupported_silent [OF u, of "rounds sample rds (fst (sample rd s)) ! (k - 1)" rds] Cons.prems(6)
        by (cases k) auto
    next
      case (Suc j)
      have "\<not> (\<exists>ss. snd (sample rd s) = Inr ss \<and> ss \<noteq> [])" using Cons.prems(4) Suc by auto
      then have "phase (fst (sample rd s)) \<noteq> Working" using untried_round [OF Untried, of rd] by blast
      moreover have "\<forall>m < j. \<forall>ss. rounds sample rds (fst (sample rd s)) ! m = Inr ss \<longrightarrow> ss = []" using Cons.prems(4) Suc by auto
      ultimately show ?thesis using Cons.IH [of "fst (sample rd s)" j "k - 1"] Cons.prems Suc by (cases k) auto
    qed
  qed (use Cons.prems in simp)
qed simp

end

subsection \<open>Both tools refine it\<close>

definition gpu_phase :: "NvidiaGpuCollector \<Rightarrow> probe" where
  "gpu_phase c = (if gc_unsupported c then Unsupported else if gc_succeeded c then Working else Untried)"

definition gpu_fails :: "string result \<Rightarrow> bool" where
  "gpu_fails rd = (case rd of Inl e \<Rightarrow> gpu_missing e | Inr t \<Rightarrow> False)"

interpretation gpu: probe_collector gpu_sample gpu_phase gpu_fails
proof
  fix rd c
  show "\<exists>ev. probe_step (gpu_fails rd) (gpu_phase c) ev (gpu_phase (fst (gpu_sample rd c))) \<and> shows_as ev (snd (gpu_sample rd c))"
  proof (cases "gc_unsupported c")
    case True
    then show ?thesis by (intro exI [of _ Skipped]) (simp add: gpu_sample_def gpu_phase_def)
  next
    case False
    then have p: "gpu_phase c \<noteq> Unsupported" by (simp add: gpu_phase_def)
    show ?thesis
    proof (cases rd)
      case (Inl e)
      show ?thesis
      proof (cases "gpu_missing e")
        case True
        then show ?thesis using False Inl probe_step.lost [of e] probe_step.give_up
          by (cases "gc_succeeded c") (auto simp: gpu_sample_def gpu_phase_def gpu_fails_def intro: exI [of _ "Raised e"] exI [of _ GaveUp])
      next
        case nm: False
        then show ?thesis using False Inl probe_step.other [OF p, of e]
          by (intro exI [of _ "Raised e"]) (simp add: gpu_sample_def gpu_fails_def)
      qed
    next
      case (Inr t)
      show ?thesis
      proof (cases "mapE (gpu_report (hc_thresholds (gc_config c))) (List.map_filter gpu_parse (splitlines t))")
        case (Inl e)
        then show ?thesis using False Inr probe_step.other [OF p, of e]
          by (intro exI [of _ "Raised e"]) (simp add: gpu_sample_def gpu_fails_def)
      next
        case m: (Inr ss)
        then show ?thesis using False Inr probe_step.found [OF p] probe_step.nothing [OF p]
          by (cases "ss = []") (auto simp: gpu_sample_def gpu_phase_def gpu_fails_def intro: exI [of _ Found] exI [of _ Nothing])
      qed
    qed
  qed
qed

definition tegra_phase :: "TegrastatsCollector \<Rightarrow> probe" where
  "tegra_phase c = (if tc_unsupported c then Unsupported else if tc_succeeded c then Working else Untried)"

definition tegra_fails :: "tegra_readings \<Rightarrow> bool" where
  "tegra_fails rd = (case tr_popen rd of
      Inl e \<Rightarrow> e = FileNotFoundError
    | Inr u \<Rightarrow> tegra_read rd = Inl TimeoutExpired)"

text \<open>The collector without what it does to the process.\<close>

definition tegra_round :: "tegra_readings \<Rightarrow> TegrastatsCollector \<Rightarrow> TegrastatsCollector \<times> MetricSample list result" where
  "tegra_round rd c = (let (c', ops, r) = tegra_sample rd c in (c', r))"

lemma tegra_round_eq:
  "tegra_round rd c =
     (if tc_unsupported c then (c, Inr [])
      else (case tr_popen rd of
              Inl e \<Rightarrow> if e = FileNotFoundError then tegra_give_up e c else (c, Inl e)
            | Inr _ \<Rightarrow> (case tegra_read rd of
                Inl e \<Rightarrow> if e = TimeoutExpired then tegra_give_up e c else (c, Inl e)
              | Inr line \<Rightarrow> tegra_report line c)))"
  by (simp add: tegra_round_def tegra_sample_def Let_def split: sum.split prod.split)

lemma tegra_round_eqs:
  "tc_unsupported c \<Longrightarrow> tegra_round rd c = (c, Inr [])"
  "\<not> tc_unsupported c \<Longrightarrow> tegra_fails rd \<Longrightarrow> \<exists>e. tegra_round rd c = tegra_give_up e c"
  "\<not> tc_unsupported c \<Longrightarrow> \<not> tegra_fails rd \<Longrightarrow> (\<exists>e. tegra_round rd c = (c, Inl e)) \<or> (\<exists>line. tegra_round rd c = tegra_report line c)"
  by (cases "tr_popen rd"; cases "tegra_read rd"; auto simp: tegra_round_eq tegra_fails_def)+

interpretation tegra: probe_collector tegra_round tegra_phase tegra_fails
proof
  fix rd c
  show "\<exists>ev. probe_step (tegra_fails rd) (tegra_phase c) ev (tegra_phase (fst (tegra_round rd c))) \<and> shows_as ev (snd (tegra_round rd c))"
  proof (cases "tc_unsupported c")
    case True
    then show ?thesis by (intro exI [of _ Skipped]) (simp add: tegra_round_eqs(1) tegra_phase_def)
  next
    case False
    then have p: "tegra_phase c \<noteq> Unsupported" by (simp add: tegra_phase_def)
    show ?thesis
    proof (cases "tegra_fails rd")
      case True
      then obtain e where "tegra_round rd c = tegra_give_up e c" using tegra_round_eqs(2) [OF False] by blast
      then show ?thesis using False True probe_step.lost [of e] probe_step.give_up
        by (cases "tc_succeeded c") (auto simp: tegra_give_up_def tegra_phase_def intro: exI [of _ "Raised e"] exI [of _ GaveUp])
    next
      case nf: False
      consider e where "tegra_round rd c = (c, Inl e)" | line where "tegra_round rd c = tegra_report line c"
        using tegra_round_eqs(3) [OF False nf] by blast
      then show ?thesis
      proof cases
        case (1 e)
        then show ?thesis using nf probe_step.other [OF p, of e] by (intro exI [of _ "Raised e"]) simp
      next
        case (2 line)
        then show ?thesis using False nf probe_step.other [OF p] probe_step.found [OF p] probe_step.nothing [OF p]
          by (auto simp: tegra_report_def tegra_phase_def intro: exI [of _ Found] exI [of _ Nothing] exI [of _ "Raised _"] split: sum.splits)
      qed
    qed
  qed
qed

lemma tool_phases_init:
  "gpu_phase (NvidiaGpuCollector_init config) = Untried" "tegra_phase (TegrastatsCollector_init config) = Untried"
  by (simp_all add: gpu_phase_def NvidiaGpuCollector_init_def tegra_phase_def TegrastatsCollector_init_def)

subsection \<open>Properties\<close>

text \<open>C10: The two tool collectors implement one abstract machine, probing: whatever the command does, a
  round is a step of the machine between the phases the collectors' flags stand for, and its
  result shows the event of that step. So a tool that is missing before it ever worked is
  given up silently, and a tool that worked before raises its failures.\<close>

theorem tools_refine_probing:
  "(\<exists>ev. probe_step (gpu_fails ret) (gpu_phase g) ev (gpu_phase (fst (gpu_sample ret g))) \<and>
     shows_as ev (snd (gpu_sample ret g))) \<and>
   (\<exists>ev. probe_step (tegra_fails rd) (tegra_phase t) ev (tegra_phase (fst (tegra_sample rd t))) \<and>
     shows_as ev (snd (snd (tegra_sample rd t))))"
  using gpu.refines [of ret g] tegra.refines [of rd t] by (simp add: tegra_round_def split: prod.splits)

text \<open>C23: Over any sequence of rounds of the GPU collector from its start: a failure that means the tool is
  missing is raised only in a round after one that delivered samples; and when it comes before
  any samples, that round and every later one return no samples and raise nothing.\<close>

theorem gpu_failures_over_time:
  assumes "n < length rds" and "gpu_fails (rds ! n)"
  shows "let rs = rounds gpu_sample rds (NvidiaGpuCollector_init config); delivered = (\<exists>m < n. \<exists>ss. rs ! m = Inr ss \<and> ss \<noteq> []) in
    ((\<exists>e. rs ! n = Inl e) \<longrightarrow> delivered) \<and> (\<not> delivered \<longrightarrow> (\<forall>k. n \<le> k \<longrightarrow> k < length rds \<longrightarrow> rs ! k = Inr []))"
proof -
  let ?c = "NvidiaGpuCollector_init config"
  have p: "gpu_phase ?c \<noteq> Working" by (simp add: tool_phases_init)
  show ?thesis
    using gpu.raised_after_found [OF p assms(1)] gpu.silent_after_failure [OF p assms] assms(2)
    unfolding Let_def by blast
qed

theorem gpu_failures_over_time_witness:
  "rounds gpu_sample [Inr [], Inl FileNotFoundError, Inr ''0,1,2,3,4''] (NvidiaGpuCollector_init (default_host_config ''h'')) ! 2 = Inr []"
proof -
  let ?rds = "[Inr [], Inl FileNotFoundError, Inr ''0,1,2,3,4'']" and ?c = "NvidiaGpuCollector_init (default_host_config ''h'')"
  have f: "gpu_fails (?rds ! 1)" by (simp add: gpu_fails_def gpu_missing_def)
  have "gpu_sample (Inr []) ?c = (?c, Inr [])"
    by (simp add: gpu_sample_def NvidiaGpuCollector_init_def splitlines_def List.map_filter_simps)
  then have "\<not> (\<exists>m < 1. \<exists>ss. rounds gpu_sample ?rds ?c ! m = Inr ss \<and> ss \<noteq> [])" by auto
  moreover have "1 < length ?rds" "1 \<le> (2::nat)" "2 < length ?rds" by simp_all
  ultimately show ?thesis using gpu_failures_over_time [of 1 ?rds, OF _ f, of "default_host_config ''h''"] unfolding Let_def by blast
qed

text \<open>Whenever tegrastats was started, the process is dealt with on every path out of the round (a
  line read, no output in time, any exception): one that still runs is terminated and waited
  for, and killed if it outlives the wait; one that has ended is left alone. Nothing is done
  when the tool was not started.\<close>

theorem tegrastats_process_stopped:
  "fst (snd (tegra_sample rd c)) =
     (if tc_unsupported c \<or> (\<exists>e. tr_popen rd = Inl e) \<or> \<not> tr_running rd then []
      else if tr_stubborn rd then [Terminate, WaitShort, Kill, WaitLong] else [Terminate, WaitShort])"
  by (auto simp: tegra_sample_def stop_process_def Let_def split: sum.splits prod.splits)

end
