(* ===== verification/Host_Collectors.thy ===== *)
theory Host_Collectors
  imports Sensor_Collectors Rate_Collectors Command_Collectors
begin

text \<open>
  The collectors together: \<open>readings\<close> is what the machine reports to all of them in one round,
  \<open>any_collector\<close> the sum of the classes, \<open>any_sample\<close> the method call on a collector of any class,
  and \<open>build_collectors\<close> the list the configuration enables. The interpretation shows that they
  meet the contract the monitor relies on.
\<close>

record readings =
  rd_system :: system_readings
  rd_cpu :: cpu_readings
  rd_memory :: memory_readings
  rd_temperature :: "(string \<times> sensor_entry list) list result"
  rd_filesystem :: fs_readings
  rd_disk :: "disk_counters option result"
  rd_network :: net_readings
  rd_battery :: "battery_reading option result"
  rd_gpu :: "string result"
  rd_tegra :: tegra_readings
  rd_file :: "string \<Rightarrow> string result"

datatype any_collector =
    CSystem
  | CCpu CpuCollector
  | CMemory HostMonitorConfig
  | CTemperature HostMonitorConfig
  | CFilesystem HostMonitorConfig
  | CDisk DiskIoCollector
  | CNetwork NetworkCollector
  | CBattery HostMonitorConfig
  | CGpu NvidiaGpuCollector
  | CTegra TegrastatsCollector
  | CXenomai string

fun collector_name :: "any_collector \<Rightarrow> string" where
  "collector_name CSystem = ''system''"
| "collector_name (CCpu _) = ''cpu''"
| "collector_name (CMemory _) = ''memory''"
| "collector_name (CTemperature _) = ''temperature''"
| "collector_name (CFilesystem _) = ''filesystem''"
| "collector_name (CDisk _) = ''disk_io''"
| "collector_name (CNetwork _) = ''network''"
| "collector_name (CBattery _) = ''battery''"
| "collector_name (CGpu _) = ''gpu''"
| "collector_name (CTegra _) = ''tegrastats''"
| "collector_name (CXenomai _) = ''xenomai''"

definition lift_state :: "('a \<Rightarrow> any_collector) \<Rightarrow> 'a \<times> 'e \<Rightarrow> any_collector \<times> 'e" where
  "lift_state C r = (C (fst r), snd r)"

fun any_sample :: "readings \<Rightarrow> any_collector \<Rightarrow> pyfloat \<Rightarrow> any_collector \<times> MetricSample list result" where
  "any_sample rd CSystem now = (CSystem, system_sample (rd_system rd))"
| "any_sample rd (CCpu c) now = lift_state CCpu (cpu_sample (rd_cpu rd) c now)"
| "any_sample rd (CMemory config) now = (CMemory config, memory_sample config (rd_memory rd))"
| "any_sample rd (CTemperature config) now = (CTemperature config, temperature_sample config (rd_temperature rd))"
| "any_sample rd (CFilesystem config) now = (CFilesystem config, filesystem_sample config (rd_filesystem rd))"
| "any_sample rd (CDisk c) now = lift_state CDisk (disk_sample (rd_disk rd) c now)"
| "any_sample rd (CNetwork c) now = lift_state CNetwork (net_sample (rd_network rd) c now)"
| "any_sample rd (CBattery config) now = (CBattery config, battery_sample config (rd_battery rd))"
| "any_sample rd (CGpu c) now = lift_state CGpu (gpu_sample (rd_gpu rd) c)"
| "any_sample rd (CTegra c) now = lift_state CTegra (tegra_round (rd_tegra rd) c)"
| "any_sample rd (CXenomai path) now = (CXenomai path, xenomai_sample (rd_file rd path))"

definition candidates :: "HostMonitorConfig \<Rightarrow> (bool \<times> any_collector) list" where
  "candidates config =
     (let enabled = hc_collectors config in
      [(co_system enabled, CSystem),
       (co_cpu enabled, CCpu (CpuCollector_init config)),
       (co_memory enabled, CMemory config),
       (co_temperature enabled, CTemperature config),
       (co_filesystem enabled, CFilesystem config),
       (co_disk_io enabled, CDisk DiskIoCollector_init),
       (co_network enabled, CNetwork (NetworkCollector_init config)),
       (co_battery enabled, CBattery config),
       (co_gpu enabled, CGpu (NvidiaGpuCollector_init config)),
       (co_tegrastats enabled, CTegra (TegrastatsCollector_init config)),
       (co_xenomai enabled, CXenomai (hc_xenomai_path config))])"

definition build_collectors :: "HostMonitorConfig \<Rightarrow> any_collector list" where
  "build_collectors config = map snd (filter fst (candidates config))"

lemma enabled_names:
  "set (map f (map snd (filter fst cs))) = {n. (n, True) \<in> set (map (\<lambda>(b, c). (f c, b)) cs)}"
  by force

lemma enabled_distinct: "distinct (map (\<lambda>p. f (snd p)) cs) \<Longrightarrow> distinct (map f (map snd (filter fst cs)))"
  by (simp add: distinct_map_filter comp_def)

lemma build_collectors_distinct: "distinct (map collector_name (build_collectors config))"
  unfolding build_collectors_def by (rule enabled_distinct) (simp add: candidates_def Let_def)

lemma tegra_round_ok: "snd (tegra_round rd c) = Inr ss \<Longrightarrow> s \<in> set ss \<Longrightarrow> sample_ok s"
  using tegra_sample_ok [of rd c ss s] by (simp add: tegra_round_def split: prod.splits)

interpretation host: collector_contract any_sample collector_name
proof
  show "collector_name (fst (any_sample rd c now)) = collector_name c" for rd c now
    by (cases c) (simp_all add: lift_state_def)
  show "sample_ok s" if "snd (any_sample rd c now) = Inr ss" "s \<in> set ss" for rd c now ss s
    using that by (cases c)
      (auto simp: lift_state_def intro: system_sample_ok cpu_sample_ok memory_sample_ok temperature_sample_ok filesystem_sample_ok
        battery_sample_ok gpu_sample_ok tegra_round_ok xenomai_sample_ok dest: disk_sample_shape net_sample_shape)
qed

subsection \<open>Properties\<close>

text \<open>C15: Every sample any collector returns, whatever the machine reports, can be published and
  evaluated: its values are finite numbers under distinct names that are not empty, and each
  alert has a known direction and an ERROR threshold exactly when it is not the network's.\<close>

theorem collector_samples_shape:
  assumes "snd (any_sample rd c now) = Inr ss" and "s \<in> set ss"
  shows "(\<forall>k f. (k, f) \<in> set (ms_values s) \<longrightarrow> k \<noteq> [] \<and> isfinite f) \<and> distinct (map fst (ms_values s)) \<and>
    (\<forall>ob \<in> set (ms_alerts s). ob_direction ob \<in> {''high'', ''low''} \<and>
       (ob_error ob = None \<longleftrightarrow> starts_with ''network.'' (ob_key ob)))"
  using host.samples_ok [OF assms]
  by (force simp: sample_ok_def all_finite_def named_def wf_dict_def obs_ok_def error_key_def)

definition calm_readings :: readings where
  "calm_readings =
     \<lparr>rd_system = \<lparr>yr_boot = Inr (Fin 0), yr_now = Fin 90, yr_logical = Inr (Some 4), yr_physical = Inr None, yr_processes = Inr 7\<rparr>,
      rd_cpu = \<lparr>ur_percent = Inr (Fin 5), ur_per_cpu = Inr [Fin 5], ur_load = Inr (Fin 1, Fin 1, Fin 1), ur_frequency = Inr None,
        ur_stats = Inr []\<rparr>,
      rd_memory = \<lparr>xr_ram = Inl (OSError ''io''), xr_swap = Inl (OSError ''io'')\<rparr>,
      rd_temperature = Inr [], rd_filesystem = \<lparr>fr_partitions = Inr [], fr_usage = (\<lambda>m. Inl (OSError ''io''))\<rparr>,
      rd_disk = Inr None, rd_network = \<lparr>nr_counters = Inr [], nr_stats = Inr []\<rparr>,
      rd_battery = Inr (Some \<lparr>br_percent = NInt 50, br_secsleft = None, br_plugged = None\<rparr>), rd_gpu = Inl FileNotFoundError,
      rd_tegra = \<lparr>tr_popen = Inl FileNotFoundError, tr_wait = Inr False, tr_line = Inr [], tr_running = False, tr_stubborn = False\<rparr>,
      rd_file = (\<lambda>p. Inl FileNotFoundError)\<rparr>"

text \<open>A battery sample: its one alert has an ERROR threshold.\<close>

theorem collector_samples_shape_witness:
  "\<exists>s ob. snd (any_sample calm_readings (CBattery (default_host_config ''h'')) f0) = Inr [s] \<and>
     ms_alerts s = [ob] \<and> ob_error ob \<noteq> None"
proof -
  obtain s ob where s: "snd (any_sample calm_readings (CBattery (default_host_config ''h'')) f0) = Inr [s]"
    and a: "ms_alerts s = [ob]" and k: "ob_key ob = ''battery.charge''"
    by (simp add: calm_readings_def battery_sample_def battery_values_def battery_alerts_def battery_suffix_def
        finite_values_def float_of_int_small Let_def)
  have "ob_error ob \<noteq> None" using collector_samples_shape [OF s, of s] a k by (simp add: starts_with_def)
  with s a show ?thesis by blast
qed

text \<open>Rates never go below zero: in a sample of the CPU, disk or network collector, a value named per
  second is a finite number that is at least 0, even when a counter went backwards.\<close>

theorem collector_rates_nonneg:
  assumes "snd (any_sample rd c now) = Inr ss" and "s \<in> set ss" and "collector_name c \<in> {''cpu'', ''disk_io'', ''network''}"
    and "(k, f) \<in> set (ms_values s)" and "ends_with ''per_sec'' k"
  shows "isfinite f \<and> fle f0 f"
proof -
  have "sample_rates_ok s" using assms(1-3) cpu_sample_rates disk_sample_shape net_sample_shape
    by (cases c) (auto simp: lift_state_def)
  with assms(4,5) show ?thesis by (simp add: sample_rates_ok_def)
qed

text \<open>The read counter went from 10 down to 0.\<close>

theorem collector_rates_nonneg_witness:
  "\<exists>s f. snd (any_sample (calm_readings\<lparr>rd_disk := Inr (Some \<lparr>dk_read = 0, dk_write = 5, dk_busy = None\<rparr>)\<rparr>)
       (CDisk \<lparr>dc_previous = Some \<lparr>dk_read = 10, dk_write = 3, dk_busy = None\<rparr>, dc_previous_time = Some (Fin 1)\<rparr>) (Fin 2)) = Inr [s] \<and>
     dict_get (ms_values s) ''read.bytes_per_sec'' = Some f \<and> fle f0 f"
proof -
  let ?rd = "calm_readings\<lparr>rd_disk := Inr (Some \<lparr>dk_read = 0, dk_write = 5, dk_busy = None\<rparr>)\<rparr>"
  let ?c = "CDisk \<lparr>dc_previous = Some \<lparr>dk_read = 10, dk_write = 3, dk_busy = None\<rparr>, dc_previous_time = Some (Fin 1)\<rparr>"
  have f: "float_of_int 0 = Inr (Fin 0)" "float_of_int 2 = Inr (Fin 2)" "float_of_int 5 = Inr (Fin 5)"
    by (simp_all add: float_of_int_def float_bound_def)
  obtain s f where s: "snd (any_sample ?rd ?c (Fin 2)) = Inr [s]" and v: "dict_get (ms_values s) ''read.bytes_per_sec'' = Some f"
    by (simp add: lift_state_def disk_sample_def disk_values_def disk_busy_def rate_def f disk_summary_def size_text_def
        finite_values_def Let_def)
  have "fle f0 f"
    using collector_rates_nonneg [OF s, of s "''read.bytes_per_sec''" f] map_of_SomeD [OF v] by (simp add: ends_with_def starts_with_def)
  with s v show ?thesis by blast
qed

text \<open>The collectors of a configuration have distinct names, and a name is among them exactly when the
  configuration enables its collector.\<close>

theorem build_collectors_names:
  "distinct (map collector_name (build_collectors config)) \<and>
   (let enabled = hc_collectors config in
    set (map collector_name (build_collectors config)) =
      {name. (name, True) \<in> set [(''system'', co_system enabled), (''cpu'', co_cpu enabled), (''memory'', co_memory enabled),
         (''temperature'', co_temperature enabled), (''filesystem'', co_filesystem enabled), (''disk_io'', co_disk_io enabled),
         (''network'', co_network enabled), (''battery'', co_battery enabled), (''gpu'', co_gpu enabled),
         (''tegrastats'', co_tegrastats enabled), (''xenomai'', co_xenomai enabled)]})"
proof -
  have "set (map collector_name (build_collectors config)) =
      {name. (name, True) \<in> set (map (\<lambda>(b, c). (collector_name c, b)) (candidates config))}"
    unfolding build_collectors_def by (rule enabled_names)
  then show ?thesis by (simp only: build_collectors_distinct candidates_def Let_def list.map prod.case collector_name.simps simp_thms)
qed

end
