(* ===== verification/Host_Monitor.thy ===== *)
theory Host_Monitor
  imports Publisher Host_Collectors
begin

text \<open>
  \<^verbatim>\<open>host_monitor/monitor.py\<close>: the monitor drives a list of collectors. The class takes any objects
  with a name and a method \<open>sample\<close>; so the model takes the two as arguments, and the locale
  \<open>collector_contract\<close> says what the proofs need of them. An operation that may raise returns the
  monitor and the world it leaves with its result.

  The outside world: \<open>me_env\<close> are the two clocks and the outcomes of the sends (shared by the
  monitor and its publishers), \<open>me_environ\<close> and \<open>me_connect\<close> what opening a publisher depends on,
  \<open>me_reading n\<close> what the machine reports to the \<open>n\<close>-th call of a collector, \<open>me_order\<close> the order in
  which a set of paths is visited. \<open>mworld\<close> counts what was used of it, and holds the warnings
  logged (collector and time), the delays requested of \<open>time.sleep\<close> and the paths for which a
  socket was opened.
\<close>

record 'r monitor_env =
  me_env :: env
  me_environ :: "string \<Rightarrow> string option"
  me_connect :: "string \<Rightarrow> unit result"
  me_reading :: "nat \<Rightarrow> 'r"
  me_order :: "string list \<Rightarrow> string list"

record mworld =
  mw_pub :: world
  mw_calls :: nat
  mw_log :: "(string \<times> pyfloat) list"
  mw_slept :: "pyfloat list"
  mw_opened :: "string list"

record 'c HostMonitor =
  hm_config :: HostMonitorConfig
  hm_collectors :: "'c list"
  hm_owns_ctx :: bool
  hm_ctx_open :: bool
  hm_publishers :: "(string, DiagPublisher) dict"
  hm_health :: HealthEvaluator
  hm_paths :: "(string, string list) dict"
  hm_last_error :: "(string, pyfloat) dict"
  hm_running :: bool

definition monitor_init :: "HostMonitorConfig \<Rightarrow> 'c list \<Rightarrow> bool \<Rightarrow> 'c HostMonitor" where
  "monitor_init config collectors context_given =
     \<lparr>hm_config = config, hm_collectors = collectors, hm_owns_ctx = \<not> context_given, hm_ctx_open = True, hm_publishers = [],
      hm_health = HealthEvaluator_init (th_consecutive (hc_thresholds config)) (th_margin (hc_thresholds config)),
      hm_paths = [], hm_last_error = [], hm_running = False\<rparr>"

definition full_path :: "HostMonitorConfig \<Rightarrow> string \<Rightarrow> string" where
  "full_path config suffix = hc_node_prefix config @ ''/'' @ hc_hostname config @ ''/'' @ strip_chars ''/'' suffix"

definition get_publisher ::
  "'r monitor_env \<Rightarrow> string \<Rightarrow> 'c HostMonitor \<Rightarrow> mworld \<Rightarrow> 'c HostMonitor \<times> mworld \<times> DiagPublisher result" where
  "get_publisher env path hm w =
     (case dict_get (hm_publishers hm) path of
        Some p \<Rightarrow> (hm, w, Inr p)
      | None \<Rightarrow>
          (case DiagPublisher_init (me_environ env) (me_connect env) path (hc_hw_id (hm_config hm))
                  (hc_zmq_endpoint (hm_config hm)) False (Fin 0) (Some 1) True of
             Inl e \<Rightarrow> (hm, w, Inl e)
           | Inr p \<Rightarrow> (hm\<lparr>hm_publishers := dict_set path p (hm_publishers hm)\<rparr>, w\<lparr>mw_opened := mw_opened w @ [path]\<rparr>, Inr p)))"

text \<open>\<^verbatim>\<open>self._publisher(path).publish(level, message, values)\<close>; the boolean result is not used.\<close>

definition publish_at ::
  "'r monitor_env \<Rightarrow> string \<Rightarrow> int \<Rightarrow> string \<Rightarrow> (string, pyval) dict \<Rightarrow> 'c HostMonitor \<Rightarrow> mworld \<Rightarrow>
   'c HostMonitor \<times> mworld \<times> py_exc option" where
  "publish_at env path level msg vs hm w =
     (case get_publisher env path hm w of
        (hm1, w1, Inl e) \<Rightarrow> (hm1, w1, Some e)
      | (hm1, w1, Inr p) \<Rightarrow>
          (case publish (me_env env) p level msg (Some vs) (mw_pub w1) of
             (p', pw, r) \<Rightarrow>
               (hm1\<lparr>hm_publishers := dict_set path p' (hm_publishers hm1)\<rparr>, w1\<lparr>mw_pub := pw\<rparr>,
                (case r of Inl e \<Rightarrow> Some e | Inr _ \<Rightarrow> None))))"

definition publish_sample ::
  "'r monitor_env \<Rightarrow> MetricSample \<Rightarrow> 'c HostMonitor \<Rightarrow> mworld \<Rightarrow> 'c HostMonitor \<times> mworld \<times> py_exc option" where
  "publish_sample env s hm w =
     (case evaluate (hm_health hm) (ms_alerts s) of
        (he, Inl e) \<Rightarrow> (hm\<lparr>hm_health := he\<rparr>, w, Some e)
      | (he, Inr (level, message)) \<Rightarrow>
          (let text = (if level = 0 then (if ms_summary s \<noteq> [] then ms_summary s else ms_path s @ '' metrics available'') else message);
               vs = dict_update [(''collector.available'', PFloat (Fin 1))] (map (\<lambda>(k, f). (k, PFloat f)) (ms_values s))
           in publish_at env (full_path (hm_config hm) (ms_path s)) level text vs (hm\<lparr>hm_health := he\<rparr>) w))"

text \<open>\<^verbatim>\<open>type(exc).__name__\<close>.\<close>

fun exc_name :: "py_exc \<Rightarrow> string" where
  "exc_name (ValueError _) = ''ValueError''"
| "exc_name (TypeError _) = ''TypeError''"
| "exc_name OverflowError = ''OverflowError''"
| "exc_name (KeyError _) = ''KeyError''"
| "exc_name IndexError = ''IndexError''"
| "exc_name (OSError _) = ''OSError''"
| "exc_name (ZmqError _) = ''ZMQError''"
| "exc_name (OtherError c) = c"

text \<open>The warning of a failing collector: at most one per collector in 30 seconds.\<close>

definition log_due :: "string \<Rightarrow> (string, pyfloat) dict \<Rightarrow> pyfloat \<Rightarrow> bool" where
  "log_due name logged now = fge (fsub now (dict_get_or logged name NInf)) (Fin 30)"

definition log_failure :: "string \<Rightarrow> pyfloat \<Rightarrow> 'c HostMonitor \<Rightarrow> mworld \<Rightarrow> 'c HostMonitor \<times> mworld" where
  "log_failure name now hm w =
     (if log_due name (hm_last_error hm) now
      then (hm\<lparr>hm_last_error := dict_set name now (hm_last_error hm)\<rparr>, w\<lparr>mw_log := mw_log w @ [(name, now)]\<rparr>)
      else (hm, w))"

fun publish_failure ::
  "'r monitor_env \<Rightarrow> string \<Rightarrow> py_exc \<Rightarrow> string list \<Rightarrow> 'c HostMonitor \<Rightarrow> mworld \<Rightarrow> 'c HostMonitor \<times> mworld \<times> py_exc option" where
  "publish_failure env name exc [] hm w = (hm, w, None)"
| "publish_failure env name exc (path # ps) hm w =
     (case publish_at env path 1 (''WARN: '' @ name @ '' collection failed ('' @ exc_name exc @ '')'')
             [(''collector.available'', PFloat (Fin 0))] hm w of
        (hm1, w1, Some e) \<Rightarrow> (hm1, w1, Some e)
      | (hm1, w1, None) \<Rightarrow> publish_failure env name exc ps hm1 w1)"

definition handle_collector_error ::
  "'r monitor_env \<Rightarrow> string \<Rightarrow> py_exc \<Rightarrow> pyfloat \<Rightarrow> 'c HostMonitor \<Rightarrow> mworld \<Rightarrow> 'c HostMonitor \<times> mworld \<times> py_exc option" where
  "handle_collector_error env name exc now hm w =
     (let (hm1, w1) = log_failure name now hm w in
      publish_failure env name exc (me_order env (dict_get_or (hm_paths hm1) name [])) hm1 w1)"

fun publish_samples ::
  "'r monitor_env \<Rightarrow> MetricSample list \<Rightarrow> 'c HostMonitor \<Rightarrow> mworld \<Rightarrow> 'c HostMonitor \<times> mworld \<times> py_exc option" where
  "publish_samples env [] hm w = (hm, w, None)"
| "publish_samples env (s # ss) hm w =
     (case publish_sample env s hm w of
        (hm1, w1, Some e) \<Rightarrow> (hm1, w1, Some e)
      | (hm1, w1, None) \<Rightarrow> publish_samples env ss hm1 w1)"

text \<open>What follows a successful \<open>sample\<close>: publish, then remember the paths when there are any.\<close>

definition take_samples ::
  "'r monitor_env \<Rightarrow> string \<Rightarrow> MetricSample list \<Rightarrow> 'c HostMonitor \<Rightarrow> mworld \<Rightarrow> 'c HostMonitor \<times> mworld \<times> py_exc option" where
  "take_samples env name ss hm w =
     (case publish_samples env ss hm w of
        (hm1, w1, Some e) \<Rightarrow> (hm1, w1, Some e)
      | (hm1, w1, None) \<Rightarrow>
          (let paths = remdups (map (\<lambda>s. full_path (hm_config hm1) (ms_path s)) ss) in
           (if paths \<noteq> [] then hm1\<lparr>hm_paths := dict_set name paths (hm_paths hm1)\<rparr> else hm1, w1, None)))"

fun sample_loop ::
  "('r \<Rightarrow> 'c \<Rightarrow> pyfloat \<Rightarrow> 'c \<times> MetricSample list result) \<Rightarrow> ('c \<Rightarrow> string) \<Rightarrow> 'r monitor_env \<Rightarrow> pyfloat \<Rightarrow>
   'c list \<Rightarrow> 'c HostMonitor \<Rightarrow> mworld \<Rightarrow> 'c list \<times> 'c HostMonitor \<times> mworld \<times> py_exc option" where
  "sample_loop sample cname env now [] hm w = ([], hm, w, None)"
| "sample_loop sample cname env now (c # cs) hm w =
     (let (c1, r) = sample (me_reading env (mw_calls w)) c now; w1 = w\<lparr>mw_calls := mw_calls w + 1\<rparr> in
      case (case r of
              Inl e \<Rightarrow> handle_collector_error env (cname c) e now hm w1
            | Inr ss \<Rightarrow> take_samples env (cname c) ss hm w1) of
        (hm1, w2, Some e) \<Rightarrow> (c1 # cs, hm1, w2, Some e)
      | (hm1, w2, None) \<Rightarrow>
          (case sample_loop sample cname env now cs hm1 w2 of
             (cs', hm2, w3, e) \<Rightarrow> (c1 # cs', hm2, w3, e)))"

definition read_monotonic :: "'r monitor_env \<Rightarrow> mworld \<Rightarrow> pyfloat \<times> mworld" where
  "read_monotonic env w = (let (t, pw) = read_mono (me_env env) (mw_pub w) in (t, w\<lparr>mw_pub := pw\<rparr>))"

definition sample_once ::
  "('r \<Rightarrow> 'c \<Rightarrow> pyfloat \<Rightarrow> 'c \<times> MetricSample list result) \<Rightarrow> ('c \<Rightarrow> string) \<Rightarrow> 'r monitor_env \<Rightarrow>
   'c HostMonitor \<Rightarrow> mworld \<Rightarrow> 'c HostMonitor \<times> mworld \<times> py_exc option" where
  "sample_once sample cname env hm w =
     (let (now, w1) = read_monotonic env w in
      case sample_loop sample cname env now (hm_collectors hm) hm w1 of
        (cs, hm1, w2, e) \<Rightarrow> (hm1\<lparr>hm_collectors := cs\<rparr>, w2, e))"

definition monitor_stop :: "'c HostMonitor \<Rightarrow> 'c HostMonitor" where
  "monitor_stop hm = hm\<lparr>hm_running := False\<rparr>"

text \<open>
  \<^verbatim>\<open>time.sleep\<close>, the default of \<^verbatim>\<open>sleep_fn\<close>: the delay is converted to a signed 64-bit number of
  nanoseconds, rounded up.
\<close>

definition time_sleep :: "pyfloat \<Rightarrow> unit result" where
  "time_sleep d =
     (case d of
        NaN \<Rightarrow> Inl (ValueError ''Invalid value NaN (not a number)'')
      | Fin x \<Rightarrow> if \<not> (- (2 ^ 63) \<le> \<lceil>x * 10 ^ 9\<rceil> \<and> \<lceil>x * 10 ^ 9\<rceil> < 2 ^ 63) then Inl OverflowError
                 else if x < 0 then Inl (ValueError ''sleep length must be non-negative'')
                 else Inr ()
      | _ \<Rightarrow> Inl OverflowError)"

text \<open>The wait until the deadline of the next round, or a new start when the deadline has passed.\<close>

definition await_deadline :: "'r monitor_env \<Rightarrow> pyfloat \<Rightarrow> pyfloat \<Rightarrow> mworld \<Rightarrow> mworld \<times> pyfloat result" where
  "await_deadline env interval deadline w =
     (let next_deadline = fadd deadline interval; (t, w1) = read_monotonic env w; delay = fsub next_deadline t in
      if fgt delay f0
      then (w1\<lparr>mw_slept := mw_slept w1 @ [delay]\<rparr>, bindE (time_sleep delay) (\<lambda>_. Inr next_deadline))
      else (let (t', w2) = read_monotonic env w1 in (w2, Inr t')))"

text \<open>The loop of \<open>run\<close>; \<open>signals k\<close> says whether the stop signal comes during round \<open>k\<close>.\<close>

partial_function (option) monitor_loop ::
  "('r \<Rightarrow> 'c \<Rightarrow> pyfloat \<Rightarrow> 'c \<times> MetricSample list result) \<Rightarrow> ('c \<Rightarrow> string) \<Rightarrow> 'r monitor_env \<Rightarrow> (nat \<Rightarrow> bool) \<Rightarrow> nat \<Rightarrow>
   pyfloat \<Rightarrow> 'c HostMonitor \<Rightarrow> mworld \<Rightarrow> ('c HostMonitor \<times> mworld \<times> py_exc option) option" where
  "monitor_loop sample cname env signals k deadline hm w =
     (if \<not> hm_running hm then Some (hm, w, None)
      else (case sample_once sample cname env hm w of
              (hm1, w1, Some e) \<Rightarrow> Some (hm1, w1, Some e)
            | (hm1, w1, None) \<Rightarrow>
                (case await_deadline env (hc_sample_interval (hm_config hm1)) deadline w1 of
                   (w2, Inl e) \<Rightarrow> Some (hm1, w2, Some e)
                 | (w2, Inr d) \<Rightarrow> monitor_loop sample cname env signals (k + 1) d (if signals k then monitor_stop hm1 else hm1) w2)))"

definition monitor_run ::
  "('r \<Rightarrow> 'c \<Rightarrow> pyfloat \<Rightarrow> 'c \<times> MetricSample list result) \<Rightarrow> ('c \<Rightarrow> string) \<Rightarrow> 'r monitor_env \<Rightarrow> (nat \<Rightarrow> bool) \<Rightarrow>
   'c HostMonitor \<Rightarrow> mworld \<Rightarrow> ('c HostMonitor \<times> mworld \<times> py_exc option) option" where
  "monitor_run sample cname env signals hm w =
     (let (deadline, w1) = read_monotonic env w in
      monitor_loop sample cname env signals 0 deadline (hm\<lparr>hm_running := True\<rparr>) w1)"

text \<open>\<open>closed\<close> are the publishers as \<open>close\<close> leaves them; the monitor drops them.\<close>

definition monitor_close :: "'c HostMonitor \<Rightarrow> 'c HostMonitor \<times> DiagPublisher list" where
  "monitor_close hm =
     (let closed = map (\<lambda>(path, p). publisher_close p) (hm_publishers hm); hm1 = hm\<lparr>hm_publishers := []\<rparr> in
      (if hm_owns_ctx hm1 then hm1\<lparr>hm_ctx_open := False\<rparr> else hm1, closed))"

text \<open>
  \<open>main\<close>, with the options the parser gives: the path of the configuration, the endpoint, and
  whether to take one sample only. The value is the exception that leaves it, None for the exit
  code 0, with the closed monitor and publishers when one was made.
\<close>

record main_options =
  mo_config :: "string option"
  mo_endpoint :: "string option"
  mo_once :: bool

definition configure :: "load_world \<Rightarrow> main_options \<Rightarrow> HostMonitorConfig result" where
  "configure lw opts =
     bindE (load_host_monitor_config lw (mo_config opts)) (\<lambda>config.
       Inr (case mo_endpoint opts of None \<Rightarrow> config | Some e \<Rightarrow> config\<lparr>hc_zmq_endpoint := e\<rparr>))"

definition monitor_main ::
  "load_world \<Rightarrow> main_options \<Rightarrow> readings monitor_env \<Rightarrow> (nat \<Rightarrow> bool) \<Rightarrow> mworld \<Rightarrow>
   (py_exc option \<times> (any_collector HostMonitor \<times> DiagPublisher list) option \<times> mworld) option" where
  "monitor_main lw opts env signals w =
     (case configure lw opts of
        Inl e \<Rightarrow> Some (Some e, None, w)
      | Inr config \<Rightarrow>
          (let hm = monitor_init config (build_collectors config) False in
           case (if mo_once opts then Some (sample_once any_sample collector_name env hm w)
                 else monitor_run any_sample collector_name env signals hm w) of
             None \<Rightarrow> None
           | Some (hm1, w1, e) \<Rightarrow> Some (e, Some (monitor_close hm1), w1)))"

end
