(* ===== verification/Monitor_Proofs.thy ===== *)
theory Monitor_Proofs
  imports Host_Monitor
begin

text \<open>
  What the host monitor guarantees. The first part is the invariant of its cache of publishers
  and what one publish does; then, inside the locale \<open>collector_contract\<close>, one round implements an
  abstract round (\<open>round_spec\<close>) that only looks at the collectors' results. The locale \<open>round_frame\<close>
  carries a relation from the steps to whole rounds, whatever raises (the spacing of the log, the
  sockets opened). \<open>run_rounds\<close> counts the rounds of the loop, with its deadlines and the delays
  it asks for; last come the properties, on the collectors of the program.
\<close>

subsection \<open>The invariant\<close>

definition publisher_for :: "HostMonitorConfig \<Rightarrow> string \<Rightarrow> DiagPublisher \<Rightarrow> bool" where
  "publisher_for config path p =
     ((\<exists>suffix. path = full_path config suffix) \<and> dp_node p = path \<and> dp_hw_id p = hc_hw_id config \<and> dp_open p \<and>
      \<not> dp_owns_ctx p \<and> dp_throttle p = Fin 0)"

definition monitor_inv :: "'c HostMonitor \<Rightarrow> bool" where
  "monitor_inv hm =
     (wf_dict (hm_publishers hm) \<and> (\<forall>path p. (path, p) \<in> set (hm_publishers hm) \<longrightarrow> publisher_for (hm_config hm) path p) \<and>
      (\<forall>name ps. (name, ps) \<in> set (hm_paths hm) \<longrightarrow> (\<forall>path \<in> set ps. \<exists>suffix. path = full_path (hm_config hm) suffix)) \<and>
      states_ok error_key (hm_health hm))"

lemma monitor_inv_init [simp]: "monitor_inv (monitor_init config cs given)"
  by (simp add: monitor_inv_def monitor_init_def)

lemma monitor_init_config [simp]: "hm_config (monitor_init config cs given) = config"
  by (simp add: monitor_init_def)

lemma monitor_inv_cong [simp]:
  "monitor_inv (hm\<lparr>hm_collectors := cs\<rparr>) = monitor_inv hm" "monitor_inv (hm\<lparr>hm_running := b\<rparr>) = monitor_inv hm"
  "monitor_inv (hm\<lparr>hm_last_error := d\<rparr>) = monitor_inv hm"
  by (simp_all add: monitor_inv_def)

text \<open>A world in which publishing works: a send goes out or is dropped, time stamps are numbers.\<close>

definition good_env :: "'r monitor_env \<Rightarrow> bool" where
  "good_env env =
     ((\<forall>n. env_send (me_env env) n = Sent \<or> env_send (me_env env) n = Again) \<and> (\<forall>n. isfinite (env_time (me_env env) n)) \<and>
      (\<forall>ep. me_connect env ep = Inr ()) \<and> (\<forall>ps. set (me_order env ps) = set ps))"

definition all_sent :: "'r monitor_env \<Rightarrow> bool" where
  "all_sent env = (\<forall>n. env_send (me_env env) n = Sent)"

subsection \<open>One publish\<close>

lemma publish_unthrottled:
  assumes "good_env env" and "dp_open p" and "dp_throttle p = Fin 0" and j: "list_all (\<lambda>kv. json_ok (snd kv)) vs"
  shows "\<exists>p' pw b. publish (me_env env) p level msg (Some vs) w = (p', pw, Inr b) \<and> (p' = p \<or> (\<exists>t. p' = p\<lparr>dp_last_publish := t\<rparr>)) \<and>
    (all_sent env \<longrightarrow> (\<exists>stamp. isfinite stamp \<and> w_sent pw = w_sent w @ [payload_of p stamp level msg vs]))"
proof -
  have "throttle_open p now" for now using assms(3) by (simp add: throttle_open_def)
  moreover have "json_ok (payload_of p (env_time (me_env env) n) level msg vs)" for n
    using assms(1) j by (auto simp: payload_of_def good_env_def list_all_iff)
  moreover have "env_send (me_env env) (w_tries w) = Sent \<or> env_send (me_env env) (w_tries w) = Again \<and> \<not> all_sent env"
    using assms(1) by (auto simp: good_env_def all_sent_def)
  ultimately have "\<exists>p' pw b. publish (me_env env) p level msg (Some vs) w = (p', pw, Inr b) \<and> (p' = p \<or> (\<exists>t. p' = p\<lparr>dp_last_publish := t\<rparr>)) \<and>
    (all_sent env \<longrightarrow> (\<exists>n. w_sent pw = w_sent w @ [payload_of p (env_time (me_env env) n) level msg vs]))"
    using assms(2) by (auto simp: publish_def should_publish_def read_mono_def send_def read_time_def note_sent_def Let_def)
  moreover have "isfinite (env_time (me_env env) n)" for n using assms(1) by (simp add: good_env_def)
  ultimately show ?thesis by blast
qed

lemma monitor_inv_publisher:
  assumes "monitor_inv hm" and "publisher_for (hm_config hm) path p"
  shows "monitor_inv (hm\<lparr>hm_publishers := dict_set path p (hm_publishers hm)\<rparr>)"
proof -
  have "publisher_for (hm_config hm) k v" if "(k, v) \<in> set (dict_set path p (hm_publishers hm))" for k v
    using in_dict_set [OF that] assms by (auto simp: monitor_inv_def)
  then show ?thesis using assms by (simp add: monitor_inv_def)
qed

lemma get_publisher_ok:
  assumes "good_env env" and "monitor_inv hm" and "path = full_path (hm_config hm) s"
  shows "\<exists>p ps os. get_publisher env path hm w = (hm\<lparr>hm_publishers := ps\<rparr>, w\<lparr>mw_opened := os\<rparr>, Inr p) \<and> publisher_for (hm_config hm) path p \<and>
    monitor_inv (hm\<lparr>hm_publishers := ps\<rparr>)"
proof (cases "dict_get (hm_publishers hm) path")
  case (Some p)
  then have "(path, p) \<in> set (hm_publishers hm)" by (rule map_of_SomeD)
  then have "publisher_for (hm_config hm) path p" using assms(2) by (simp add: monitor_inv_def)
  then show ?thesis using Some assms(2)
    by (intro exI [of _ p] exI [of _ "hm_publishers hm"] exI [of _ "mw_opened w"]) (simp add: get_publisher_def)
next
  case None
  let ?ep = "if hc_zmq_endpoint (hm_config hm) = []
    then (case me_environ env ''XBOT_DIAG_ENDPOINT'' of None \<Rightarrow> ''tcp://localhost:9268'' | Some e \<Rightarrow> e)
    else hc_zmq_endpoint (hm_config hm)"
  let ?p = "\<lparr>dp_endpoint = ?ep, dp_owns_ctx = False, dp_send_hwm = Some 1, dp_immediate = True, dp_open = True, dp_ctx_open = True,
    dp_node = path, dp_hw_id = hc_hw_id (hm_config hm), dp_throttle = Fin 0, dp_last_publish = None\<rparr>"
  have p: "publisher_for (hm_config hm) path ?p" using assms(3) by (auto simp: publisher_for_def)
  have g: "get_publisher env path hm w =
      (hm\<lparr>hm_publishers := dict_set path ?p (hm_publishers hm)\<rparr>, w\<lparr>mw_opened := mw_opened w @ [path]\<rparr>, Inr ?p)"
    using None assms(1) by (simp add: get_publisher_def DiagPublisher_init_def good_env_def Let_def)
  have "monitor_inv (hm\<lparr>hm_publishers := dict_set path ?p (hm_publishers hm)\<rparr>)"
    by (rule monitor_inv_publisher [OF assms(2) p])
  with g p show ?thesis by blast
qed

text \<open>A publisher of the monitor for a path, and the time stamp of one of its payloads.\<close>

definition from_monitor :: "HostMonitorConfig \<Rightarrow> string \<Rightarrow> DiagPublisher \<Rightarrow> pyfloat \<Rightarrow> bool" where
  "from_monitor config path p stamp = (dp_node p = path \<and> path \<noteq> [] \<and> dp_hw_id p = hc_hw_id config \<and> isfinite stamp)"

text \<open>In a working world, publishing at a path of the monitor changes its publishers only.\<close>

lemma publish_at_ok:
  assumes "good_env env" and "monitor_inv hm" and "path = full_path (hm_config hm) s"
    and j: "list_all (\<lambda>kv. json_ok (snd kv)) vs"
  obtains ps pw os where "publish_at env path level msg vs hm w = (hm\<lparr>hm_publishers := ps\<rparr>, w\<lparr>mw_pub := pw, mw_opened := os\<rparr>, None)"
    and "monitor_inv (hm\<lparr>hm_publishers := ps\<rparr>)"
    and "all_sent env \<Longrightarrow> \<exists>p stamp. from_monitor (hm_config hm) path p stamp \<and> w_sent pw = w_sent (mw_pub w) @ [payload_of p stamp level msg vs]"
proof -
  obtain p ps os where g: "get_publisher env path hm w = (hm\<lparr>hm_publishers := ps\<rparr>, w\<lparr>mw_opened := os\<rparr>, Inr p)" and p: "publisher_for (hm_config hm) path p"
    and i: "monitor_inv (hm\<lparr>hm_publishers := ps\<rparr>)" using get_publisher_ok [OF assms(1-3), of w] by blast
  have "dp_open p" "dp_throttle p = Fin 0" using p by (simp_all add: publisher_for_def)
  from publish_unthrottled [where level = level and msg = msg and w = "mw_pub w", OF assms(1) this j] obtain p' pw b
    where pu: "publish (me_env env) p level msg (Some vs) (mw_pub w) = (p', pw, Inr b)"
    and p': "p' = p \<or> (\<exists>t. p' = p\<lparr>dp_last_publish := t\<rparr>)"
    and s: "all_sent env \<longrightarrow> (\<exists>stamp. isfinite stamp \<and> w_sent pw = w_sent (mw_pub w) @ [payload_of p stamp level msg vs])"
    by blast
  have "publisher_for (hm_config hm) path p'" using p p' by (auto simp: publisher_for_def)
  then have "monitor_inv (hm\<lparr>hm_publishers := dict_set path p' ps\<rparr>)"
    using monitor_inv_publisher [OF i, of path p'] by simp
  moreover have "publish_at env path level msg vs hm w = (hm\<lparr>hm_publishers := dict_set path p' ps\<rparr>, w\<lparr>mw_pub := pw, mw_opened := os\<rparr>, None)"
    by (simp add: publish_at_def g pu)
  moreover have "from_monitor (hm_config hm) path p stamp" if "isfinite stamp" for stamp
    using p that by (auto simp: publisher_for_def from_monitor_def full_path_def)
  then have "all_sent env \<Longrightarrow> \<exists>p stamp. from_monitor (hm_config hm) path p stamp \<and> w_sent pw = w_sent (mw_pub w) @ [payload_of p stamp level msg vs]"
    using s by blast
  ultimately show ?thesis by (intro that)
qed

subsection \<open>What a round sends\<close>

text \<open>
  The abstract messages: a sample's path, level, text and values, and the report of a failing
  collector at a path. \<open>sent_as\<close> says that a payload on the wire is such a message.
\<close>

datatype outgoing = Measured string int string "(string, pyfloat) dict" | Failed string string py_exc

definition available_values :: "(string, pyfloat) dict \<Rightarrow> (string, pyval) dict" where
  "available_values vs = dict_update [(''collector.available'', PFloat (Fin 1))] (map (\<lambda>(k, f). (k, PFloat f)) vs)"

fun sent_as :: "HostMonitorConfig \<Rightarrow> pyval \<Rightarrow> outgoing \<Rightarrow> bool" where
  "sent_as config pl (Measured path level txt vs) =
     (\<exists>p stamp. from_monitor config path p stamp \<and> pl = payload_of p stamp level txt (available_values vs))"
| "sent_as config pl (Failed path name exc) =
     (\<exists>p stamp. from_monitor config path p stamp \<and>
        pl = payload_of p stamp 1 (''WARN: '' @ name @ '' collection failed ('' @ exc_name exc @ '')'')
               [(''collector.available'', PFloat (Fin 0))])"

text \<open>The world after some messages, when all sends go out.\<close>

definition sends :: "'r monitor_env \<Rightarrow> HostMonitorConfig \<Rightarrow> mworld \<Rightarrow> mworld \<Rightarrow> outgoing list \<Rightarrow> bool" where
  "sends env config w w1 out =
     (all_sent env \<longrightarrow> (\<exists>pls. w_sent (mw_pub w1) = w_sent (mw_pub w) @ pls \<and> list_all2 (sent_as config) pls out))"

lemma sends_Nil [simp]: "w_sent (mw_pub w1) = w_sent (mw_pub w) \<Longrightarrow> sends env config w w1 []"
  by (simp add: sends_def)

lemma sends_one:
  "(all_sent env \<Longrightarrow> \<exists>pl. w_sent (mw_pub w1) = w_sent (mw_pub w) @ [pl] \<and> sent_as config pl m) \<Longrightarrow> sends env config w w1 [m]"
  by (force simp: sends_def)

lemma sends_trans: "sends env config w w1 out \<Longrightarrow> sends env config w1 w2 out' \<Longrightarrow> sends env config w w2 (out @ out')"
  by (auto simp: sends_def intro: list_all2_appendI)

text \<open>The text of a sample's message, and the messages of the samples of one collector: one evaluator
  goes through all of them in order.\<close>

definition status_text :: "MetricSample \<Rightarrow> int \<Rightarrow> string \<Rightarrow> string" where
  "status_text s level message =
     (if level = 0 then (if ms_summary s \<noteq> [] then ms_summary s else ms_path s @ '' metrics available'') else message)"

fun samples_out :: "HostMonitorConfig \<Rightarrow> MetricSample list \<Rightarrow> HealthEvaluator \<Rightarrow> outgoing list \<times> HealthEvaluator" where
  "samples_out config [] he = ([], he)"
| "samples_out config (s # ss) he =
     (case evaluate he (ms_alerts s) of
        (he1, Inl e) \<Rightarrow> ([], he1)
      | (he1, Inr (level, message)) \<Rightarrow>
          (let (out, he2) = samples_out config ss he1
           in (Measured (full_path config (ms_path s)) level (status_text s level message) (ms_values s) # out, he2)))"

lemma json_ok_available: "json_ok (PFloat (Fin x))"
  by simp

lemma in_dict_update: "(k, v) \<in> set (dict_update d e) \<Longrightarrow> (k, v) \<in> set d \<or> (k, v) \<in> set e"
proof (induction e arbitrary: d)
  case (Cons kv e)
  obtain k' v' where kv: "kv = (k', v')" by fastforce
  then show ?case using Cons.IH [of "dict_set k' v' d"] Cons.prems in_dict_set [of k v k' v' d] by auto
qed simp

lemma available_json: "all_finite vs \<Longrightarrow> list_all (\<lambda>kv. json_ok (snd kv)) (available_values vs)"
proof -
  assume f: "all_finite vs"
  have "json_ok (snd kv)" if "kv \<in> set (available_values vs)" for kv
    using in_dict_update [of "fst kv" "snd kv"] that f by (fastforce simp: all_finite_def available_values_def)
  then show ?thesis by (simp add: list_all_iff)
qed

lemma publish_sample_ok:
  assumes "good_env env" and "monitor_inv hm" and "sample_ok s"
  obtains he level message ps pw os where "evaluate (hm_health hm) (ms_alerts s) = (he, Inr (level, message))"
    and "publish_sample env s hm w = (hm\<lparr>hm_health := he, hm_publishers := ps\<rparr>, w\<lparr>mw_pub := pw, mw_opened := os\<rparr>, None)"
    and "monitor_inv (hm\<lparr>hm_health := he, hm_publishers := ps\<rparr>)"
    and "sends env (hm_config hm) w (w\<lparr>mw_pub := pw, mw_opened := os\<rparr>)
      [Measured (full_path (hm_config hm) (ms_path s)) level (status_text s level message) (ms_values s)]"
proof -
  have "states_ok error_key (hm_health hm)" and "\<And>ob. ob \<in> set (ms_alerts s) \<Longrightarrow> obs_ok error_key ob"
    using assms by (auto simp: monitor_inv_def sample_ok_def)
  then obtain he level message where ev: "evaluate (hm_health hm) (ms_alerts s) = (he, Inr (level, message))"
    and he: "states_ok error_key he"
    using evaluate_ok [of "ms_alerts s" error_key "hm_health hm"] by (metis old.prod.exhaust prod.collapse)
  let ?vs = "available_values (ms_values s)" and ?m = "status_text s level message"
  let ?hm = "hm\<lparr>hm_health := he\<rparr>" and ?path = "full_path (hm_config hm) (ms_path s)"
  have i: "monitor_inv ?hm" using assms(2) he by (simp add: monitor_inv_def)
  have j: "list_all (\<lambda>kv. json_ok (snd kv)) ?vs" using assms(3) by (simp add: sample_ok_def available_json)
  have path: "?path = full_path (hm_config ?hm) (ms_path s)" by simp
  obtain ps pw os where pa: "publish_at env ?path level ?m ?vs ?hm w = (?hm\<lparr>hm_publishers := ps\<rparr>, w\<lparr>mw_pub := pw, mw_opened := os\<rparr>, None)"
    and i': "monitor_inv (?hm\<lparr>hm_publishers := ps\<rparr>)"
    and s: "all_sent env \<Longrightarrow> \<exists>p stamp. from_monitor (hm_config ?hm) ?path p stamp \<and>
      w_sent pw = w_sent (mw_pub w) @ [payload_of p stamp level ?m ?vs]"
    by (rule publish_at_ok [where level = level and msg = ?m and w = w, OF assms(1) i path j]) (rule that)
  have "publish_sample env s hm w = (?hm\<lparr>hm_publishers := ps\<rparr>, w\<lparr>mw_pub := pw, mw_opened := os\<rparr>, None)"
    using pa by (simp add: publish_sample_def ev status_text_def available_values_def Let_def)
  moreover have "sends env (hm_config hm) w (w\<lparr>mw_pub := pw, mw_opened := os\<rparr>) [Measured ?path level ?m (ms_values s)]"
    by (rule sends_one) (use s in auto)
  ultimately show ?thesis using that ev i' by simp
qed

lemma publish_samples_ok:
  "good_env env \<Longrightarrow> monitor_inv hm \<Longrightarrow> (\<And>s. s \<in> set ss \<Longrightarrow> sample_ok s) \<Longrightarrow>
   \<exists>he ps pw os. publish_samples env ss hm w = (hm\<lparr>hm_health := he, hm_publishers := ps\<rparr>, w\<lparr>mw_pub := pw, mw_opened := os\<rparr>, None) \<and>
     monitor_inv (hm\<lparr>hm_health := he, hm_publishers := ps\<rparr>) \<and> he = snd (samples_out (hm_config hm) ss (hm_health hm)) \<and>
     sends env (hm_config hm) w (w\<lparr>mw_pub := pw, mw_opened := os\<rparr>) (fst (samples_out (hm_config hm) ss (hm_health hm)))"
proof (induction ss arbitrary: hm w)
  case Nil
  show ?case using Nil
    by (intro exI [of _ "hm_health hm"] exI [of _ "hm_publishers hm"] exI [of _ "mw_pub w"] exI [of _ "mw_opened w"]) simp
next
  case (Cons s ss)
  have "sample_ok s" using Cons.prems(3) by simp
  then obtain he level message ps pw os where e: "evaluate (hm_health hm) (ms_alerts s) = (he, Inr (level, message))"
    and p: "publish_sample env s hm w = (hm\<lparr>hm_health := he, hm_publishers := ps\<rparr>, w\<lparr>mw_pub := pw, mw_opened := os\<rparr>, None)"
    and i: "monitor_inv (hm\<lparr>hm_health := he, hm_publishers := ps\<rparr>)"
    and s: "sends env (hm_config hm) w (w\<lparr>mw_pub := pw, mw_opened := os\<rparr>)
      [Measured (full_path (hm_config hm) (ms_path s)) level (status_text s level message) (ms_values s)]"
    by (rule publish_sample_ok [OF Cons.prems(1,2)])
  let ?spec = "samples_out (hm_config hm) ss he"
  from Cons.IH [OF Cons.prems(1) i, of "w\<lparr>mw_pub := pw, mw_opened := os\<rparr>"] Cons.prems(3) obtain ps' pw' os'
    where p': "publish_samples env ss (hm\<lparr>hm_health := he, hm_publishers := ps\<rparr>) (w\<lparr>mw_pub := pw, mw_opened := os\<rparr>) =
        (hm\<lparr>hm_health := snd ?spec, hm_publishers := ps'\<rparr>, w\<lparr>mw_pub := pw', mw_opened := os'\<rparr>, None)"
      and i': "monitor_inv (hm\<lparr>hm_health := snd ?spec, hm_publishers := ps'\<rparr>)"
      and s': "sends env (hm_config hm) (w\<lparr>mw_pub := pw, mw_opened := os\<rparr>) (w\<lparr>mw_pub := pw', mw_opened := os'\<rparr>) (fst ?spec)" by auto
  show ?case using p p' i' sends_trans [OF s s']
    by (intro exI [of _ "snd ?spec"] exI [of _ ps'] exI [of _ pw'] exI [of _ os']) (simp add: e Let_def split_beta)
qed

definition failures_out :: "string \<Rightarrow> py_exc \<Rightarrow> string list \<Rightarrow> outgoing list" where
  "failures_out name exc paths = map (\<lambda>path. Failed path name exc) paths"

lemma publish_failure_ok:
  "good_env env \<Longrightarrow> monitor_inv hm \<Longrightarrow> (\<And>path. path \<in> set paths \<Longrightarrow> \<exists>s. path = full_path (hm_config hm) s) \<Longrightarrow>
   \<exists>ps pw os. publish_failure env name exc paths hm w = (hm\<lparr>hm_publishers := ps\<rparr>, w\<lparr>mw_pub := pw, mw_opened := os\<rparr>, None) \<and>
     monitor_inv (hm\<lparr>hm_publishers := ps\<rparr>) \<and> sends env (hm_config hm) w (w\<lparr>mw_pub := pw, mw_opened := os\<rparr>) (failures_out name exc paths)"
proof (induction paths arbitrary: hm w)
  case Nil
  show ?case using Nil by (intro exI [of _ "hm_publishers hm"] exI [of _ "mw_pub w"] exI [of _ "mw_opened w"]) (simp add: failures_out_def)
next
  case (Cons path paths)
  let ?m = "''WARN: '' @ name @ '' collection failed ('' @ exc_name exc @ '')''" and ?vs = "[(''collector.available'', PFloat (Fin 0))]"
  obtain sfx where path: "path = full_path (hm_config hm) sfx" using Cons.prems(3) by auto
  have j: "list_all (\<lambda>kv. json_ok (snd kv)) ?vs" by simp
  obtain ps pw os where p: "publish_at env path 1 ?m ?vs hm w = (hm\<lparr>hm_publishers := ps\<rparr>, w\<lparr>mw_pub := pw, mw_opened := os\<rparr>, None)"
    and i: "monitor_inv (hm\<lparr>hm_publishers := ps\<rparr>)"
    and s: "all_sent env \<Longrightarrow> \<exists>p stamp. from_monitor (hm_config hm) path p stamp \<and> w_sent pw = w_sent (mw_pub w) @ [payload_of p stamp 1 ?m ?vs]"
    by (rule publish_at_ok [where level = 1 and msg = ?m and w = w, OF Cons.prems(1,2) path j]) (rule that)
  have s1: "sends env (hm_config hm) w (w\<lparr>mw_pub := pw, mw_opened := os\<rparr>) (failures_out name exc [path])"
    unfolding failures_out_def list.map by (rule sends_one) (use s in auto)
  from Cons.IH [OF Cons.prems(1) i, of "w\<lparr>mw_pub := pw, mw_opened := os\<rparr>"] Cons.prems(3) obtain ps' pw' os'
    where p': "publish_failure env name exc paths (hm\<lparr>hm_publishers := ps\<rparr>) (w\<lparr>mw_pub := pw, mw_opened := os\<rparr>) =
        (hm\<lparr>hm_publishers := ps'\<rparr>, w\<lparr>mw_pub := pw', mw_opened := os'\<rparr>, None)"
      and i': "monitor_inv (hm\<lparr>hm_publishers := ps'\<rparr>)"
      and s': "sends env (hm_config hm) (w\<lparr>mw_pub := pw, mw_opened := os\<rparr>) (w\<lparr>mw_pub := pw', mw_opened := os'\<rparr>) (failures_out name exc paths)" by auto
  have "sends env (hm_config hm) w (w\<lparr>mw_pub := pw', mw_opened := os'\<rparr>) (failures_out name exc (path # paths))"
    using sends_trans [OF s1 s'] by (simp add: failures_out_def)
  then show ?case using p p' i' by (intro exI [of _ ps'] exI [of _ pw'] exI [of _ os']) simp
qed

subsection \<open>The abstract round\<close>

text \<open>
  What a round means: from the collectors' answers, the paths each one reported last and the
  health evaluator, the messages in order, the new paths and the new evaluator. A failing
  collector is reported where it was last seen and leaves the evaluator alone.
\<close>

fun round_spec ::
  "(string list \<Rightarrow> string list) \<Rightarrow> HostMonitorConfig \<Rightarrow> (string \<times> MetricSample list result) list \<Rightarrow> (string, string list) dict \<Rightarrow>
   HealthEvaluator \<Rightarrow> outgoing list \<times> (string, string list) dict \<times> HealthEvaluator" where
  "round_spec order config [] paths he = ([], paths, he)"
| "round_spec order config ((name, Inl e) # answers) paths he =
     (let (out, rest) = round_spec order config answers paths he in
      (failures_out name e (order (dict_get_or paths name [])) @ out, rest))"
| "round_spec order config ((name, Inr ss) # answers) paths he =
     (let seen = remdups (map (\<lambda>s. full_path config (ms_path s)) ss);
          (msgs, he1) = samples_out config ss he;
          (out, rest) = round_spec order config answers (if seen \<noteq> [] then dict_set name seen paths else paths) he1
      in (msgs @ out, rest))"

text \<open>The collectors' answers and new states, each asked once, in order.\<close>

fun ask ::
  "('r \<Rightarrow> 'c \<Rightarrow> pyfloat \<Rightarrow> 'c \<times> MetricSample list result) \<Rightarrow> ('c \<Rightarrow> string) \<Rightarrow> (nat \<Rightarrow> 'r) \<Rightarrow> nat \<Rightarrow> pyfloat \<Rightarrow>
   'c list \<Rightarrow> 'c list \<times> (string \<times> MetricSample list result) list" where
  "ask sample cname rd n now [] = ([], [])"
| "ask sample cname rd n now (c # cs) =
     (let (c1, r) = sample (rd n) c now; (cs', rs) = ask sample cname rd (n + 1) now cs in (c1 # cs', (cname c, r) # rs))"

definition same_frame :: "'c HostMonitor \<Rightarrow> 'c HostMonitor \<Rightarrow> bool" where
  "same_frame a b = (hm_config b = hm_config a \<and> hm_collectors b = hm_collectors a \<and> hm_owns_ctx b = hm_owns_ctx a \<and>
     hm_ctx_open b = hm_ctx_open a \<and> hm_running b = hm_running a)"

lemma same_frame_trans: "same_frame a b \<Longrightarrow> same_frame b c \<Longrightarrow> same_frame a c"
  by (simp add: same_frame_def)

lemma handle_error_ok:
  assumes "good_env env" and "monitor_inv hm"
  shows "\<exists>hm1 w1. handle_collector_error env name exc now hm w = (hm1, w1, None) \<and> monitor_inv hm1 \<and> same_frame hm hm1 \<and>
    hm_paths hm1 = hm_paths hm \<and> hm_health hm1 = hm_health hm \<and> mw_calls w1 = mw_calls w \<and> mw_slept w1 = mw_slept w \<and>
    sends env (hm_config hm) w w1 (failures_out name exc (me_order env (dict_get_or (hm_paths hm) name [])))"
proof -
  obtain hm0 w0 where l: "log_failure name now hm w = (hm0, w0)" by fastforce
  then have h0: "monitor_inv hm0" "same_frame hm hm0" "hm_paths hm0 = hm_paths hm" "hm_config hm0 = hm_config hm" "hm_health hm0 = hm_health hm"
    "mw_pub w0 = mw_pub w" "mw_calls w0 = mw_calls w" "mw_slept w0 = mw_slept w"
    using assms(2) by (auto simp: log_failure_def same_frame_def split: if_splits)
  let ?paths = "me_order env (dict_get_or (hm_paths hm0) name [])"
  have "\<exists>s. path = full_path (hm_config hm0) s" if "path \<in> set ?paths" for path
  proof -
    have "path \<in> set (dict_get_or (hm_paths hm0) name [])" using that assms(1) by (simp add: good_env_def)
    then obtain ps where "dict_get (hm_paths hm0) name = Some ps" "path \<in> set ps"
      by (cases "dict_get (hm_paths hm0) name") (auto simp: dict_get_or_def)
    then show ?thesis using h0(1) map_of_SomeD [of "hm_paths hm0" name ps] unfolding monitor_inv_def by blast
  qed
  from publish_failure_ok [OF assms(1) h0(1), of ?paths name exc w0, OF this] obtain ps pw os
    where "publish_failure env name exc ?paths hm0 w0 = (hm0\<lparr>hm_publishers := ps\<rparr>, w0\<lparr>mw_pub := pw, mw_opened := os\<rparr>, None)"
      and "monitor_inv (hm0\<lparr>hm_publishers := ps\<rparr>)" and "sends env (hm_config hm0) w0 (w0\<lparr>mw_pub := pw, mw_opened := os\<rparr>) (failures_out name exc ?paths)"
    by blast
  then show ?thesis using h0 by (simp add: handle_collector_error_def l same_frame_def sends_def)
qed

lemma take_samples_ok:
  assumes "good_env env" and "monitor_inv hm" and ok: "\<And>s. s \<in> set ss \<Longrightarrow> sample_ok s"
  shows "\<exists>hm1 w1. take_samples env name ss hm w = (hm1, w1, None) \<and> monitor_inv hm1 \<and> same_frame hm hm1 \<and>
    hm_paths hm1 = (let seen = remdups (map (\<lambda>s. full_path (hm_config hm) (ms_path s)) ss) in
      if seen \<noteq> [] then dict_set name seen (hm_paths hm) else hm_paths hm) \<and>
    mw_calls w1 = mw_calls w \<and> mw_slept w1 = mw_slept w \<and> hm_health hm1 = snd (samples_out (hm_config hm) ss (hm_health hm)) \<and>
    sends env (hm_config hm) w w1 (fst (samples_out (hm_config hm) ss (hm_health hm)))"
proof -
  obtain he ps pw os where p: "publish_samples env ss hm w = (hm\<lparr>hm_health := he, hm_publishers := ps\<rparr>, w\<lparr>mw_pub := pw, mw_opened := os\<rparr>, None)"
    and i: "monitor_inv (hm\<lparr>hm_health := he, hm_publishers := ps\<rparr>)"
    and h: "he = snd (samples_out (hm_config hm) ss (hm_health hm))"
    and s: "sends env (hm_config hm) w (w\<lparr>mw_pub := pw, mw_opened := os\<rparr>) (fst (samples_out (hm_config hm) ss (hm_health hm)))"
    using publish_samples_ok [OF assms(1,2) ok, of ss w] by blast
  let ?seen = "remdups (map (\<lambda>s. full_path (hm_config hm) (ms_path s)) ss)"
  have "\<exists>suffix. path = full_path (hm_config hm) suffix"
    if "(n, l) \<in> set (dict_set name ?seen (hm_paths hm))" "path \<in> set l" for n l path
    using in_dict_set [OF that(1)] that(2) assms(2) by (auto simp: monitor_inv_def)
  then have "monitor_inv (hm\<lparr>hm_health := he, hm_publishers := ps, hm_paths := dict_set name ?seen (hm_paths hm)\<rparr>)"
    using i by (auto simp: monitor_inv_def)
  moreover have "ss = [] \<Longrightarrow> monitor_inv (hm\<lparr>hm_publishers := ps\<rparr>)" using i h by (cases hm) simp
  ultimately show ?thesis using p i s h by (simp add: take_samples_def same_frame_def Let_def)
qed

context collector_contract
begin

lemma ask_names: "map cname (fst (ask sample cname rd n now cs)) = map cname cs"
proof (induction cs arbitrary: n)
  case (Cons c cs)
  then show ?case using Cons.IH [of "n + 1"] name_kept [of "rd n" c now] by (simp add: Let_def split_beta)
qed simp

text \<open>The loop over the collectors implements the abstract round.\<close>

lemma sample_loop_ok:
  "good_env env \<Longrightarrow> monitor_inv hm \<Longrightarrow>
   \<exists>hm1 w1. sample_loop sample cname env now cs hm w =
       (fst (ask sample cname (me_reading env) (mw_calls w) now cs), hm1, w1, None) \<and>
     monitor_inv hm1 \<and> same_frame hm hm1 \<and> mw_calls w1 = mw_calls w + length cs \<and> mw_slept w1 = mw_slept w \<and>
     (let spec = round_spec (me_order env) (hm_config hm) (snd (ask sample cname (me_reading env) (mw_calls w) now cs))
        (hm_paths hm) (hm_health hm)
      in sends env (hm_config hm) w w1 (fst spec) \<and> (hm_paths hm1, hm_health hm1) = snd spec)"
proof (induction cs arbitrary: hm w)
  case Nil
  then show ?case by (simp add: same_frame_def)
next
  case (Cons c cs)
  obtain c1 r where c: "sample (me_reading env (mw_calls w)) c now = (c1, r)" by fastforce
  let ?w = "w\<lparr>mw_calls := mw_calls w + 1\<rparr>" and ?n = "mw_calls w + 1"
  obtain cs' rs where a: "ask sample cname (me_reading env) (Suc (mw_calls w)) now cs = (cs', rs)" by fastforce
  show ?case
  proof (cases r)
    case (Inl e)
    from handle_error_ok [OF Cons.prems, of "cname c" e now ?w] obtain hm1 w1
      where h: "handle_collector_error env (cname c) e now hm ?w = (hm1, w1, None)" "monitor_inv hm1" "same_frame hm hm1"
        "hm_paths hm1 = hm_paths hm" "hm_health hm1 = hm_health hm" "mw_calls w1 = ?n" "mw_slept w1 = mw_slept w"
      and s: "sends env (hm_config hm) ?w w1 (failures_out (cname c) e (me_order env (dict_get_or (hm_paths hm) (cname c) [])))" by auto
    have cfg: "hm_config hm1 = hm_config hm" using h(3) by (simp add: same_frame_def)
    from Cons.IH [OF Cons.prems(1) h(2), of w1] obtain hm2 w2
      where l: "sample_loop sample cname env now cs hm1 w1 = (cs', hm2, w2, None)" "monitor_inv hm2" "same_frame hm1 hm2"
        "mw_calls w2 = ?n + length cs" "mw_slept w2 = mw_slept w"
        "sends env (hm_config hm) w1 w2 (fst (round_spec (me_order env) (hm_config hm) rs (hm_paths hm) (hm_health hm)))"
        "(hm_paths hm2, hm_health hm2) = snd (round_spec (me_order env) (hm_config hm) rs (hm_paths hm) (hm_health hm))"
      by (auto simp: h(4-7) a cfg Let_def)
    have "sends env (hm_config hm) w w1 (failures_out (cname c) e (me_order env (dict_get_or (hm_paths hm) (cname c) [])))"
      using s by (simp add: sends_def)
    from sends_trans [OF this l(6)] show ?thesis using h l a same_frame_trans [OF h(3) l(3)] Cons.prems(1)
      by (simp add: c Inl Let_def split_beta)
  next
    case (Inr ss)
    have "snd (sample (me_reading env (mw_calls w)) c now) = Inr ss" using c Inr by simp
    then have ok: "\<And>s. s \<in> set ss \<Longrightarrow> sample_ok s" by (rule samples_ok)
    from take_samples_ok [OF Cons.prems ok, of ss "cname c" ?w] obtain hm1 w1
      where h: "take_samples env (cname c) ss hm ?w = (hm1, w1, None)" "monitor_inv hm1" "same_frame hm hm1"
        "mw_calls w1 = ?n" "mw_slept w1 = mw_slept w"
        and he: "hm_health hm1 = snd (samples_out (hm_config hm) ss (hm_health hm))"
        and p: "hm_paths hm1 = (let seen = remdups (map (\<lambda>s. full_path (hm_config hm) (ms_path s)) ss) in
          if seen \<noteq> [] then dict_set (cname c) seen (hm_paths hm) else hm_paths hm)"
      and s: "sends env (hm_config hm) ?w w1 (fst (samples_out (hm_config hm) ss (hm_health hm)))" by auto
    have cfg: "hm_config hm1 = hm_config hm" using h(3) by (simp add: same_frame_def)
    from Cons.IH [OF Cons.prems(1) h(2), of w1] obtain hm2 w2
      where l: "sample_loop sample cname env now cs hm1 w1 = (cs', hm2, w2, None)" "monitor_inv hm2" "same_frame hm1 hm2"
        "mw_calls w2 = ?n + length cs" "mw_slept w2 = mw_slept w"
        "sends env (hm_config hm) w1 w2 (fst (round_spec (me_order env) (hm_config hm) rs (hm_paths hm1) (hm_health hm1)))"
        "(hm_paths hm2, hm_health hm2) = snd (round_spec (me_order env) (hm_config hm) rs (hm_paths hm1) (hm_health hm1))"
      by (auto simp: h(4,5) a cfg Let_def)
    have "sends env (hm_config hm) w w1 (fst (samples_out (hm_config hm) ss (hm_health hm)))" using s by (simp add: sends_def)
    from sends_trans [OF this l(6)] show ?thesis using h l a same_frame_trans [OF h(3) l(3)] Cons.prems(1)
      by (simp add: c Inr Let_def p he split_beta)
  qed
qed

lemma sample_once_ok:
  assumes "good_env env" and "monitor_inv hm"
  shows "\<exists>hm1 w1. sample_once sample cname env hm w = (hm1, w1, None) \<and> monitor_inv hm1 \<and>
    hm_config hm1 = hm_config hm \<and> hm_running hm1 = hm_running hm \<and> hm_owns_ctx hm1 = hm_owns_ctx hm \<and>
    hm_ctx_open hm1 = hm_ctx_open hm \<and> mw_calls w1 = mw_calls w + length (hm_collectors hm) \<and> mw_slept w1 = mw_slept w \<and>
    (let (cs, answers) = ask sample cname (me_reading env) (mw_calls w) (env_mono (me_env env) (w_mono (mw_pub w))) (hm_collectors hm);
         (out, paths, he) = round_spec (me_order env) (hm_config hm) answers (hm_paths hm) (hm_health hm)
     in hm_collectors hm1 = cs \<and> hm_paths hm1 = paths \<and> hm_health hm1 = he \<and> sends env (hm_config hm) w w1 out)"
proof -
  let ?now = "env_mono (me_env env) (w_mono (mw_pub w))"
  obtain w0 where r: "read_monotonic env w = (?now, w0)" "mw_calls w0 = mw_calls w" "mw_slept w0 = mw_slept w"
    "w_sent (mw_pub w0) = w_sent (mw_pub w)" by (auto simp: read_monotonic_def read_mono_def)
  have s: "sends env config w w1 out" if "sends env config w0 w1 out" for config w1 out using that r(4) by (simp add: sends_def)
  from sample_loop_ok [OF assms, of ?now "hm_collectors hm" w0] r s show ?thesis
    by (fastforce simp: sample_once_def same_frame_def Let_def split: prod.splits)
qed

end

subsection \<open>The log of failures is rate limited\<close>

interpretation failure_log: rate_limiter "log_due name" "\<lambda>d t. dict_set name t d" "\<lambda>d. dict_get d name" "\<lambda>d. Fin 30" "\<lambda>t. True"
  for name :: string
proof
  show "\<not> flt (fsub now l) (Fin 30)" if "dict_get d name = Some l" "log_due name d now" for d l now
    using that by (auto simp: log_due_def dict_get_or_def dest: flt_not_fle)
qed simp_all

definition log_times :: "string \<Rightarrow> (string \<times> pyfloat) list \<Rightarrow> pyfloat list" where
  "log_times name entries = map snd (filter (\<lambda>e. fst e = name) entries)"

definition thirty_apart :: "pyfloat \<Rightarrow> pyfloat \<Rightarrow> bool" where
  "thirty_apart s t = (\<not> flt (fsub t s) (Fin 30))"

definition log_inv :: "(string, pyfloat) dict \<Rightarrow> (string \<times> pyfloat) list \<Rightarrow> bool" where
  "log_inv logged entries = (\<forall>name. successively thirty_apart (log_times name entries) \<and>
     (log_times name entries \<noteq> [] \<longrightarrow> dict_get logged name = Some (last (log_times name entries))))"

lemma log_inv_add:
  assumes "log_inv d entries" and "log_due name d now"
  shows "log_inv (dict_set name now d) (entries @ [(name, now)])"
proof -
  have "successively thirty_apart (log_times name entries @ [now])"
    using assms failure_log.gate_spaced [OF _ assms(2)]
    by (auto simp: log_inv_def successively_append_iff thirty_apart_def)
  then show ?thesis using assms(1) by (auto simp: log_inv_def log_times_def)
qed

lemma log_failure_inv:
  "log_failure name now hm w = (hm1, w1) \<Longrightarrow> log_inv (hm_last_error hm) (mw_log w) \<Longrightarrow> log_inv (hm_last_error hm1) (mw_log w1)"
  by (auto simp: log_failure_def log_inv_add split: if_splits)

definition log_ok :: "'c HostMonitor \<Rightarrow> mworld \<Rightarrow> bool" where
  "log_ok hm w = log_inv (hm_last_error hm) (mw_log w)"

subsection \<open>What every step keeps\<close>

text \<open>
  A relation between the states before and after, which the steps a round is made of satisfy,
  holds of the whole round and of any number of rounds, whatever raises in between.
\<close>

fun sample_rounds ::
  "('r \<Rightarrow> 'c \<Rightarrow> pyfloat \<Rightarrow> 'c \<times> MetricSample list result) \<Rightarrow> ('c \<Rightarrow> string) \<Rightarrow> 'r monitor_env \<Rightarrow> nat \<Rightarrow>
   'c HostMonitor \<Rightarrow> mworld \<Rightarrow> 'c HostMonitor \<times> mworld" where
  "sample_rounds sample cname env 0 hm w = (hm, w)"
| "sample_rounds sample cname env (Suc k) hm w =
     (case sample_once sample cname env hm w of (hm1, w1, e) \<Rightarrow> sample_rounds sample cname env k hm1 w1)"

locale round_frame =
  fixes kept :: "'c HostMonitor \<Rightarrow> mworld \<Rightarrow> 'c HostMonitor \<Rightarrow> mworld \<Rightarrow> bool" and env :: "'r monitor_env"
  assumes kept_refl: "kept hm w hm w"
    and kept_trans: "kept hm w hm1 w1 \<Longrightarrow> kept hm1 w1 hm2 w2 \<Longrightarrow> kept hm w hm2 w2"
    and publish_kept: "publish_at env path level msg vs hm w = (hm1, w1, e) \<Longrightarrow> kept hm w hm1 w1"
    and log_kept: "log_failure name now hm w = (hm1, w1) \<Longrightarrow> kept hm w hm1 w1"
    and clock_kept: "read_monotonic env w = (t, w1) \<Longrightarrow> kept hm w hm w1"
    and rest_kept: "kept hm w (hm\<lparr>hm_health := he\<rparr>) w" "kept hm w (hm\<lparr>hm_paths := d\<rparr>) w"
      "kept hm w (hm\<lparr>hm_collectors := cs\<rparr>) w" "kept hm w hm (w\<lparr>mw_calls := n\<rparr>)"
begin

lemma sample_kept: "publish_sample env s hm w = (hm1, w1, e) \<Longrightarrow> kept hm w hm1 w1"
  using kept_trans [OF rest_kept(1) publish_kept]
  by (auto simp: publish_sample_def rest_kept Let_def split: prod.splits sum.splits)

lemma samples_kept: "publish_samples env ss hm w = (hm1, w1, e) \<Longrightarrow> kept hm w hm1 w1"
proof (induction ss arbitrary: hm w)
  case (Cons s ss)
  obtain hm2 w2 e2 where p: "publish_sample env s hm w = (hm2, w2, e2)" using prod_cases3 by blast
  then show ?case using Cons kept_trans [OF sample_kept [OF p]] sample_kept [OF p] by (cases e2) auto
qed (simp add: kept_refl)

lemma failures_kept: "publish_failure env name exc paths hm w = (hm1, w1, e) \<Longrightarrow> kept hm w hm1 w1"
proof (induction paths arbitrary: hm w)
  case (Cons path paths)
  obtain hm2 w2 e2 where p: "publish_at env path 1 (''WARN: '' @ name @ '' collection failed ('' @ exc_name exc @ '')'')
      [(''collector.available'', PFloat (Fin 0))] hm w = (hm2, w2, e2)" using prod_cases3 by blast
  then show ?case using Cons kept_trans [OF publish_kept [OF p]] publish_kept [OF p] by (cases e2) auto
qed (simp add: kept_refl)

lemma error_kept: "handle_collector_error env name exc now hm w = (hm1, w1, e) \<Longrightarrow> kept hm w hm1 w1"
  using kept_trans [OF log_kept failures_kept] by (auto simp: handle_collector_error_def Let_def split: prod.splits)

lemma take_kept: "take_samples env name ss hm w = (hm1, w1, e) \<Longrightarrow> kept hm w hm1 w1"
  using samples_kept kept_trans [OF samples_kept rest_kept(2)]
  by (auto simp: take_samples_def kept_refl Let_def split: prod.splits option.splits if_splits)

lemma loop_kept: "sample_loop sample cname env now cs hm w = (cs', hm1, w1, e) \<Longrightarrow> kept hm w hm1 w1"
proof (induction cs arbitrary: cs' hm w hm1 w1 e)
  case (Cons c cs)
  obtain c1 r where c: "sample (me_reading env (mw_calls w)) c now = (c1, r)" by fastforce
  let ?w = "w\<lparr>mw_calls := Suc (mw_calls w)\<rparr>"
  let ?one = "case r of Inl e \<Rightarrow> handle_collector_error env (cname c) e now hm ?w | Inr ss \<Rightarrow> take_samples env (cname c) ss hm ?w"
  obtain hm2 w2 e2 where o: "?one = (hm2, w2, e2)" using prod_cases3 by blast
  have "kept hm ?w hm2 w2" using o error_kept take_kept by (cases r) auto
  then have k: "kept hm w hm2 w2" using kept_trans [OF rest_kept(4)] by blast
  show ?case
  proof (cases e2)
    case None
    obtain cs2 hm3 w3 e3 where l: "sample_loop sample cname env now cs hm2 w2 = (cs2, hm3, w3, e3)" using prod_cases4 by blast
    with Cons.prems None o c have "hm1 = hm3" "w1 = w3" by (auto simp: Let_def)
    with kept_trans [OF k Cons.IH [OF l]] show ?thesis by simp
  next
    case (Some x)
    then show ?thesis using Cons.prems k o c by (auto simp: Let_def)
  qed
qed (simp add: kept_refl)

lemma once_kept: "sample_once sample cname env hm w = (hm1, w1, e) \<Longrightarrow> kept hm w hm1 w1"
proof -
  assume a: "sample_once sample cname env hm w = (hm1, w1, e)"
  obtain now w0 where r: "read_monotonic env w = (now, w0)" by fastforce
  obtain cs hm2 w2 e2 where l: "sample_loop sample cname env now (hm_collectors hm) hm w0 = (cs, hm2, w2, e2)" using prod_cases4 by blast
  have "kept hm w hm2 w2" by (rule kept_trans [OF clock_kept [OF r] loop_kept [OF l]])
  then have "kept hm w (hm2\<lparr>hm_collectors := cs\<rparr>) w2" by (rule kept_trans [OF _ rest_kept(3)])
  then show ?thesis using a r l by (simp add: sample_once_def)
qed

lemma rounds_kept: "sample_rounds sample cname env k hm w = (hm1, w1) \<Longrightarrow> kept hm w hm1 w1"
proof (induction k arbitrary: hm w)
  case (Suc k)
  obtain hm2 w2 e where o: "sample_once sample cname env hm w = (hm2, w2, e)" using prod_cases3 by blast
  with Suc.prems have "sample_rounds sample cname env k hm2 w2 = (hm1, w1)" by simp
  from kept_trans [OF once_kept [OF o] Suc.IH [OF this]] show ?case .
qed (simp add: kept_refl)

end

text \<open>The log stays spaced, the clock goes on, and a socket is opened for each new key of the cache and for nothing else.\<close>

definition sockets_kept :: "'c HostMonitor \<Rightarrow> mworld \<Rightarrow> 'c HostMonitor \<Rightarrow> mworld \<Rightarrow> bool" where
  "sockets_kept hm w hm1 w1 =
     (\<exists>os. mw_opened w1 = mw_opened w @ os \<and> keys (hm_publishers hm1) = keys (hm_publishers hm) @ os)"

lemma publish_mono: "w_mono w \<le> w_mono (fst (snd (publish env p level msg vs w)))"
  by (cases "throttle_open p (env_mono env (w_mono w))"; cases "snd (send env p level msg vs (w\<lparr>w_mono := w_mono w + 1\<rparr>)) = Inr True")
    (simp_all add: publish_eqs send_frame)

lemma get_publisher_frame:
  assumes "get_publisher env path hm w = (hm0, w0, r)"
  shows "hm_last_error hm0 = hm_last_error hm" "mw_log w0 = mw_log w" "mw_pub w0 = mw_pub w" "sockets_kept hm w hm0 w0"
    and "r = Inr p \<Longrightarrow> path \<in> set (keys (hm_publishers hm0))"
proof -
  have "hm_last_error hm0 = hm_last_error hm \<and> mw_log w0 = mw_log w \<and> mw_pub w0 = mw_pub w \<and> sockets_kept hm w hm0 w0 \<and>
      (r = Inr p \<longrightarrow> path \<in> set (keys (hm_publishers hm0)))"
  proof (cases "dict_get (hm_publishers hm) path")
    case (Some q)
    then have "path \<in> set (keys (hm_publishers hm))" using dict_get_Some_iff [of "hm_publishers hm" path] by auto
    then show ?thesis using assms Some by (auto simp: get_publisher_def sockets_kept_def)
  next
    case None
    then have "path \<notin> set (keys (hm_publishers hm))" using dict_get_None_iff [of "hm_publishers hm" path] by auto
    then have k: "keys (dict_set path q (hm_publishers hm)) = keys (hm_publishers hm) @ [path]" for q
      unfolding keys_dict_set_eq by simp
    show ?thesis using assms None k by (auto simp: get_publisher_def sockets_kept_def split: sum.splits)
  qed
  then show "hm_last_error hm0 = hm_last_error hm" "mw_log w0 = mw_log w" "mw_pub w0 = mw_pub w" "sockets_kept hm w hm0 w0"
    "r = Inr p \<Longrightarrow> path \<in> set (keys (hm_publishers hm0))" by simp_all
qed

lemma publish_at_frame:
  assumes "publish_at env path level msg vs hm w = (hm1, w1, e)"
  shows "hm_last_error hm1 = hm_last_error hm" "mw_log w1 = mw_log w" "w_mono (mw_pub w) \<le> w_mono (mw_pub w1)"
    and "sockets_kept hm w hm1 w1"
proof -
  obtain hm0 w0 r where g: "get_publisher env path hm w = (hm0, w0, r)" using prod_cases3 by blast
  note g' = get_publisher_frame [OF g]
  have "hm_last_error hm1 = hm_last_error hm \<and> mw_log w1 = mw_log w \<and> w_mono (mw_pub w) \<le> w_mono (mw_pub w1) \<and> sockets_kept hm w hm1 w1"
  proof (cases r)
    case (Inl x)
    then show ?thesis using assms g'(1-4) by (simp add: publish_at_def g)
  next
    case (Inr p)
    obtain p' pw q where pu: "publish (me_env env) p level msg (Some vs) (mw_pub w0) = (p', pw, q)" using prod_cases3 by blast
    have "w_mono (mw_pub w0) \<le> w_mono pw" using publish_mono [of "mw_pub w0" "me_env env" p level msg "Some vs"] by (simp add: pu)
    moreover have "keys (dict_set path p' (hm_publishers hm0)) = keys (hm_publishers hm0)"
      using g'(5) [OF Inr] unfolding keys_dict_set_eq by (simp only: if_True)
    moreover have "hm1 = hm0\<lparr>hm_publishers := dict_set path p' (hm_publishers hm0)\<rparr>" "w1 = w0\<lparr>mw_pub := pw\<rparr>"
      using assms by (simp_all add: publish_at_def g Inr pu)
    ultimately show ?thesis using g'(1-4) by (simp add: sockets_kept_def)
  qed
  then show "hm_last_error hm1 = hm_last_error hm" "mw_log w1 = mw_log w" "w_mono (mw_pub w) \<le> w_mono (mw_pub w1)" "sockets_kept hm w hm1 w1"
    by simp_all
qed

interpretation log_frame: round_frame "\<lambda>hm w hm1 w1. log_ok hm w \<longrightarrow> log_ok hm1 w1" env for env :: "'r monitor_env"
proof
  show "log_ok hm w \<longrightarrow> log_ok hm1 w1" if "publish_at env path level msg vs hm w = (hm1, w1, e)" for path level msg vs hm w hm1 w1 e
    using publish_at_frame(1,2) [OF that] by (simp add: log_ok_def)
qed (auto simp: log_ok_def read_monotonic_def dest: log_failure_inv split: prod.splits)

interpretation clock_frame: round_frame "\<lambda>hm w hm1 w1. w_mono (mw_pub w) \<le> w_mono (mw_pub w1)" env for env :: "'r monitor_env"
  by unfold_locales
    (auto simp: read_monotonic_def read_mono_def log_failure_def dest: publish_at_frame(3) split: prod.splits if_splits)

interpretation socket_frame: round_frame sockets_kept env for env :: "'r monitor_env"
  by unfold_locales
    (auto simp: read_monotonic_def log_failure_def sockets_kept_def dest: publish_at_frame(4) [unfolded sockets_kept_def]
      split: prod.splits if_splits)

text \<open>What a round leaves alone.\<close>

definition settings :: "'c HostMonitor \<Rightarrow> HostMonitorConfig \<times> bool \<times> bool \<times> bool" where
  "settings hm = (hm_config hm, hm_owns_ctx hm, hm_ctx_open hm, hm_running hm)"

interpretation settings_frame: round_frame "\<lambda>hm w hm1 w1. settings hm1 = settings hm \<and> mw_slept w1 = mw_slept w" env
  for env :: "'r monitor_env"
  by unfold_locales
    (auto simp: settings_def read_monotonic_def log_failure_def publish_at_def get_publisher_def Let_def
      split: prod.splits if_splits option.splits sum.splits)

subsection \<open>The rounds of a run\<close>

text \<open>\<open>n\<close> rounds, each with the wait after it, as long as none raises.\<close>

fun run_rounds ::
  "('r \<Rightarrow> 'c \<Rightarrow> pyfloat \<Rightarrow> 'c \<times> MetricSample list result) \<Rightarrow> ('c \<Rightarrow> string) \<Rightarrow> 'r monitor_env \<Rightarrow> nat \<Rightarrow> pyfloat \<Rightarrow>
   'c HostMonitor \<Rightarrow> mworld \<Rightarrow> 'c HostMonitor \<times> mworld \<times> py_exc option" where
  "run_rounds sample cname env 0 deadline hm w = (hm, w, None)"
| "run_rounds sample cname env (Suc n) deadline hm w =
     (case sample_once sample cname env hm w of
        (hm1, w1, Some e) \<Rightarrow> (hm1, w1, Some e)
      | (hm1, w1, None) \<Rightarrow>
          (case await_deadline env (hc_sample_interval (hm_config hm1)) deadline w1 of
             (w2, Inl e) \<Rightarrow> (hm1, w2, Some e)
           | (w2, Inr d) \<Rightarrow> run_rounds sample cname env n d hm1 w2))"

text \<open>The loop of \<open>run\<close> makes its rounds up to and with the one of the first signal, unless one raises.\<close>

lemma monitor_loop_rounds:
  "signals n \<Longrightarrow> k \<le> n \<Longrightarrow> \<forall>j. k \<le> j \<and> j < n \<longrightarrow> \<not> signals j \<Longrightarrow> hm_running hm \<Longrightarrow>
   monitor_loop sample cname env signals k deadline hm w =
     Some (case run_rounds sample cname env (Suc (n - k)) deadline hm w of
             (hm1, w1, None) \<Rightarrow> (monitor_stop hm1, w1, None) | (hm1, w1, Some e) \<Rightarrow> (hm1, w1, Some e))"
proof (induction "n - k" arbitrary: k deadline hm w)
  case 0
  then have k: "k = n" by simp
  have "monitor_loop sample cname env signals (Suc n) d (monitor_stop hm1) w1 = Some (monitor_stop hm1, w1, None)" for d hm1 w1
    by (simp add: monitor_loop.simps monitor_stop_def)
  with 0 k show ?case by (auto simp: monitor_loop.simps [of _ _ _ _ n] split: prod.splits sum.splits option.splits)
next
  case (Suc j)
  obtain hm1 w1 e where o: "sample_once sample cname env hm w = (hm1, w1, e)" using prod_cases3 by blast
  have r1: "hm_running hm1" using settings_frame.once_kept [OF o] Suc.prems(4) by (simp add: settings_def)
  have k: "\<not> signals k" "n - k = Suc (n - (k + 1))" using Suc by auto
  have loop: "monitor_loop sample cname env signals (k + 1) d hm1 w2 =
     Some (case run_rounds sample cname env (Suc (n - (k + 1))) d hm1 w2 of
             (hm1, w1, None) \<Rightarrow> (monitor_stop hm1, w1, None) | (hm1, w1, Some e) \<Rightarrow> (hm1, w1, Some e))" for d w2
    by (rule Suc.hyps(1)) (use Suc r1 in auto)
  show ?case
  proof (cases e)
    case None
    obtain w2 r where a: "await_deadline env (hc_sample_interval (hm_config hm1)) deadline w1 = (w2, r)" by fastforce
    show ?thesis
    proof (cases r)
      case (Inl x)
      then show ?thesis using Suc.prems(4) by (simp add: monitor_loop.simps [of _ _ _ _ k] o a None)
    next
      case (Inr d)
      have "monitor_loop sample cname env signals k deadline hm w = monitor_loop sample cname env signals (k + 1) d hm1 w2"
        using Suc.prems(4) k(1) by (simp add: monitor_loop.simps [of _ _ _ _ k] o a None Inr)
      moreover have "run_rounds sample cname env (Suc (n - k)) deadline hm w = run_rounds sample cname env (Suc (n - (k + 1))) d hm1 w2"
        unfolding k(2) by (subst run_rounds.simps) (simp add: o a None Inr del: run_rounds.simps)
      ultimately show ?thesis by (simp only: loop)
    qed
  next
    case (Some x)
    then show ?thesis using Suc.prems(4) by (simp add: monitor_loop.simps [of _ _ _ _ k] o)
  qed
qed

text \<open>The delays \<^verbatim>\<open>time.sleep\<close> can take.\<close>

definition sleepable :: "pyfloat \<Rightarrow> bool" where
  "sleepable d = (case d of Fin x \<Rightarrow> \<lceil>x * 10 ^ 9\<rceil> < 2 ^ 63 | _ \<Rightarrow> False)"

lemma time_sleep_positive: "fgt d f0 \<Longrightarrow> time_sleep d = (if sleepable d then Inr () else Inl OverflowError)"
proof (cases d)
  case (Fin x)
  moreover assume "fgt d f0"
  ultimately have "0 \<le> \<lceil>x * 10 ^ 9\<rceil>" "0 < x" by simp_all
  then show ?thesis using Fin by (auto simp: time_sleep_def sleepable_def)
qed (auto simp: time_sleep_def sleepable_def)

lemma sleepable_mono: "x \<le> y \<Longrightarrow> sleepable (Fin y) \<Longrightarrow> sleepable (Fin x)"
proof -
  assume "x \<le> y" and y: "sleepable (Fin y)"
  then have "\<lceil>x * 10 ^ 9\<rceil> \<le> \<lceil>y * 10 ^ 9\<rceil>" by (intro ceiling_mono) simp
  also have "\<dots> < 2 ^ 63" using y unfolding sleepable_def pyfloat.case .
  finally show "sleepable (Fin x)" unfolding sleepable_def pyfloat.case .
qed

text \<open>A wait asks for at most one delay, and raises when it cannot be slept.\<close>

lemma await_cases:
  obtains (slept) d t w1 where "await_deadline env interval deadline w =
        (w1, if sleepable d then Inr (fadd deadline interval) else Inl OverflowError)"
      "mw_slept w1 = mw_slept w @ [d]" "mw_opened w1 = mw_opened w" "mw_calls w1 = mw_calls w"
      "w_mono (mw_pub w1) = w_mono (mw_pub w) + 1" "fgt d f0"
      "d = fsub (fadd deadline interval) (env_mono (me_env env) (w_mono (mw_pub w)))"
  | (late) w1 where "await_deadline env interval deadline w = (w1, Inr (env_mono (me_env env) (w_mono (mw_pub w) + 1)))"
      "mw_slept w1 = mw_slept w" "mw_opened w1 = mw_opened w" "mw_calls w1 = mw_calls w" "w_mono (mw_pub w1) = w_mono (mw_pub w) + 2"
      "\<not> fgt (fsub (fadd deadline interval) (env_mono (me_env env) (w_mono (mw_pub w)))) f0"
proof (cases "fgt (fsub (fadd deadline interval) (env_mono (me_env env) (w_mono (mw_pub w)))) f0")
  case True
  let ?d = "fsub (fadd deadline interval) (env_mono (me_env env) (w_mono (mw_pub w)))"
  obtain w1 where "await_deadline env interval deadline w = (w1, if sleepable ?d then Inr (fadd deadline interval) else Inl OverflowError)"
      "mw_slept w1 = mw_slept w @ [?d]" "mw_opened w1 = mw_opened w" "mw_calls w1 = mw_calls w"
      "w_mono (mw_pub w1) = w_mono (mw_pub w) + 1"
    using True by (auto simp: await_deadline_def read_monotonic_def read_mono_def time_sleep_positive Let_def)
  then show thesis using True by (intro slept) simp_all
next
  case False
  obtain w1 where "await_deadline env interval deadline w = (w1, Inr (env_mono (me_env env) (w_mono (mw_pub w) + 1)))"
      "mw_slept w1 = mw_slept w" "mw_opened w1 = mw_opened w" "mw_calls w1 = mw_calls w" "w_mono (mw_pub w1) = w_mono (mw_pub w) + 2"
    using False by (auto simp: await_deadline_def read_monotonic_def read_mono_def Let_def)
  then show thesis using False by (intro late) simp_all
qed

lemma await_infinite:
  "env_mono (me_env env) (w_mono (mw_pub w)) = Fin x \<Longrightarrow>
   \<exists>w1. await_deadline env PInf (Fin t) w = (w1, Inl OverflowError) \<and> mw_slept w1 = mw_slept w @ [PInf]"
  by (rule await_cases [of env PInf "Fin t" w]) (auto simp: fsub_def sleepable_def)

lemma run_rounds_kept:
  "run_rounds sample cname env n deadline hm w = (hm1, w1, e) \<Longrightarrow> sockets_kept hm w hm1 w1 \<and> settings hm1 = settings hm"
proof (induction n arbitrary: deadline hm w)
  case 0
  then show ?case by (simp add: socket_frame.kept_refl)
next
  case (Suc n)
  obtain hm2 w2 e2 where o: "sample_once sample cname env hm w = (hm2, w2, e2)" using prod_cases3 by blast
  note k = socket_frame.once_kept [OF o] settings_frame.once_kept [OF o]
  show ?case
  proof (cases e2)
    case None
    obtain w3 r where a: "await_deadline env (hc_sample_interval (hm_config hm2)) deadline w2 = (w3, r)" by fastforce
    then have op: "mw_opened w3 = mw_opened w2"
      by (rule_tac await_cases [of env "hc_sample_interval (hm_config hm2)" deadline w2]) auto
    then have k3: "sockets_kept hm w hm2 w3" using k(1) by (simp add: sockets_kept_def)
    show ?thesis
    proof (cases r)
      case (Inl x)
      then show ?thesis using Suc.prems o None a k3 k(2) by simp
    next
      case (Inr d)
      with Suc.prems o None a have "run_rounds sample cname env n d hm2 w3 = (hm1, w1, e)" by simp
      from Suc.IH [OF this] show ?thesis using socket_frame.kept_trans [OF k3] k(2) by simp
    qed
  qed (use Suc.prems o k in simp)
qed

text \<open>On a clock that does not go back, \<open>n\<close> rounds ask for no delay above \<open>n\<close> intervals.\<close>

definition steady :: "'r monitor_env \<Rightarrow> bool" where
  "steady env = (\<exists>c. mono c \<and> (\<forall>i. env_mono (me_env env) i = Fin (c i)))"

lemma run_rounds_delays:
  assumes "mono c" and clk: "\<And>i. env_mono (me_env env) i = Fin (c i)" and "0 \<le> iv"
  shows "hc_sample_interval (hm_config hm) = Fin iv \<Longrightarrow> t \<le> c (w_mono (mw_pub w)) + real k * iv \<Longrightarrow>
    run_rounds sample cname env n (Fin t) hm w = (hm1, w1, e) \<Longrightarrow>
    \<exists>ds. mw_slept w1 = mw_slept w @ ds \<and> (\<forall>d \<in> set ds. \<exists>x. d = Fin x \<and> x \<le> real (k + n) * iv)"
proof (induction n arbitrary: t hm w k)
  case (Suc n)
  obtain hm2 w2 e2 where o: "sample_once sample cname env hm w = (hm2, w2, e2)" using prod_cases3 by blast
  note s = settings_frame.once_kept [OF o] clock_frame.once_kept [OF o]
  then have iv: "hc_sample_interval (hm_config hm2) = Fin iv" using Suc.prems(1) by (simp add: settings_def)
  have t: "t \<le> c (w_mono (mw_pub w2)) + real k * iv" using Suc.prems(2) monoD [OF assms(1) s(2)] by simp
  show ?case
  proof (cases e2)
    case None
    show ?thesis
    proof (rule await_cases [of env "Fin iv" "Fin t" w2])
      fix d w3
      assume a: "await_deadline env (Fin iv) (Fin t) w2 = (w3, if sleepable d then Inr (fadd (Fin t) (Fin iv)) else Inl OverflowError)"
        "mw_slept w3 = mw_slept w2 @ [d]" "w_mono (mw_pub w3) = w_mono (mw_pub w2) + 1"
        "d = fsub (fadd (Fin t) (Fin iv)) (env_mono (me_env env) (w_mono (mw_pub w2)))"
      let ?x = "t + iv - c (w_mono (mw_pub w2))"
      have d: "d = Fin ?x" using a(4) clk by simp
      have "?x \<le> real (Suc k) * iv" using t by (simp add: algebra_simps)
      moreover have "real (Suc k) * iv \<le> real (k + Suc n) * iv" using assms(3) by (intro mult_right_mono) simp_all
      ultimately have x: "?x \<le> real (k + Suc n) * iv" by linarith
      show ?thesis
      proof (cases "sleepable d")
        case True
        then have r: "run_rounds sample cname env n (Fin (t + iv)) hm2 w3 = (hm1, w1, e)"
          using Suc.prems(3) o None iv a(1) by simp
        have "t + iv \<le> c (w_mono (mw_pub w3)) + real (Suc k) * iv"
          using t monoD [OF assms(1), of "w_mono (mw_pub w2)" "w_mono (mw_pub w3)"] a(3) by (simp add: algebra_simps)
        from Suc.IH [OF iv this r] obtain ds where
          "mw_slept w1 = mw_slept w3 @ ds" "\<forall>d \<in> set ds. \<exists>x. d = Fin x \<and> x \<le> real (k + Suc n) * iv" by auto
        then show ?thesis using a(2) s(1) d x by (intro exI [of _ "d # ds"]) auto
      next
        case False
        then have "w1 = w3" using Suc.prems(3) o None iv a(1) by simp
        then show ?thesis using a(2) s(1) d x by auto
      qed
    next
      fix w3
      assume a: "await_deadline env (Fin iv) (Fin t) w2 = (w3, Inr (env_mono (me_env env) (w_mono (mw_pub w2) + 1)))"
        "mw_slept w3 = mw_slept w2" "w_mono (mw_pub w3) = w_mono (mw_pub w2) + 2"
      then have r: "run_rounds sample cname env n (Fin (c (w_mono (mw_pub w2) + 1))) hm2 w3 = (hm1, w1, e)"
        using Suc.prems(3) o None iv clk by simp
      have "c (w_mono (mw_pub w2) + 1) \<le> c (w_mono (mw_pub w3))" by (rule monoD [OF assms(1)]) (simp add: a(3))
      moreover have "0 \<le> real (Suc k) * iv" using assms(3) by simp
      ultimately have "c (w_mono (mw_pub w2) + 1) \<le> c (w_mono (mw_pub w3)) + real (Suc k) * iv" by linarith
      from Suc.IH [OF iv this r] show ?thesis using a(2) s(1) by auto
    qed
  qed (use Suc.prems o s in simp)
qed simp

context collector_contract
begin

lemma ask_length: "length (fst (ask sample cname rd n now cs)) = length cs"
  by (induction cs arbitrary: n) (simp_all add: Let_def split_beta)

text \<open>In a working world the rounds end by themselves, or by a delay that cannot be slept.\<close>

lemma run_rounds_ok:
  "good_env env \<Longrightarrow> monitor_inv hm \<Longrightarrow>
   \<exists>hm1 w1 e ds. run_rounds sample cname env n deadline hm w = (hm1, w1, e) \<and> monitor_inv hm1 \<and>
     mw_slept w1 = mw_slept w @ ds \<and>
     (if list_all sleepable ds then e = None \<and> mw_calls w1 = mw_calls w + n * length (hm_collectors hm)
      else e = Some OverflowError \<and> list_all sleepable (butlast ds) \<and> \<not> sleepable (last ds))"
proof (induction n arbitrary: deadline hm w)
  case (Suc n)
  from sample_once_ok [OF Suc.prems, of w] obtain hm1 w1 where o: "sample_once sample cname env hm w = (hm1, w1, None)" "monitor_inv hm1"
    "mw_calls w1 = mw_calls w + length (hm_collectors hm)" "mw_slept w1 = mw_slept w"
    and cs: "hm_collectors hm1 = fst (ask sample cname (me_reading env) (mw_calls w) (env_mono (me_env env) (w_mono (mw_pub w))) (hm_collectors hm))"
    by (auto simp: Let_def split_beta)
  have l: "length (hm_collectors hm1) = length (hm_collectors hm)" by (simp add: cs ask_length)
  show ?case
  proof (rule await_cases [of env "hc_sample_interval (hm_config hm1)" deadline w1])
    fix d w2
    assume a: "await_deadline env (hc_sample_interval (hm_config hm1)) deadline w1 =
        (w2, if sleepable d then Inr (fadd deadline (hc_sample_interval (hm_config hm1))) else Inl OverflowError)"
      "mw_slept w2 = mw_slept w1 @ [d]" "mw_calls w2 = mw_calls w1"
    show ?thesis
    proof (cases "sleepable d")
      case True
      from Suc.IH [OF Suc.prems(1) o(2), of "fadd deadline (hc_sample_interval (hm_config hm1))" w2] obtain hm3 w3 e ds where
        r: "run_rounds sample cname env n (fadd deadline (hc_sample_interval (hm_config hm1))) hm1 w2 = (hm3, w3, e)" "monitor_inv hm3"
          "mw_slept w3 = mw_slept w2 @ ds"
        and c: "if list_all sleepable ds then e = None \<and> mw_calls w3 = mw_calls w2 + n * length (hm_collectors hm1)
          else e = Some OverflowError \<and> list_all sleepable (butlast ds) \<and> \<not> sleepable (last ds)" by blast
      show ?thesis using o a r c l True
        by (intro exI [of _ hm3] exI [of _ w3] exI [of _ e] exI [of _ "d # ds"]) (auto split: if_splits)
    next
      case False
      then show ?thesis using o a
        by (intro exI [of _ hm1] exI [of _ w2] exI [of _ "Some OverflowError"] exI [of _ "[d]"]) simp
    qed
  next
    fix w2
    assume a: "await_deadline env (hc_sample_interval (hm_config hm1)) deadline w1 = (w2, Inr (env_mono (me_env env) (w_mono (mw_pub w1) + 1)))"
      "mw_slept w2 = mw_slept w1" "mw_calls w2 = mw_calls w1"
    from Suc.IH [OF Suc.prems(1) o(2), of "env_mono (me_env env) (w_mono (mw_pub w1) + 1)" w2] obtain hm3 w3 e ds where
      r: "run_rounds sample cname env n (env_mono (me_env env) (w_mono (mw_pub w1) + 1)) hm1 w2 = (hm3, w3, e)" "monitor_inv hm3"
        "mw_slept w3 = mw_slept w2 @ ds"
      and c: "if list_all sleepable ds then e = None \<and> mw_calls w3 = mw_calls w2 + n * length (hm_collectors hm1)
        else e = Some OverflowError \<and> list_all sleepable (butlast ds) \<and> \<not> sleepable (last ds)" by blast
    show ?thesis using o a r c l
      by (intro exI [of _ hm3] exI [of _ w3] exI [of _ e] exI [of _ ds]) (auto split: if_splits)
  qed
qed simp

end

lemma sample_rounds_inv:
  "good_env env \<Longrightarrow> monitor_inv hm \<Longrightarrow> monitor_inv (fst (sample_rounds any_sample collector_name env k hm w)) \<and>
   hm_config (fst (sample_rounds any_sample collector_name env k hm w)) = hm_config hm"
proof (induction k arbitrary: hm w)
  case (Suc k)
  obtain hm1 w1 where o: "sample_once any_sample collector_name env hm w = (hm1, w1, None)" "monitor_inv hm1" "hm_config hm1 = hm_config hm"
    using host.sample_once_ok [OF Suc.prems, of w] by blast
  with Suc show ?case by simp
qed simp

subsection \<open>The run of the program's monitor\<close>

text \<open>What the interval of the configuration says of the delays.\<close>

definition delays_fit :: "HostMonitorConfig \<Rightarrow> nat \<Rightarrow> pyfloat list \<Rightarrow> bool" where
  "delays_fit config nrounds ds =
     (case hc_sample_interval config of
        Fin iv \<Rightarrow> if sleepable (Fin (real nrounds * iv)) then list_all sleepable ds else True
      | PInf \<Rightarrow> ds = [PInf]
      | _ \<Rightarrow> True)"

lemma load_interval:
  "configure lw opts = Inr config \<Longrightarrow> hc_sample_interval config = Fin iv \<Longrightarrow> 0 \<le> iv"
  using validate_host_config_iff
  by (auto simp: configure_def load_host_monitor_config_def bindE_Inr_iff host_config_ok_def below_or_nan_def split: option.splits)

lemma monitor_run_ok:
  fixes config
  defines "hm \<equiv> monitor_init config (build_collectors config) False"
  assumes sg: "signals n" and env: "good_env env" and iv: "\<And>iv. hc_sample_interval config = Fin iv \<Longrightarrow> 0 \<le> iv"
  shows "\<exists>hm1 w1 e ds. monitor_run any_sample collector_name env signals hm w = Some (hm1, w1, e) \<and> monitor_inv hm1 \<and>
    hm_owns_ctx hm1 \<and> sockets_kept hm w hm1 w1 \<and> mw_slept w1 = mw_slept w @ ds \<and>
    (if list_all sleepable ds then e = None \<and> mw_calls w1 = mw_calls w + Suc (LEAST k. signals k) * length (build_collectors config)
     else e = Some OverflowError \<and> list_all sleepable (butlast ds) \<and> \<not> sleepable (last ds)) \<and>
    (steady env \<longrightarrow> delays_fit config (Suc (LEAST k. signals k)) ds)"
proof -
  let ?m = "LEAST k. signals k" and ?hm = "hm\<lparr>hm_running := True\<rparr>"
  obtain w0 where r: "read_monotonic env w = (env_mono (me_env env) (w_mono (mw_pub w)), w0)"
    and w0: "mw_calls w0 = mw_calls w" "mw_slept w0 = mw_slept w" "mw_opened w0 = mw_opened w" "w_mono (mw_pub w0) = w_mono (mw_pub w) + 1"
    by (auto simp: read_monotonic_def read_mono_def)
  let ?t = "env_mono (me_env env) (w_mono (mw_pub w))"
  have i: "monitor_inv ?hm" and cfg: "hm_config ?hm = config" and cs: "hm_collectors ?hm = build_collectors config" and own: "hm_owns_ctx ?hm"
    by (simp_all add: hm_def monitor_init_def monitor_inv_def)
  from host.run_rounds_ok [OF env i, of "Suc ?m" ?t w0] obtain hm1 w1 e ds where
    rr: "run_rounds any_sample collector_name env (Suc ?m) ?t ?hm w0 = (hm1, w1, e)" "monitor_inv hm1" "mw_slept w1 = mw_slept w0 @ ds"
    and ends: "if list_all sleepable ds then e = None \<and> mw_calls w1 = mw_calls w0 + Suc ?m * length (hm_collectors ?hm)
      else e = Some OverflowError \<and> list_all sleepable (butlast ds) \<and> \<not> sleepable (last ds)" by blast
  note k = run_rounds_kept [OF rr(1)]
  let ?hm1 = "if e = None then monitor_stop hm1 else hm1"
  have m: "signals ?m" using sg by (rule LeastI)
  have m': "\<forall>j. 0 \<le> j \<and> j < ?m \<longrightarrow> \<not> signals j" using not_less_Least by blast
  have "hm_running ?hm" by simp
  from monitor_loop_rounds [OF m le0 m' this, of any_sample collector_name env ?t w0]
  have "monitor_loop any_sample collector_name env signals 0 ?t ?hm w0 = Some (?hm1, w1, e)"
    unfolding diff_zero rr(1) by (cases e) simp_all
  then have run: "monitor_run any_sample collector_name env signals hm w = Some (?hm1, w1, e)" by (simp add: monitor_run_def r)
  have "delays_fit config (Suc ?m) ds" if st: "steady env"
  proof -
    obtain c where c: "mono c" "\<And>i. env_mono (me_env env) i = Fin (c i)" using st by (auto simp: steady_def)
    show ?thesis
    proof (cases "hc_sample_interval config")
      case (Fin iv')
      have "c (w_mono (mw_pub w)) \<le> c (w_mono (mw_pub w0))" by (rule monoD [OF c(1)]) (simp add: w0)
      then have t: "c (w_mono (mw_pub w)) \<le> c (w_mono (mw_pub w0)) + real 0 * iv'" by simp
      have "hc_sample_interval (hm_config ?hm) = Fin iv'" using Fin cfg by simp
      from run_rounds_delays [where k = 0 and c = c, OF c iv [OF Fin] this t rr(1) [unfolded c(2)]] rr(3)
      have "\<forall>d \<in> set ds. \<exists>x. d = Fin x \<and> x \<le> real (Suc ?m) * iv'" by simp
      then show ?thesis using sleepable_mono by (force simp: delays_fit_def Fin list_all_iff)
    next
      case PInf
      obtain hm2 w2 e2 where o: "sample_once any_sample collector_name env ?hm w0 = (hm2, w2, None)" "mw_slept w2 = mw_slept w0"
        "hm_config hm2 = config"
        using host.sample_once_ok [OF env i, of w0] cfg by auto
      from await_infinite [OF c(2)] obtain w3 where "await_deadline env PInf (Fin (c (w_mono (mw_pub w)))) w2 = (w3, Inl OverflowError)"
        "mw_slept w3 = mw_slept w2 @ [PInf]" by blast
      then have "mw_slept w1 = mw_slept w2 @ [PInf]" using rr(1) o by (simp add: PInf c(2))
      then show ?thesis using rr(3) o(2) by (simp add: delays_fit_def PInf)
    qed (simp_all add: delays_fit_def)
  qed
  moreover have "monitor_inv ?hm1" using rr(2) by (simp add: monitor_stop_def)
  moreover have "hm_owns_ctx ?hm1" using k own by (simp add: settings_def monitor_stop_def)
  moreover have "sockets_kept hm w ?hm1 w1" using k w0(3) by (simp add: sockets_kept_def monitor_stop_def)
  ultimately show ?thesis using run rr(3) ends w0(1,2) cs by (intro exI [of _ ?hm1] exI [of _ w1] exI [of _ e] exI [of _ ds]) simp
qed

subsection \<open>What the messages of a round look like\<close>

fun out_ok :: "outgoing \<Rightarrow> bool" where
  "out_ok (Measured path level txt vs) = (level \<in> {0, 1, 2} \<and> named vs \<and> all_finite vs)"
| "out_ok (Failed path name exc) = True"

lemma samples_out_ok:
  "(\<And>s. s \<in> set ss \<Longrightarrow> sample_ok s) \<Longrightarrow> states_ok error_key he \<Longrightarrow>
   list_all out_ok (fst (samples_out config ss he)) \<and> states_ok error_key (snd (samples_out config ss he))"
proof (induction ss arbitrary: he)
  case (Cons s ss)
  have s: "sample_ok s" and obs: "\<And>ob. ob \<in> set (ms_alerts s) \<Longrightarrow> obs_ok error_key ob"
    using Cons.prems(1) by (auto simp: sample_ok_def)
  obtain he1 level message where e: "evaluate he (ms_alerts s) = (he1, Inr (level, message))"
    using evaluate_ok [of "ms_alerts s" error_key he] obs Cons.prems(2) by (metis old.prod.exhaust prod.collapse)
  have "states_ok error_key he1" using evaluate_ok [of "ms_alerts s" error_key he] obs Cons.prems(2) by (simp add: e)
  moreover have "level \<in> {0, 1, 2}"
    by (rule evaluate_range [of "ms_alerts s" error_key he _ message]) (use obs Cons.prems(2) e in auto)
  moreover have "sample_ok t" if "t \<in> set ss" for t using Cons.prems(1) [of t] that by simp
  ultimately show ?case using Cons.IH [of he1] s unfolding sample_ok_def [of s] by (simp add: e Let_def split_beta)
qed simp

lemma round_spec_ok:
  "(\<And>name ss s. (name, Inr ss) \<in> set answers \<Longrightarrow> s \<in> set ss \<Longrightarrow> sample_ok s) \<Longrightarrow> states_ok error_key he \<Longrightarrow>
   list_all out_ok (fst (round_spec order config answers paths he))"
proof (induction order config answers paths he rule: round_spec.induct)
  case (2 order config name e answers paths he)
  then show ?case by (auto simp: failures_out_def list_all_iff Let_def split_beta)
next
  case (3 order config name ss answers paths he)
  have "list_all out_ok (fst (samples_out config ss he)) \<and> states_ok error_key (snd (samples_out config ss he))"
    using 3(2) [of name ss] 3(3) by (intro samples_out_ok) auto
  moreover have "sample_ok s" if "(n, Inr ts) \<in> set answers" "s \<in> set ts" for n ts s using 3(2) [of n ts s] that by simp
  ultimately show ?case using 3(1) [OF refl refl prod.collapse] by (simp add: Let_def split_beta)
qed simp

context collector_contract
begin

lemma ask_samples_ok: "(name, Inr ss) \<in> set (snd (ask sample cname rd n now cs)) \<Longrightarrow> s \<in> set ss \<Longrightarrow> sample_ok s"
proof (induction cs arbitrary: n)
  case (Cons c cs)
  then show ?case using Cons.IH [of "n + 1"] samples_ok [of "rd n" c now ss s] by (auto simp: Let_def split_beta)
qed simp

end

lemma payload_json: "isfinite stamp \<Longrightarrow> all_finite vs \<Longrightarrow> json_ok (payload_of p stamp level txt (available_values vs))"
  using available_json [of vs] by (simp add: payload_of_def list_all_iff split_beta)

lemma sent_json_ok:
  assumes "sent_as config pl m" and "out_ok m"
  shows "json_ok pl"
proof (cases m)
  case (Measured path level t vs)
  then show ?thesis using assms payload_json by (auto simp: from_monitor_def)
next
  case (Failed path name exc)
  then show ?thesis using assms by (auto simp: from_monitor_def payload_of_def)
qed

subsection \<open>A monitor with the battery collector\<close>

definition quiet_env :: "readings monitor_env" where
  "quiet_env = \<lparr>me_env = demo_env, me_environ = (\<lambda>v. None), me_connect = (\<lambda>ep. Inr ()), me_reading = (\<lambda>n. calm_readings), me_order = (\<lambda>ps. ps)\<rparr>"

definition start_world :: mworld where
  "start_world = \<lparr>mw_pub = demo_world, mw_calls = 0, mw_log = [], mw_slept = [], mw_opened = []\<rparr>"

lemma quiet_env_good: "good_env quiet_env" "all_sent quiet_env"
  by (simp_all add: good_env_def all_sent_def quiet_env_def demo_env_def)

definition battery_monitor :: "any_collector HostMonitor" where
  "battery_monitor = monitor_init (default_host_config ''robot'') [CBattery (default_host_config ''robot'')] False"

definition battery_message :: "outgoing \<Rightarrow> bool" where
  "battery_message m = (\<exists>t vs. m = Measured ''host/robot/battery'' 0 t vs)"

lemma battery_round:
  "\<exists>m. fst (round_spec (me_order quiet_env) (hm_config battery_monitor)
      (snd (ask any_sample collector_name (me_reading quiet_env) (mw_calls start_world)
        (env_mono (me_env quiet_env) (w_mono (mw_pub start_world))) (hm_collectors battery_monitor)))
      (hm_paths battery_monitor) (hm_health battery_monitor)) = [m] \<and> battery_message m"
proof -
  let ?hm = battery_monitor and ?now = "env_mono (me_env quiet_env) (w_mono (mw_pub start_world))"
  obtain s where s: "snd (any_sample calm_readings (CBattery (default_host_config ''robot'')) ?now) = Inr [s]" and p: "ms_path s = ''battery''"
    and al: "ms_alerts s = battery_alerts default_thresholds False (Fin 50)"
    by (simp add: calm_readings_def battery_sample_def battery_values_def battery_alerts_def battery_suffix_def
        finite_values_def float_of_int_small default_host_config_def host_post_init_def Let_def)
  have ev: "\<exists>he. evaluate (hm_health ?hm) (ms_alerts s) = (he, Inr (0, ''OK''))"
    by (simp add: al battery_alerts_def battery_monitor_def monitor_init_def HealthEvaluator_init_def default_host_config_def
        host_post_init_def default_thresholds_def evaluate_def observe_def state_of_def set_state_def target_defs debounce_def
        AlertState_init_def dict_get_or_def health_report_def)
  have a: "snd (ask any_sample collector_name (me_reading quiet_env) (mw_calls start_world) ?now (hm_collectors ?hm)) = [(''battery'', Inr [s])]"
    using s by (simp add: battery_monitor_def monitor_init_def quiet_env_def)
  have c: "hm_config ?hm = default_host_config ''robot''" by (simp add: battery_monitor_def monitor_init_def)
  have path: "full_path (default_host_config ''robot'') ''battery'' = ''host/robot/battery''"
    by (simp add: full_path_def default_host_config_def host_post_init_def strip_chars_def strip_by_def Let_def)
  show ?thesis unfolding a c using ev by (auto simp: p path battery_message_def Let_def)
qed

lemma battery_start:
  "monitor_inv battery_monitor" "hm_config battery_monitor = default_host_config ''robot''" "w_sent (mw_pub start_world) = []"
  by (simp_all add: battery_monitor_def start_world_def demo_world_def)

subsection \<open>Properties\<close>

text \<open>C3: One round implements the abstract round, in a world where publishing works. Every collector is
  asked exactly once, in order, whatever the others did; the messages on the wire are, one for
  one and in order, those the abstract round derives from the answers, the paths last reported
  and the health evaluator: the samples of a collector that answers, each with the level and
  the text of the one evaluator that goes through all of them, and for one that raises a report
  at each path it was last seen at. No exception leaves the round.\<close>

theorem sample_once_refines:
  assumes "good_env env" and "all_sent env" and "monitor_inv hm"
  shows "case sample_once any_sample collector_name env hm w of (hm1, w1, e) \<Rightarrow>
    (let (cs, answers) = ask any_sample collector_name (me_reading env) (mw_calls w) (env_mono (me_env env) (w_mono (mw_pub w))) (hm_collectors hm);
         (out, paths, he) = round_spec (me_order env) (hm_config hm) answers (hm_paths hm) (hm_health hm)
     in e = None \<and> monitor_inv hm1 \<and> hm_collectors hm1 = cs \<and> hm_paths hm1 = paths \<and> hm_health hm1 = he \<and>
        (\<exists>pls. w_sent (mw_pub w1) = w_sent (mw_pub w) @ pls \<and> list_all2 (sent_as (hm_config hm)) pls out))"
  using host.sample_once_ok [OF assms(1,3), of w] assms(2) by (auto simp: sends_def Let_def split: prod.splits)

theorem sample_once_refines_witness:
  "case sample_once any_sample collector_name quiet_env battery_monitor start_world of (hm1, w1, e) \<Rightarrow>
     e = None \<and> (\<exists>pl m. w_sent (mw_pub w1) = [pl] \<and> sent_as (hm_config battery_monitor) pl m \<and> battery_message m)"
  using sample_once_refines [OF quiet_env_good battery_start(1), of start_world] battery_round
  by (fastforce simp: battery_start(3) Let_def split_beta list_all2_Cons2 simp del: sent_as.simps)

text \<open>C26: One socket per path. After any number of rounds in a world where publishing works, the paths
  for which a socket was opened are distinct and are exactly those of the monitor's cache: a path
  that has its publisher is published at through that one, and none is opened and then lost.
  Each cached publisher is open, and for its path and the configured hardware id, under the
  configured prefix and host name.\<close>

theorem publishers_cached:
  assumes "good_env env" and "sample_rounds any_sample collector_name env k (monitor_init config cs given) w = (hm, w')"
  shows "(\<exists>opened. mw_opened w' = mw_opened w @ opened \<and> distinct opened \<and> keys (hm_publishers hm) = opened) \<and>
    (\<forall>path p. (path, p) \<in> set (hm_publishers hm) \<longrightarrow>
       starts_with (hc_node_prefix config @ ''/'' @ hc_hostname config @ ''/'') path \<and>
       dp_node p = path \<and> dp_hw_id p = hc_hw_id config \<and> dp_open p)"
proof -
  have i: "monitor_inv hm" "hm_config hm = config"
    using sample_rounds_inv [OF assms(1), of "monitor_init config cs given" k w] by (simp_all add: assms(2))
  have "starts_with (hc_node_prefix config @ ''/'' @ hc_hostname config @ ''/'') (full_path config suffix)" for suffix
    by (simp add: full_path_def starts_with_def)
  then have p: "\<forall>path p. (path, p) \<in> set (hm_publishers hm) \<longrightarrow>
       starts_with (hc_node_prefix config @ ''/'' @ hc_hostname config @ ''/'') path \<and>
       dp_node p = path \<and> dp_hw_id p = hc_hw_id config \<and> dp_open p"
    using i by (fastforce simp: monitor_inv_def publisher_for_def)
  have "distinct (keys (hm_publishers hm))" using i(1) by (simp add: monitor_inv_def wf_dict_def)
  moreover have "keys (hm_publishers (monitor_init config cs given)) = []" by (simp add: monitor_init_def)
  ultimately show ?thesis using socket_frame.rounds_kept [OF assms(2)] p by (auto simp: sockets_kept_def)
qed

text \<open>Three rounds of a monitor with one collector open one socket.\<close>

theorem publishers_cached_witness:
  "distinct (mw_opened (snd (sample_rounds any_sample collector_name quiet_env 3 battery_monitor start_world))) \<and>
   keys (hm_publishers (fst (sample_rounds any_sample collector_name quiet_env 3 battery_monitor start_world))) =
     mw_opened (snd (sample_rounds any_sample collector_name quiet_env 3 battery_monitor start_world))"
  using publishers_cached [where k = 3 and w = start_world and config = "default_host_config ''robot''" and
      cs = "[CBattery (default_host_config ''robot'')]" and given = False, OF quiet_env_good(1) surjective_pairing]
  by (auto simp: battery_monitor_def [symmetric]) (simp_all add: start_world_def)

text \<open>C27: However often and in whatever way collectors fail, and whatever publishing does, the warnings
  logged for one collector are at least 30 seconds apart.\<close>

theorem failure_log_spaced:
  assumes "sample_rounds any_sample collector_name env k (monitor_init config cs given) w = (hm, w')" and "mw_log w = []"
  shows "successively (\<lambda>s t. \<not> flt (fsub t s) (Fin 30)) (map snd (filter (\<lambda>e. fst e = name) (mw_log w')))"
proof -
  have "log_ok (monitor_init config cs given) w" by (simp add: log_ok_def log_inv_def log_times_def assms(2))
  with log_frame.rounds_kept [OF assms(1)] have "log_ok hm w'" by blast
  then show ?thesis
    by (simp add: log_ok_def log_inv_def log_times_def thirty_apart_def [abs_def])
qed

theorem failure_log_spaced_witness:
  "successively (\<lambda>s t. \<not> flt (fsub t s) (Fin 30))
     (map snd (filter (\<lambda>e. fst e = ''memory'')
       (mw_log (snd (sample_rounds any_sample collector_name quiet_env 100
          (monitor_init (default_host_config ''h'') [CMemory (default_host_config ''h'')] False) start_world)))))"
  by (rule failure_log_spaced [where k = 100 and w = start_world, OF surjective_pairing]) (simp add: start_world_def)

text \<open>C11: How the program ends, started with a configuration that loads, in a world where publishing
  works, with one sample asked for or a stop signal to come. It always ends, the context
  terminated, no publisher left in the monitor, and every publisher that was opened closed; no
  failure of a collector ends it. It exits with code 0 when every delay it asked of
  \<^verbatim>\<open>time.sleep\<close> can be slept, and every collector has then been asked once in each round, in one
  round for a single sample and otherwise in the rounds up to and with that of the signal. That is
  the case for a single sample, and on a clock that does not go back whenever as many intervals as
  there are rounds fit into 2 to the power 63 nanoseconds. Otherwise the first delay that cannot be
  slept ends it with OverflowError: an infinite interval, which the validation lets through, does
  so after the first round.\<close>

theorem host_monitor_ends:
  assumes "configure lw opts = Inr config" and "good_env env" and "mo_once opts \<or> signals n"
  shows "\<exists>hm pubs w' e ds. monitor_main lw opts env signals w = Some (e, Some (hm, pubs), w') \<and>
    hm_publishers hm = [] \<and> \<not> hm_ctx_open hm \<and> (\<forall>p \<in> set pubs. \<not> dp_open p) \<and>
    mw_opened w' = mw_opened w @ map dp_node pubs \<and> mw_slept w' = mw_slept w @ ds \<and>
    (let nrounds = (if mo_once opts then 1 else Suc (LEAST k. signals k)) in
     (if list_all sleepable ds then e = None \<and> mw_calls w' = mw_calls w + nrounds * length (build_collectors config)
      else e = Some OverflowError \<and> list_all sleepable (butlast ds) \<and> \<not> sleepable (last ds)) \<and>
     (if mo_once opts then ds = []
      else if steady env then
        (case hc_sample_interval config of
           Fin iv \<Rightarrow> if sleepable (Fin (real nrounds * iv)) then list_all sleepable ds else True
         | PInf \<Rightarrow> ds = [PInf]
         | _ \<Rightarrow> True)
      else True))"
proof -
  let ?hm = "monitor_init config (build_collectors config) False" and ?rounds = "if mo_once opts then 1 else Suc (LEAST k. signals k)"
  have i: "monitor_inv ?hm" and own: "hm_owns_ctx ?hm" and cs: "hm_collectors ?hm = build_collectors config" and none: "hm_publishers ?hm = []"
    by (simp, simp_all add: monitor_init_def)
  obtain hm1 w1 e ds where
    r: "(if mo_once opts then Some (sample_once any_sample collector_name env ?hm w)
        else monitor_run any_sample collector_name env signals ?hm w) = Some (hm1, w1, e)"
    and inv: "monitor_inv hm1" and o: "hm_owns_ctx hm1" and sk: "sockets_kept ?hm w hm1 w1" and ds: "mw_slept w1 = mw_slept w @ ds"
    and ends: "if list_all sleepable ds then e = None \<and> mw_calls w1 = mw_calls w + ?rounds * length (build_collectors config)
        else e = Some OverflowError \<and> list_all sleepable (butlast ds) \<and> \<not> sleepable (last ds)"
    and delays: "if mo_once opts then ds = [] else if steady env then delays_fit config ?rounds ds else True"
  proof (cases "mo_once opts")
    case True
    from host.sample_once_ok [OF assms(2) i, of w] obtain hm1 w1 where s: "sample_once any_sample collector_name env ?hm w = (hm1, w1, None)"
      "monitor_inv hm1" "hm_owns_ctx hm1" "mw_calls w1 = mw_calls w + length (hm_collectors ?hm)" "mw_slept w1 = mw_slept w"
      using own by auto
    from socket_frame.once_kept [OF s(1)] s True show thesis unfolding cs by (intro that [of hm1 w1 None "[]"]) simp_all
  next
    case False
    from monitor_run_ok [where config = config and signals = signals and n = n and w = w, OF _ assms(2) load_interval [OF assms(1)]] False assms(3) obtain hm1 w1 e ds where
      "monitor_run any_sample collector_name env signals ?hm w = Some (hm1, w1, e)" "monitor_inv hm1" "hm_owns_ctx hm1"
      "sockets_kept ?hm w hm1 w1" "mw_slept w1 = mw_slept w @ ds"
      "if list_all sleepable ds then e = None \<and> mw_calls w1 = mw_calls w + Suc (LEAST k. signals k) * length (build_collectors config)
        else e = Some OverflowError \<and> list_all sleepable (butlast ds) \<and> \<not> sleepable (last ds)"
      "steady env \<longrightarrow> delays_fit config (Suc (LEAST k. signals k)) ds" by blast
    with False show thesis by (intro that [of hm1 w1 e ds]) simp_all
  qed
  have closed: "\<not> dp_open (publisher_close p)" "dp_node (publisher_close p) = dp_node p" for p by (simp_all add: publisher_close_def Let_def)
  have "map (\<lambda>(path, p). dp_node (publisher_close p)) (hm_publishers hm1) = keys (hm_publishers hm1)"
    using inv by (auto simp: closed monitor_inv_def publisher_for_def)
  then have op: "mw_opened w1 = mw_opened w @ map dp_node (map (\<lambda>(path, p). publisher_close p) (hm_publishers hm1))"
    using sk none by (auto simp: sockets_kept_def comp_def split_beta)
  have cl: "monitor_close hm1 = (hm1\<lparr>hm_publishers := [], hm_ctx_open := False\<rparr>, map (\<lambda>(path, p). publisher_close p) (hm_publishers hm1))"
    by (simp add: monitor_close_def o Let_def)
  have m: "monitor_main lw opts env signals w = Some (e, Some (monitor_close hm1), w1)"
    unfolding monitor_main_def assms(1) sum.case Let_def r by simp
  show ?thesis
    by (intro exI [of _ "hm1\<lparr>hm_publishers := [], hm_ctx_open := False\<rparr>"]
        exI [of _ "map (\<lambda>(path, p). publisher_close p) (hm_publishers hm1)"] exI [of _ w1] exI [of _ e] exI [of _ ds])
      (use m cl op ds ends delays closed in \<open>auto simp: Let_def delays_fit_def split_beta split: pyfloat.splits\<close>)
qed

text \<open>The default configuration, and a signal during round 4: five rounds, exit code 0.\<close>

theorem host_monitor_ends_witness:
  "\<exists>hm pubs w'. monitor_main (host_world PNone) \<lparr>mo_config = Some ''c.yaml'', mo_endpoint = None, mo_once = False\<rparr> quiet_env
     (\<lambda>k. k = 4) start_world = Some (None, Some (hm, pubs), w') \<and> hm_publishers hm = [] \<and> \<not> hm_ctx_open hm \<and>
     (\<forall>p \<in> set pubs. \<not> dp_open p) \<and> mw_opened w' = map dp_node pubs \<and>
     mw_calls w' = 5 * length (build_collectors (default_host_config ''robot''))"
proof -
  let ?o = "\<lparr>mo_config = Some ''c.yaml'', mo_endpoint = None, mo_once = False\<rparr>"
  have d: "validate_host_config (default_host_config ''robot'') = Inr ()" by (simp add: validate_host_config_iff default_host_config_ok)
  have "load_host_monitor_config (host_world PNone) (Some ''c.yaml'') = Inr (default_host_config ''robot'')"
    by (simp add: load_host_monitor_config_def host_world_def config_path_def load_document_def host_mapping_def get_none_def
        build_host_config_empty d)
  then have c: "configure (host_world PNone) ?o = Inr (default_host_config ''robot'')" by (simp add: configure_def)
  have iv: "hc_sample_interval (default_host_config ''robot'') = Fin 1"
    by (simp add: default_host_config_def host_post_init_def Let_def)
  have "steady quiet_env" unfolding steady_def
    by (intro exI [of _ real]) (simp add: quiet_env_def demo_env_def mono_def)
  moreover have "sleepable (Fin 5)" by (simp add: sleepable_def)
  moreover have "(LEAST k. k = (4::nat)) = 4" by (rule Least_equality) auto
  moreover have "mw_opened start_world = []" "mw_calls start_world = 0" by (simp_all add: start_world_def)
  ultimately show ?thesis
    using host_monitor_ends [where signals = "\<lambda>k. k = 4" and n = 4 and w = start_world, OF c quiet_env_good(1)] iv
    by (auto simp: Let_def)
qed

end
