(* ===== verification/Spec2Isabelle.thy ===== *)
theory Spec2Isabelle
  imports Agg_Node Monitor_Proofs
begin

text \<open>
  The Python package \<^verbatim>\<open>pyxbot2_diagnostics\<close> (below \<^verbatim>\<open>src/python/src\<close>): a publisher library,
  an aggregator process that collects what is published and drives sinks, and a host monitor
  process that samples the machine and publishes what it finds.

  \<^bold>\<open>How the parts interact.\<close> A node (or the host monitor) sends payloads through a
  \<^verbatim>\<open>DiagPublisher\<close>; \<^verbatim>\<open>ZmqDiagnosticsSource\<close> polls the socket, validates and normalises each
  payload and hands the messages to \<^verbatim>\<open>DiagnosticsAggregator\<close>, which keeps the latest message of
  each node, marks silent nodes stale and calls every sink for every message and every change
  of the state. The ROS source brings messages from a second transport. The host monitor drives a
  list of collectors, lets the health evaluator turn their alerts into a level and a text, and
  publishes one payload per sample.

  \<^bold>\<open>Which theory models which file.\<close>

  \<^item> \<open>Py_Prelude\<close> and \<open>Py_Text\<close>: the fragment of Python that the code uses. Floats are \<open>Fin x\<close>, the
    infinities and NaN, with exact arithmetic on finite values and the comparisons of IEEE 754;
    ints are \<open>int\<close>; dictionaries are association lists in insertion order; a raise is the left
    side of a sum; a clock is a function of the number of its readings. Strings are lists of
    characters.
  \<^item> \<open>Stats\<close>: \<^verbatim>\<open>stats_accumulator.py\<close>. \<open>Publisher\<close>: \<^verbatim>\<open>publisher.py\<close>. \<open>Health\<close>:
    \<^verbatim>\<open>host_monitor/health.py\<close>.
  \<^item> \<open>Message\<close> and \<open>Aggregator\<close>: \<^verbatim>\<open>aggregator/aggregator.py\<close> with the JSON schema of a message.
  \<^item> \<open>Influx_Sink\<close>, \<open>Json_File_Sink\<close> (with \<open>Json\<close>, the text \<^verbatim>\<open>json.dumps\<close> writes), \<open>Stdout_Sink\<close>,
    \<open>Ros_Sink\<close>: \<^verbatim>\<open>aggregator/sinks/\<close>. \<open>Ros_Source\<close>: \<^verbatim>\<open>aggregator/sources/\<close>.
  \<^item> \<open>Pipeline\<close>: the aggregator on the program's own sinks and sources, and the way of a payload
    from the publisher to the aggregator.
  \<^item> \<open>Py_Config\<close>, \<open>Agg_Config\<close>, \<open>Agg_Node\<close>: \<^verbatim>\<open>aggregator/config.py\<close> and
    \<^verbatim>\<open>aggregator/aggregator_node.py\<close>, from the configuration file to the exit code.
  \<^item> \<open>Host_Config\<close>: \<^verbatim>\<open>host_monitor/config.py\<close>.
  \<^item> \<open>Collector_Base\<close>, \<open>Sensor_Collectors\<close>, \<open>Rate_Collectors\<close>, \<open>Command_Parsers\<close>,
    \<open>Command_Collectors\<close>, \<open>Host_Collectors\<close>: \<^verbatim>\<open>host_monitor/collectors.py\<close>: what collectors share,
    the eleven collectors with their parsers, and the list a configuration enables.
  \<^item> \<open>Host_Monitor\<close> and \<open>Monitor_Proofs\<close>: \<^verbatim>\<open>host_monitor/monitor.py\<close>, the round, the loop, \<^verbatim>\<open>main\<close>,
    and what they guarantee.

  \<^bold>\<open>State and operations.\<close> A class is a record with a field per attribute, its constructor the
  definition with the suffix \<open>init\<close>, a method a function from the record (and the world, for what it
  reads or does outside) to the record it leaves and its result. An operation that can raise half
  way returns the state it leaves with the exception. Names follow the source; a suffix or a
  prefix is added where a name would clash.

  \<^bold>\<open>Interfaces.\<close> Each contract between components is a locale, interpreted on the model's own
  definitions. \<open>rate_limiter\<close>: a gate that compares a clock reading with that of the last action
  (the publisher's throttle, the InfluxDB flush, the stdout interval, the ROS rate, the log of
  collector failures). \<open>sink_contract\<close>, \<open>source_contract\<close> and their union \<open>aggregator_contract\<close>: what
  the aggregator relies on (each sink, the sum of the sinks, the ROS source, the pipeline).
  \<open>collector_contract\<close>: what the host monitor relies on (the sum of the collectors).
  \<open>probe_collector\<close>: a collector that looks for a tool (NVIDIA GPUs, tegrastats). \<open>round_frame\<close>: a
  relation that every step of a monitor's round keeps (the log, the clock, the sockets, the settings).

  \<^bold>\<open>What the lemmas show.\<close> Statistics: the online recurrence gives the mean, the deviation and the
  extremes, the ring buffer the percentiles of the newest samples. Publisher and health: throttling
  along any sequence of calls, what goes on the wire, hysteresis and debouncing of levels, the
  independence of alerts. Aggregator: the invariant of its cache, staleness, the latest message
  per node, what each payload becomes, that the loop ends after the poll of the signal (\<open>polls\<close> counts
  them). Sinks: every point reaches one write call and is stored unless that call fails, the two
  rolling files hold the last two pieces of the log, the hierarchy of statuses and its levels,
  which messages make a sink raise. Host monitor: one round implements an abstract round
  (\<open>round_spec\<close>), one socket per path, the spacing of logged failures, thresholds and rates of the
  collectors, the parsers, the life of a missing tool. Processes: in a working outside world both
  make every poll or round up to the one of the signal, close everything and exit with code 0.
  Two configurations that load are excepted, and the theorems say what they do: a JSON sink whose
  size limit is not finite stops the aggregator at its start, and an interval beyond what
  \<^verbatim>\<open>time.sleep\<close> takes (infinite, or too large) ends the host monitor with OverflowError.

  \<^bold>\<open>Loops.\<close> The loops of \<^verbatim>\<open>run\<close> in the aggregator and in the host monitor may run forever; they are
  \<open>partial_function (option)\<close>, with theorems that they return once a signal has arrived. All other
  functions are total; no definition has fuel. The tails of \<open>function\<close> definitions get shorter (the
  expansion of variables, the matchers of regular expressions, shell patterns).

  \<^bold>\<open>Outside the program\<close>, as parameters: clocks, the ZMQ socket, JSON and YAML parsing, the InfluxDB
  client, ROS message types and middleware, file system, \<^verbatim>\<open>psutil\<close>, the commands run and the
  text of floats. Theorems about processes assume a working outside world and name what that is
  (\<open>world_up\<close>, \<open>sinks_env_ok\<close>, \<open>spins_fine\<close>, \<open>good_env\<close>).

  \<^bold>\<open>Not modelled, and why.\<close> The package's \<^verbatim>\<open>__init__\<close> and \<^verbatim>\<open>__main__\<close> files only re-export names and
  call \<^verbatim>\<open>main\<close>. The launch files build descriptions of a framework that is not part of the
  repository. Parsing of command line arguments and the set-up of logging are library calls; the
  options they give are arguments of the model. The C++ library is another language. Rounding of
  floating point arithmetic is left out: finite arithmetic is exact. Strings hold code points
  below 256 and case mapping is that of the ASCII letters; YAML mappings have string keys. The
  recursion limit of the JSON parser, the limit on the digits of an \<^verbatim>\<open>int()\<close> and a
  \<^verbatim>\<open>KeyboardInterrupt\<close> in the middle of an operation are left out; a signal takes effect at
  the end of a round.
\<close>

section \<open>From the host monitor to the aggregator\<close>

text \<open>The message a receiver reads, against the abstract message of the round.\<close>

definition read_values :: "(string, pyval) dict \<Rightarrow> DiagnosticKeyValue list" where
  "read_values d = map (\<lambda>(k, v). \<lparr>kv_key = k, kv_value = v\<rparr>) d"

fun reads_as :: "HostMonitorConfig \<Rightarrow> outgoing \<Rightarrow> DiagnosticsMessage \<Rightarrow> bool" where
  "reads_as config (Measured path level t vs) m =
     (m_node m = path \<and> m_hw_id m = hc_hw_id config \<and> m_level m = NInt level \<and> m_msg m = t \<and>
      m_values m = read_values (available_values vs))"
| "reads_as config (Failed path name exc) m =
     (m_node m = path \<and> m_hw_id m = hc_hw_id config \<and> m_level m = NInt 1 \<and>
      m_msg m = ''WARN: '' @ name @ '' collection failed ('' @ exc_name exc @ '')'' \<and>
      m_values m = read_values [(''collector.available'', PFloat (Fin 0))])"

lemma available_named: "named vs \<Longrightarrow> (k, v) \<in> set (available_values vs) \<Longrightarrow> k \<noteq> []"
  using in_dict_update [of k v "[(''collector.available'', PFloat (Fin 1))]" "map (\<lambda>(k, f). (k, PFloat f)) vs"]
  by (force simp: available_values_def named_def)

lemma sent_is_received:
  assumes "sent_as config pl m" and "out_ok m" and "loads data = Inr pl"
  shows "\<exists>msg. zmq_poll message_schema loads (Some data) = Inr [msg] \<and> reads_as config m msg"
proof (cases m)
  case (Measured path level t vs)
  then obtain p stamp where p: "from_monitor config path p stamp" and pl: "pl = payload_of p stamp level t (available_values vs)"
    using assms(1) by auto
  have "level \<in> {0, 1, 2, 3}" and "named vs" using assms(2) Measured by auto
  with payload_received [of p level "available_values vs" loads data stamp t] p pl assms(3) available_named show ?thesis
    by (simp add: Measured from_monitor_def read_values_def)
next
  case (Failed path name exc)
  then obtain p stamp where p: "from_monitor config path p stamp"
    and pl: "pl = payload_of p stamp 1 (''WARN: '' @ name @ '' collection failed ('' @ exc_name exc @ '')'')
      [(''collector.available'', PFloat (Fin 0))]" using assms(1) by auto
  with payload_received [of p 1 "[(''collector.available'', PFloat (Fin 0))]" loads data stamp] assms(3) show ?thesis
    by (simp add: Failed from_monitor_def read_values_def)
qed

lemma all_sent_received:
  assumes "list_all2 (sent_as config) pls out" and "list_all out_ok out" and "\<forall>pl. json_ok pl \<longrightarrow> loads (wire pl) = Inr pl"
  shows "list_all2 (\<lambda>pl m. \<exists>msg. zmq_poll message_schema loads (Some (wire pl)) = Inr [msg] \<and> reads_as config m msg) pls out"
  using assms(1,2)
proof (induction rule: list_all2_induct)
  case (Cons pl pls m out)
  then have "loads (wire pl) = Inr pl" using assms(3) sent_json_ok by simp
  with Cons show ?case using sent_is_received [of config pl m loads "wire pl"] by simp
qed simp

lemma battery_message_read: "reads_as config m msg \<Longrightarrow> battery_message m \<Longrightarrow> m_node msg = ''host/robot/battery'' \<and> m_level msg = NInt 0"
  by (auto simp: battery_message_def)

text \<open>C4: What the host monitor publishes, the aggregator understands. In a world where publishing works
  and decoding gives back what was encoded, every payload of a round, put on the wire and polled
  by the aggregator's source, is accepted as one message: with the path, the level, the text
  and the values that the abstract round gives it, and the configured hardware id, one for one
  and in order.\<close>

theorem host_round_received:
  assumes "good_env env" and "all_sent env" and "monitor_inv hm" and "\<forall>pl. json_ok pl \<longrightarrow> loads (wire pl) = Inr pl"
  shows "case sample_once any_sample collector_name env hm w of (hm1, w1, e) \<Rightarrow>
    (let (cs, answers) = ask any_sample collector_name (me_reading env) (mw_calls w) (env_mono (me_env env) (w_mono (mw_pub w))) (hm_collectors hm);
         (out, paths, he) = round_spec (me_order env) (hm_config hm) answers (hm_paths hm) (hm_health hm)
     in \<exists>pls. w_sent (mw_pub w1) = w_sent (mw_pub w) @ pls \<and>
          list_all2 (\<lambda>pl m. \<exists>msg. zmq_poll message_schema loads (Some (wire pl)) = Inr [msg] \<and> reads_as (hm_config hm) m msg) pls out)"
proof -
  let ?answers = "snd (ask any_sample collector_name (me_reading env) (mw_calls w) (env_mono (me_env env) (w_mono (mw_pub w))) (hm_collectors hm))"
  let ?out = "fst (round_spec (me_order env) (hm_config hm) ?answers (hm_paths hm) (hm_health hm))"
  have "states_ok error_key (hm_health hm)" using assms(3) by (simp add: monitor_inv_def)
  then have ok: "list_all out_ok ?out" using host.ask_samples_ok by (intro round_spec_ok) blast+
  obtain hm1 w1 where o: "sample_once any_sample collector_name env hm w = (hm1, w1, None)" and s: "sends env (hm_config hm) w w1 ?out"
    using host.sample_once_ok [OF assms(1,3), of w] by (auto simp: Let_def split_beta)
  obtain pls where "w_sent (mw_pub w1) = w_sent (mw_pub w) @ pls" and "list_all2 (sent_as (hm_config hm)) pls ?out"
    using s assms(2) by (auto simp: sends_def)
  with all_sent_received [where config = "hm_config hm" and loads = loads and wire = wire, OF _ ok assms(4)] show ?thesis by (auto simp: o Let_def split_beta)
qed

theorem host_round_received_witness:
  "\<exists>pl m. w_sent (mw_pub (fst (snd (sample_once any_sample collector_name quiet_env battery_monitor start_world)))) = [pl] \<and>
     zmq_poll message_schema Inr (Some pl) = Inr [m] \<and> m_node m = ''host/robot/battery'' \<and> m_level m = NInt 0"
  using host_round_received [OF quiet_env_good battery_start(1), of Inr "\<lambda>pl. pl" start_world] battery_round
  by (auto simp: battery_start(3) Let_def split_beta list_all2_Cons2 dest!: battery_message_read)

end
